(* ===== verification/Prelude.thy ===== *)
theory Prelude
  imports Main "HOL-Library.Word" "HOL-Library.Monad_Syntax"
begin

text \<open>
  Shared vocabulary of the development: the machine integers of the C++ sources as words, byte
  strings, the size of a container read as a \<^verbatim>\<open>size_t\<close>, and the generic lemmas on words,
  lists and association lists that the component theories use.

  Conventions. A \<^verbatim>\<open>std::string\<close> that carries keys or values and a \<^verbatim>\<open>std::vector<uint8_t>\<close> are
  lists of bytes; text (options, messages) is a \<open>string\<close>. Sizes of containers and positions inside
  them are \<open>nat\<close>; every \<^verbatim>\<open>size_t\<close> that is stored, configured or computed with is a 64-bit word,
  so that its arithmetic wraps as it does in the code.
\<close>

type_synonym u8 = "8 word"
type_synonym u16 = "16 word"
type_synonym u32 = "32 word"
type_synonym u64 = "64 word"
type_synonym bytes = "u8 list"

named_theorems unat_simps \<open>exact values of word arithmetic that does not wrap\<close>

definition sz :: "'a list \<Rightarrow> u64" where
  "sz xs = of_nat (length xs)"

lemma unat_sz [unat_simps]: "length xs < 2 ^ 64 \<Longrightarrow> unat (sz xs) = length xs"
  by (simp add: sz_def unat_of_nat take_bit_nat_eq_self)

lemma unat_add_exact [unat_simps]:
  "unat a + unat b < 2 ^ 64 \<Longrightarrow> unat (a + b) = unat a + unat (b :: u64)"
  by (simp add: unat_word_ariths)

lemma unat_sub_exact [unat_simps]:
  "unat b \<le> unat a \<Longrightarrow> unat (a - b) = unat a - unat (b :: u64)"
  by (simp add: unat_sub word_le_nat_alt)

lemma unat_ucast_32_64 [simp]: "unat (ucast (x :: u32) :: u64) = unat x"
  proof -
  have "unat x < 2 ^ 32" using unsigned_less [of x] by simp
  then have "unat x < 2 ^ 64" by simp
  then show ?thesis by (simp add: unsigned_ucast_eq take_bit_nat_eq_self)
qed

lemma find_SomeD: "find P xs = Some x \<Longrightarrow> x \<in> set xs \<and> P x"
  by (induction xs) (auto split: if_splits)

end
