(* ===== verification/Protocol.thy ===== *)
theory Protocol
  imports Prelude
begin

text \<open>
  The wire protocol of \<^verbatim>\<open>include/cache/protocol.h\<close> and \<^verbatim>\<open>src/protocol.cpp\<close>: constants, opcodes,
  status codes, the header, requests and responses, parse results and the per-opcode payload rules.
  Enumerators carry the name of their C++ enum as a prefix, because three enums share enumerator
  names. The \<^verbatim>\<open>static_cast\<close> from a raw byte to an enum is the partial function \<open>opcode_of_u8\<close>
  (\<open>status_of_u8\<close>); the code applies it only to bytes that passed the validity check.
\<close>

section \<open>Constants\<close>

definition kMagic :: u32 where "kMagic = 0x4C435331"
definition kVersion :: u8 where "kVersion = 1"
definition kHeaderSize :: nat where "kHeaderSize = 24"
definition kMaxKeyBytes :: u32 where "kMaxKeyBytes = 64 * 1024"
definition kMaxValueBytes :: u32 where "kMaxValueBytes = 64 * 1024 * 1024"
definition kMaxFrameBytes :: u64 where
  "kMaxFrameBytes = of_nat kHeaderSize + ucast kMaxKeyBytes + ucast kMaxValueBytes"

section \<open>Opcodes and status codes\<close>

datatype opcode =
    Opcode_kGet | Opcode_kPut | Opcode_kDelete | Opcode_kPing | Opcode_kStats | Opcode_kClear

datatype status =
    Status_kOk | Status_kNotFound | Status_kInvalidRequest | Status_kValueTooLarge
  | Status_kServerBusy | Status_kInternalError | Status_kUnsupportedVersion

fun opcode_to_u8 :: "opcode \<Rightarrow> u8" where
  "opcode_to_u8 Opcode_kGet = 1"
| "opcode_to_u8 Opcode_kPut = 2"
| "opcode_to_u8 Opcode_kDelete = 3"
| "opcode_to_u8 Opcode_kPing = 4"
| "opcode_to_u8 Opcode_kStats = 5"
| "opcode_to_u8 Opcode_kClear = 6"

definition opcode_of_u8 :: "u8 \<Rightarrow> opcode option" where
  "opcode_of_u8 raw =
     (if raw = 1 then Some Opcode_kGet
      else if raw = 2 then Some Opcode_kPut
      else if raw = 3 then Some Opcode_kDelete
      else if raw = 4 then Some Opcode_kPing
      else if raw = 5 then Some Opcode_kStats
      else if raw = 6 then Some Opcode_kClear
      else None)"

fun status_to_u8 :: "status \<Rightarrow> u8" where
  "status_to_u8 Status_kOk = 0"
| "status_to_u8 Status_kNotFound = 1"
| "status_to_u8 Status_kInvalidRequest = 2"
| "status_to_u8 Status_kValueTooLarge = 3"
| "status_to_u8 Status_kServerBusy = 4"
| "status_to_u8 Status_kInternalError = 5"
| "status_to_u8 Status_kUnsupportedVersion = 6"

definition status_of_u8 :: "u8 \<Rightarrow> status option" where
  "status_of_u8 raw =
     (if raw = 0 then Some Status_kOk
      else if raw = 1 then Some Status_kNotFound
      else if raw = 2 then Some Status_kInvalidRequest
      else if raw = 3 then Some Status_kValueTooLarge
      else if raw = 4 then Some Status_kServerBusy
      else if raw = 5 then Some Status_kInternalError
      else if raw = 6 then Some Status_kUnsupportedVersion
      else None)"

definition is_valid_opcode :: "u8 \<Rightarrow> bool" where
  "is_valid_opcode raw = (case opcode_of_u8 raw of Some _ \<Rightarrow> True | None \<Rightarrow> False)"

definition is_valid_status :: "u8 \<Rightarrow> bool" where
  "is_valid_status raw = (case status_of_u8 raw of Some _ \<Rightarrow> True | None \<Rightarrow> False)"

fun opcode_to_string :: "opcode \<Rightarrow> string" where
  "opcode_to_string Opcode_kGet = ''GET''"
| "opcode_to_string Opcode_kPut = ''PUT''"
| "opcode_to_string Opcode_kDelete = ''DELETE''"
| "opcode_to_string Opcode_kPing = ''PING''"
| "opcode_to_string Opcode_kStats = ''STATS''"
| "opcode_to_string Opcode_kClear = ''CLEAR''"

fun status_to_string :: "status \<Rightarrow> string" where
  "status_to_string Status_kOk = ''OK''"
| "status_to_string Status_kNotFound = ''NOT_FOUND''"
| "status_to_string Status_kInvalidRequest = ''INVALID_REQUEST''"
| "status_to_string Status_kValueTooLarge = ''VALUE_TOO_LARGE''"
| "status_to_string Status_kServerBusy = ''SERVER_BUSY''"
| "status_to_string Status_kInternalError = ''INTERNAL_ERROR''"
| "status_to_string Status_kUnsupportedVersion = ''UNSUPPORTED_VERSION''"

section \<open>Frames\<close>

record header =
  hdr_version :: u8
  hdr_opcode :: u8
  hdr_flags :: u8
  hdr_status :: u8
  hdr_request_id :: u64
  hdr_key_len :: u32
  hdr_value_len :: u32

definition default_header :: header where
  "default_header = \<lparr>hdr_version = kVersion, hdr_opcode = 0, hdr_flags = 0, hdr_status = 0,
     hdr_request_id = 0, hdr_key_len = 0, hdr_value_len = 0\<rparr>"

record request =
  req_opcode :: opcode
  req_request_id :: u64
  req_key :: bytes
  req_value :: bytes

definition default_request :: request where
  "default_request =
     \<lparr>req_opcode = Opcode_kPing, req_request_id = 0, req_key = [], req_value = []\<rparr>"

record response =
  resp_opcode :: opcode
  resp_status :: status
  resp_request_id :: u64
  resp_value :: bytes

definition default_response :: response where
  "default_response =
     \<lparr>resp_opcode = Opcode_kPing, resp_status = Status_kOk, resp_request_id = 0, resp_value = []\<rparr>"

section \<open>Parse results\<close>

datatype parse_status = ParseStatus_kComplete | ParseStatus_kNeedMoreData | ParseStatus_kMalformed

datatype parse_error =
    ParseError_kNone | ParseError_kBadMagic | ParseError_kUnsupportedVersion
  | ParseError_kInvalidOpcode | ParseError_kInvalidStatus | ParseError_kReservedFlags
  | ParseError_kKeyTooLarge | ParseError_kValueTooLarge | ParseError_kPayloadNotAllowed
  | ParseError_kMissingKey

fun parse_error_to_string :: "parse_error \<Rightarrow> string" where
  "parse_error_to_string ParseError_kNone = ''none''"
| "parse_error_to_string ParseError_kBadMagic = ''bad magic''"
| "parse_error_to_string ParseError_kUnsupportedVersion = ''unsupported version''"
| "parse_error_to_string ParseError_kInvalidOpcode = ''invalid opcode''"
| "parse_error_to_string ParseError_kInvalidStatus = ''invalid status''"
| "parse_error_to_string ParseError_kReservedFlags = ''reserved flags set''"
| "parse_error_to_string ParseError_kKeyTooLarge = ''key too large''"
| "parse_error_to_string ParseError_kValueTooLarge = ''value too large''"
| "parse_error_to_string ParseError_kPayloadNotAllowed = ''payload not allowed for opcode''"
| "parse_error_to_string ParseError_kMissingKey = ''missing key''"

record parse_result =
  pr_status :: parse_status
  pr_error :: parse_error
  pr_consumed :: nat

definition pr_complete :: "nat \<Rightarrow> parse_result" where
  "pr_complete consumed =
     \<lparr>pr_status = ParseStatus_kComplete, pr_error = ParseError_kNone, pr_consumed = consumed\<rparr>"

definition pr_need_more :: parse_result where
  "pr_need_more =
     \<lparr>pr_status = ParseStatus_kNeedMoreData, pr_error = ParseError_kNone, pr_consumed = 0\<rparr>"

definition pr_malformed :: "parse_error \<Rightarrow> parse_result" where
  "pr_malformed error = \<lparr>pr_status = ParseStatus_kMalformed, pr_error = error, pr_consumed = 0\<rparr>"

record limits =
  max_key_bytes :: u32
  max_value_bytes :: u32

definition default_limits :: limits where
  "default_limits = \<lparr>max_key_bytes = kMaxKeyBytes, max_value_bytes = kMaxValueBytes\<rparr>"

section \<open>Payload rules\<close>

fun opcode_requires_key :: "opcode \<Rightarrow> bool" where
  "opcode_requires_key Opcode_kGet = True"
| "opcode_requires_key Opcode_kPut = True"
| "opcode_requires_key Opcode_kDelete = True"
| "opcode_requires_key Opcode_kPing = False"
| "opcode_requires_key Opcode_kStats = False"
| "opcode_requires_key Opcode_kClear = False"

definition opcode_allows_value :: "opcode \<Rightarrow> bool" where
  "opcode_allows_value opcode = (opcode = Opcode_kPut)"

section \<open>Facts about the enums and the parse results\<close>

lemma opcode_of_to_u8 [simp]: "opcode_of_u8 (opcode_to_u8 op) = Some op"
  by (cases op) (simp_all add: opcode_of_u8_def)

lemma status_of_to_u8 [simp]: "status_of_u8 (status_to_u8 st) = Some st"
  by (cases st) (simp_all add: status_of_u8_def)

lemma opcode_of_u8_SomeD: "opcode_of_u8 raw = Some op \<Longrightarrow> raw = opcode_to_u8 op"
  by (auto simp: opcode_of_u8_def split: if_splits)

lemma status_of_u8_SomeD: "status_of_u8 raw = Some st \<Longrightarrow> raw = status_to_u8 st"
  by (auto simp: status_of_u8_def split: if_splits)

lemma is_valid_opcode_iff: "is_valid_opcode raw \<longleftrightarrow> (\<exists>op. raw = opcode_to_u8 op)"
  by (auto simp: is_valid_opcode_def split: option.splits dest: opcode_of_u8_SomeD)

lemma is_valid_status_iff: "is_valid_status raw \<longleftrightarrow> (\<exists>st. raw = status_to_u8 st)"
  by (auto simp: is_valid_status_def split: option.splits dest: status_of_u8_SomeD)

lemma pr_distinct [simp]:
  "pr_complete n \<noteq> pr_need_more" "pr_need_more \<noteq> pr_complete n"
  "pr_complete n \<noteq> pr_malformed e" "pr_malformed e \<noteq> pr_complete n"
  "pr_need_more \<noteq> pr_malformed e" "pr_malformed e \<noteq> pr_need_more"
  by (simp_all add: pr_complete_def pr_need_more_def pr_malformed_def)

lemma pr_inject [simp]:
  "pr_complete m = pr_complete n \<longleftrightarrow> m = n"
  "pr_malformed e = pr_malformed f \<longleftrightarrow> e = f"
  by (simp_all add: pr_complete_def pr_malformed_def)

lemma pr_fields [simp]:
  "pr_status (pr_complete n) = ParseStatus_kComplete" "pr_consumed (pr_complete n) = n"
  "pr_status pr_need_more = ParseStatus_kNeedMoreData" "pr_consumed pr_need_more = 0"
  "pr_status (pr_malformed e) = ParseStatus_kMalformed" "pr_consumed (pr_malformed e) = 0"
  "pr_error (pr_complete n) = ParseError_kNone" "pr_error pr_need_more = ParseError_kNone"
  "pr_error (pr_malformed e) = e"
  by (simp_all add: pr_complete_def pr_need_more_def pr_malformed_def)

end
