(* ===== verification/Framing.thy ===== *)
theory Framing
  imports Protocol
begin

text \<open>
  The contract of a length-prefixed frame codec, as an interface that the request codec and the
  response codec of \<^verbatim>\<open>src/serializer.cpp\<close> both provide and that the stream loops (the server's
  \<^verbatim>\<open>process_input\<close>, the clients' receive loops) rely on. \<open>drain\<close> is the reference decoder of a
  byte stream: it takes frames off the head of the buffer until the parser stops. The lemmas of the
  locale say that coalesced frames come out one by one and in order, and that it does not matter how
  the stream was cut into reads.
\<close>

function drain :: "(bytes \<Rightarrow> parse_result \<times> 'a) \<Rightarrow> bytes \<Rightarrow> 'a list \<times> bytes \<times> parse_result" where
  "drain dec input =
     (case dec input of (r, x) \<Rightarrow>
        if pr_status r = ParseStatus_kComplete \<and> 0 < pr_consumed r \<and> pr_consumed r \<le> length input
        then (case drain dec (drop (pr_consumed r) input) of (xs, rest, r') \<Rightarrow> (x # xs, rest, r'))
        else ([], input, r))"
  by pat_completeness auto
termination
  by (relation "measure (\<lambda>(dec, input). length input)") auto

declare drain.simps [simp del]

text \<open>The same stream delivered in several reads: every read is appended to the bytes left over.\<close>

fun feed :: "(bytes \<Rightarrow> parse_result \<times> 'a) \<Rightarrow> bytes \<Rightarrow> bytes list \<Rightarrow> 'a list \<times> bytes" where
  "feed dec buf [] = ([], buf)"
| "feed dec buf (chunk # chunks) =
     (case drain dec (buf @ chunk) of (xs, rest, r) \<Rightarrow>
        (case feed dec rest chunks of (ys, rest') \<Rightarrow> (xs @ ys, rest')))"

locale framed_codec =
  fixes enc :: "'a \<Rightarrow> bytes"
    and dec :: "bytes \<Rightarrow> parse_result \<times> 'a"
    and ok :: "'a \<Rightarrow> bool"
  assumes dec_enc: "ok x \<Longrightarrow> dec (enc x @ rest) = (pr_complete (length (enc x)), x)"
    and dec_prefix: "ok x \<Longrightarrow> n < length (enc x) \<Longrightarrow> fst (dec (take n (enc x))) = pr_need_more"
    and dec_sound: "pr_status (fst (dec input)) = ParseStatus_kComplete \<Longrightarrow>
      ok (snd (dec input)) \<and> take (pr_consumed (fst (dec input))) input = enc (snd (dec input))
        \<and> pr_consumed (fst (dec input)) \<le> length input"
    and dec_stable: "pr_status (fst (dec input)) \<noteq> ParseStatus_kNeedMoreData \<Longrightarrow>
      dec (input @ ext) = dec input"
    and enc_nonempty: "enc x \<noteq> []"
begin

lemma dec_split:
  assumes "pr_status (fst (dec input)) = ParseStatus_kComplete"
  shows "ok (snd (dec input)) \<and> input = enc (snd (dec input)) @ drop (pr_consumed (fst (dec input))) input
    \<and> pr_consumed (fst (dec input)) = length (enc (snd (dec input)))"
proof -
  note s = dec_sound [OF assms]
  have "min (length input) (pr_consumed (fst (dec input))) = length (enc (snd (dec input)))"
    using s by (metis length_take)
  with s have "pr_consumed (fst (dec input)) = length (enc (snd (dec input)))" by simp
  then show ?thesis
    using s append_take_drop_id [of "pr_consumed (fst (dec input))" input] by simp
qed

lemma prefix_free:
  assumes "ok x" "ok y" "enc x @ r = enc y @ s"
  shows "x = y \<and> r = s"
  using dec_enc [OF assms(1), of r] dec_enc [OF assms(2), of s] assms(3) by simp

lemma drain_complete:
  assumes "pr_status (fst (dec input)) = ParseStatus_kComplete"
  shows "drain dec input =
    (case drain dec (drop (pr_consumed (fst (dec input))) input) of
       (xs, rest, r) \<Rightarrow> (snd (dec input) # xs, rest, r))"
  using assms dec_split [OF assms] enc_nonempty dec_sound [OF assms]
  by (subst drain.simps) (auto split: prod.splits)

lemma drain_stop:
  assumes "pr_status (fst (dec input)) \<noteq> ParseStatus_kComplete"
  shows "drain dec input = ([], input, fst (dec input))"
  using assms by (subst drain.simps) (auto split: prod.splits)

lemma drain_enc:
  assumes "ok x"
  shows "drain dec (enc x @ rest) = (case drain dec rest of (xs, r, p) \<Rightarrow> (x # xs, r, p))"
  using drain_complete [of "enc x @ rest"] by (simp add: dec_enc [OF assms])

lemma drain_frames:
  assumes "list_all ok xs"
  shows "drain dec (concat (map enc xs) @ rest) = (case drain dec rest of (ys, r, p) \<Rightarrow> (xs @ ys, r, p))"
  using assms by (induction xs) (auto simp: drain_enc split: prod.splits)

lemma drain_partial:
  assumes "list_all ok xs" "ok y" "n < length (enc y)"
  shows "drain dec (concat (map enc xs) @ take n (enc y)) = (xs, take n (enc y), pr_need_more)"
  using drain_frames [OF assms(1)] drain_stop [of "take n (enc y)"] dec_prefix [OF assms(2,3)]
  by simp

lemma drain_sound:
  "drain dec input = (xs, rest, r) \<Longrightarrow>
     list_all ok xs \<and> input = concat (map enc xs) @ rest
     \<and> r = fst (dec rest) \<and> pr_status r \<noteq> ParseStatus_kComplete"
proof (induction "length input" arbitrary: input xs rule: less_induct)
  case less
  show ?case
  proof (cases "pr_status (fst (dec input)) = ParseStatus_kComplete")
    case True
    let ?x = "snd (dec input)" and ?tl = "drop (pr_consumed (fst (dec input))) input"
    from less.prems drain_complete [OF True] obtain ys where
      ys: "drain dec ?tl = (ys, rest, r)" and xs: "xs = ?x # ys"
      by (auto split: prod.splits)
    note sp = dec_split [OF True]
    then have "length ?tl < length input"
      using enc_nonempty [of ?x] dec_sound [OF True] by (cases "enc ?x") auto
    from less.hyps [OF this ys] sp show ?thesis by (auto simp: xs)
  next
    case False
    with less.prems drain_stop [OF False] show ?thesis by auto
  qed
qed

lemma drain_append:
  assumes "drain dec input = (xs, rest, r)"
  shows "drain dec (input @ ext) = (case drain dec (rest @ ext) of (ys, s, p) \<Rightarrow> (xs @ ys, s, p))"
  using drain_sound [OF assms] drain_frames [of xs "rest @ ext"] by simp

lemma drain_malformed_append:
  assumes "drain dec input = (xs, rest, r)" "pr_status r = ParseStatus_kMalformed"
  shows "drain dec (input @ ext) = (xs, rest @ ext, r)"
proof -
  from drain_sound [OF assms(1)] have r: "r = fst (dec rest)" by simp
  with assms(2) have "dec (rest @ ext) = dec rest" by (intro dec_stable) simp
  then have "drain dec (rest @ ext) = ([], rest @ ext, r)"
    using r assms(2) drain_stop [of "rest @ ext"] by simp
  then show ?thesis using drain_append [OF assms(1)] by simp
qed

lemma feed_drain:
  "feed dec buf chunks = (xs, rest) \<Longrightarrow> fst (drain dec buf) = [] \<Longrightarrow>
     \<exists>r. drain dec (buf @ concat chunks) = (xs, rest, r)"
proof (induction chunks arbitrary: buf xs)
  case Nil
  then show ?case
    using drain_sound [of buf] by (cases "drain dec buf") fastforce
next
  case (Cons c cs)
  obtain ys s p where d: "drain dec (buf @ c) = (ys, s, p)" by (cases "drain dec (buf @ c)")
  with Cons.prems obtain zs where f: "feed dec s cs = (zs, rest)" and xs: "xs = ys @ zs"
    by (auto split: prod.splits)
  have "fst (drain dec s) = []"
    using drain_sound [OF d] drain_stop [of s] by auto
  with Cons.IH [OF f] obtain r where "drain dec (s @ concat cs) = (zs, rest, r)" by blast
  with drain_append [OF d, of "concat cs"] show ?case by (simp add: xs)
qed

end

end
