(* ===== verification/Printing.thy ===== *)
theory Printing
  imports Prelude
begin

text \<open>
  What the sources print with \<^verbatim>\<open>printf\<close>: decimal numbers, and \<^verbatim>\<open>double\<close> values with a fixed number of
  digits. A non-negative \<^verbatim>\<open>double\<close> is the exact fraction it stands for, a numerator and a denominator
  that is a power of two; conversions and division round to 53 significant bits, ties to even, and \<^verbatim>\<open>%.nf\<close>
  rounds the exact value to \<open>n\<close> decimals, ties to even, as the C library does. The operands stay far from
  overflow and from subnormal numbers.
\<close>

section \<open>Decimal numbers\<close>

fun to_string :: "nat \<Rightarrow> string" where
  "to_string n = (if n < 10 then [char_of (48 + n)] else to_string (n div 10) @ [char_of (48 + n mod 10)])"

declare to_string.simps [simp del]

abbreviation nl :: string where "nl \<equiv> [CHR 0x0A]"

definition pad_left :: "nat \<Rightarrow> char \<Rightarrow> string \<Rightarrow> string" where
  "pad_left n ch s = replicate (n - length s) ch @ s"

section \<open>Rounding\<close>

type_synonym double = "nat \<times> nat"

text \<open>The integer nearest to \<open>p / q\<close>, ties to even.\<close>

definition round_half_even :: "nat \<Rightarrow> nat \<Rightarrow> nat" where
  "round_half_even p q =
     (let d = p div q; r = p mod q in if 2 * r < q \<or> 2 * r = q \<and> even d then d else d + 1)"

fun bit_length :: "nat \<Rightarrow> nat" where
  "bit_length n = (if n = 0 then 0 else Suc (bit_length (n div 2)))"

declare bit_length.simps [simp del]

text \<open>
  \<open>p / q\<close> to \<open>m\<close> significant bits: scaled between \<open>2 ^ (m - 1)\<close> and \<open>2 ^ m\<close>, rounded, scaled back. A \<^verbatim>\<open>double\<close> has
  53 bits, the \<^verbatim>\<open>long double\<close> of the x86-64 platform 64.
\<close>

definition scale :: "int \<Rightarrow> nat \<Rightarrow> nat \<Rightarrow> nat \<times> nat" where
  "scale e p q = (if e \<ge> 0 then (p * 2 ^ nat e, q) else (p, q * 2 ^ nat (- e)))"

definition float_exponent :: "nat \<Rightarrow> nat \<Rightarrow> nat \<Rightarrow> int" where
  "float_exponent m p q =
     (let e = int m + int (bit_length q) - int (bit_length p)
      in case scale e p q of (a, b) \<Rightarrow> if a \<ge> b * 2 ^ m then e - 1 else e)"

definition float_of_rat :: "nat \<Rightarrow> nat \<Rightarrow> nat \<Rightarrow> double" where
  "float_of_rat m p q =
     (if p = 0 then (0, 1)
      else let e = float_exponent m p q
           in case scale e p q of (a, b) \<Rightarrow> scale (- e) (round_half_even a b) 1)"

abbreviation double_of_rat :: "nat \<Rightarrow> nat \<Rightarrow> double" where
  "double_of_rat \<equiv> float_of_rat 53"

definition double_of_u64 :: "u64 \<Rightarrow> double" where
  "double_of_u64 n = double_of_rat (unat n) 1"

definition float_div :: "nat \<Rightarrow> double \<Rightarrow> double \<Rightarrow> double" where
  "float_div m x y = float_of_rat m (fst x * snd y) (snd x * fst y)"

definition float_mult :: "nat \<Rightarrow> double \<Rightarrow> double \<Rightarrow> double" where
  "float_mult m x y = float_of_rat m (fst x * fst y) (snd x * snd y)"

definition float_add :: "nat \<Rightarrow> double \<Rightarrow> double \<Rightarrow> double" where
  "float_add m x y = float_of_rat m (fst x * snd y + fst y * snd x) (snd x * snd y)"

abbreviation double_div :: "double \<Rightarrow> double \<Rightarrow> double" where
  "double_div \<equiv> float_div 53"

abbreviation double_mult :: "double \<Rightarrow> double \<Rightarrow> double" where
  "double_mult \<equiv> float_mult 53"

text \<open>\<^verbatim>\<open>%.nf\<close>.\<close>

definition printf_fixed :: "nat \<Rightarrow> double \<Rightarrow> string" where
  "printf_fixed n x =
     (let k = round_half_even (fst x * 10 ^ n) (snd x)
      in if n = 0 then to_string k
         else to_string (k div 10 ^ n) @ ''.'' @ pad_left n CHR ''0'' (to_string (k mod 10 ^ n)))"

section \<open>Lemmas\<close>

lemmas printing_eval = printf_fixed_def float_div_def double_of_u64_def float_of_rat_def float_exponent_def scale_def
  round_half_even_def Let_def bit_length.simps to_string.simps pad_left_def char_of_def bit_0

lemma to_string_digits: "to_string n \<noteq> []"
  by (subst to_string.simps) simp

lemma round_half_even_nearest:
  assumes "q > 0"
  shows "2 * (round_half_even p q * q) \<le> 2 * p + q" "2 * p \<le> 2 * (round_half_even p q * q) + q"
proof -
  define d r where "d = p div q" and "r = p mod q"
  have p: "p = d * q + r" by (simp add: d_def r_def)
  have "round_half_even p q = d \<and> 2 * r \<le> q \<or> round_half_even p q = d + 1 \<and> q \<le> 2 * r"
    by (simp add: round_half_even_def Let_def d_def [symmetric] r_def [symmetric])
  moreover have "r < q" using assms by (simp add: r_def)
  ultimately show "2 * (round_half_even p q * q) \<le> 2 * p + q" "2 * p \<le> 2 * (round_half_even p q * q) + q"
    by (auto simp: p algebra_simps)
qed

lemma round_half_even_exact: "q > 0 \<Longrightarrow> round_half_even (n * q) q = n"
  by (simp add: round_half_even_def)

lemma round_half_even_le:
  assumes "q > 0" "p \<le> n * q"
  shows "round_half_even p q \<le> n"
proof (cases "p = n * q")
  case True
  then show ?thesis using assms(1) by (simp add: round_half_even_exact)
next
  case False
  then have "p < n * q" using assms(2) by simp
  then have "p div q < n" using assms(1) by (simp add: less_mult_imp_div_less)
  then show ?thesis by (simp add: round_half_even_def Let_def)
qed

lemma bit_length_mono: "p \<le> q \<Longrightarrow> bit_length p \<le> bit_length q"
proof (induction p arbitrary: q rule: bit_length.induct)
  case (1 p)
  then have "bit_length (p div 2) \<le> bit_length (q div 2)" if "p \<noteq> 0" using that by (simp add: div_le_mono)
  with 1(2) show ?case by (subst (1 2) bit_length.simps) auto
qed

lemma bit_length_bounds: "n > 0 \<Longrightarrow> 2 ^ bit_length n \<le> 2 * n \<and> n < 2 ^ bit_length n"
proof (induction n rule: bit_length.induct)
  case (1 n)
  show ?case
  proof (cases "n div 2 = 0")
    case True
    then have "n = 1" using 1(2) by (simp add: div_eq_0_iff)
    then show ?thesis by (simp add: bit_length.simps)
  next
    case False
    with 1 have "2 ^ bit_length (n div 2) \<le> 2 * (n div 2)" "n div 2 < 2 ^ bit_length (n div 2)" by auto
    moreover have "bit_length n = Suc (bit_length (n div 2))" using 1(2) by (subst bit_length.simps) simp
    ultimately show ?thesis by auto
  qed
qed

lemma double_of_rat_le_1:
  assumes "p \<le> q" "q > 0"
  shows "fst (double_of_rat p q) \<le> snd (double_of_rat p q)" "snd (double_of_rat p q) > 0"
proof -
  have "fst (double_of_rat p q) \<le> snd (double_of_rat p q) \<and> snd (double_of_rat p q) > 0"
  proof (cases "p = 0")
    case False
    define f where "f = float_exponent 53 p q"
    have f: "f > 0" using bit_length_mono [OF assms(1)] by (simp add: f_def float_exponent_def Let_def split: prod.split)
    have "round_half_even (p * 2 ^ nat f) q \<le> 2 ^ nat f" using assms by (intro round_half_even_le) simp_all
    moreover have "double_of_rat p q = (round_half_even (p * 2 ^ nat f) q, 2 ^ nat f)"
      using False f by (simp add: float_of_rat_def Let_def f_def [symmetric]) (simp add: scale_def)
    ultimately show ?thesis by simp
  qed (simp add: float_of_rat_def)
  then show "fst (double_of_rat p q) \<le> snd (double_of_rat p q)" "snd (double_of_rat p q) > 0" by simp_all
qed

lemma double_of_u64_exact:
  assumes "unat n < 2 ^ 53"
  shows "\<exists>k. double_of_u64 n = (unat n * 2 ^ k, 2 ^ k)"
proof (cases "unat n = 0")
  case False
  define l where "l = bit_length (unat n)"
  have b: "2 ^ l \<le> 2 * unat n" "unat n < 2 ^ l" using bit_length_bounds [of "unat n"] False by (simp_all add: l_def)
  have l: "l \<le> 53"
  proof (rule ccontr)
    assume "\<not> l \<le> 53"
    then have "(2::nat) ^ 54 \<le> 2 ^ l" by (intro power_increasing) simp_all
    with b(1) assms show False by simp
  qed
  have one: "bit_length 1 = 1" by (simp add: bit_length.simps [of 1] bit_length.simps [of 0] bit_length.simps [of "Suc 0"])
  obtain m where m: "53 = l + m" using l le_Suc_ex by blast
  have "(2::nat) ^ 53 * 2 = 2 ^ l * 2 ^ Suc m" by (simp add: m power_add)
  also have "\<dots> \<le> 2 * unat n * 2 ^ Suc m" using b(1) by (intro mult_right_mono) simp_all
  finally have big: "unat n * 2 ^ Suc m \<ge> 2 ^ 53" by simp
  have e: "int 53 + int (bit_length 1) - int l = int (Suc m)" using m unfolding one by simp
  have "float_exponent 53 (unat n) 1 = int m"
    unfolding float_exponent_def l_def [symmetric] e Let_def scale_def nat_int using big by simp
  then have "double_of_u64 n = scale (- int m) (round_half_even (unat n * 2 ^ m) 1) 1"
    using False by (simp add: double_of_u64_def float_of_rat_def) (simp add: scale_def)
  then show ?thesis by (intro exI [of _ m]) (use round_half_even_exact [of 1] in \<open>auto simp: scale_def\<close>)
next
  case True
  then show ?thesis by (intro exI [of _ 0]) (simp add: double_of_u64_def float_of_rat_def)
qed

end
