(* ===== verification/Stats.thy ===== *)
theory Stats
  imports Printing
begin

text \<open>
  The counters of \<^verbatim>\<open>include/cache/stats.h\<close>: the wire-visible snapshot and the live
  \<^verbatim>\<open>ServerStats\<close>. Counters are 64-bit atomics, so they wrap. The steady clock is not part of the
  sources: \<open>stats_snapshot_at\<close> takes the elapsed milliseconds as an argument.
\<close>

record stats_snapshot =
  cache_hits :: u64
  cache_misses :: u64
  puts :: u64
  deletes :: u64
  evictions :: u64
  current_entries :: u64
  current_cache_bytes :: u64
  current_payload_bytes :: u64
  active_connections :: u64
  total_connections :: u64
  requests_processed :: u64
  protocol_errors :: u64
  rejected_requests :: u64
  uptime_ms :: u64

definition empty_snapshot :: stats_snapshot where
  "empty_snapshot = \<lparr>cache_hits = 0, cache_misses = 0, puts = 0, deletes = 0, evictions = 0,
     current_entries = 0, current_cache_bytes = 0, current_payload_bytes = 0,
     active_connections = 0, total_connections = 0, requests_processed = 0,
     protocol_errors = 0, rejected_requests = 0, uptime_ms = 0\<rparr>"

definition hit_rate :: "stats_snapshot \<Rightarrow> double" where
  "hit_rate s =
     (let lookups = cache_hits s + cache_misses s
      in if lookups = 0 then (0, 1) else double_div (double_of_u64 (cache_hits s)) (double_of_u64 lookups))"

record server_stats =
  st_hits :: u64
  st_misses :: u64
  st_puts :: u64
  st_deletes :: u64
  st_requests :: u64
  st_protocol_errors :: u64
  st_rejected :: u64
  st_active_connections :: u64
  st_total_connections :: u64

definition new_server_stats :: server_stats where
  "new_server_stats = \<lparr>st_hits = 0, st_misses = 0, st_puts = 0, st_deletes = 0, st_requests = 0,
     st_protocol_errors = 0, st_rejected = 0, st_active_connections = 0, st_total_connections = 0\<rparr>"

definition record_hit :: "server_stats \<Rightarrow> server_stats" where
  "record_hit s = s\<lparr>st_hits := st_hits s + 1\<rparr>"
definition record_miss :: "server_stats \<Rightarrow> server_stats" where
  "record_miss s = s\<lparr>st_misses := st_misses s + 1\<rparr>"
definition record_put :: "server_stats \<Rightarrow> server_stats" where
  "record_put s = s\<lparr>st_puts := st_puts s + 1\<rparr>"
definition record_delete :: "server_stats \<Rightarrow> server_stats" where
  "record_delete s = s\<lparr>st_deletes := st_deletes s + 1\<rparr>"
definition record_request :: "server_stats \<Rightarrow> server_stats" where
  "record_request s = s\<lparr>st_requests := st_requests s + 1\<rparr>"
definition record_protocol_error :: "server_stats \<Rightarrow> server_stats" where
  "record_protocol_error s = s\<lparr>st_protocol_errors := st_protocol_errors s + 1\<rparr>"
definition record_rejected :: "server_stats \<Rightarrow> server_stats" where
  "record_rejected s = s\<lparr>st_rejected := st_rejected s + 1\<rparr>"
definition connection_opened :: "server_stats \<Rightarrow> server_stats" where
  "connection_opened s = s\<lparr>st_active_connections := st_active_connections s + 1,
     st_total_connections := st_total_connections s + 1\<rparr>"
definition connection_closed :: "server_stats \<Rightarrow> server_stats" where
  "connection_closed s = s\<lparr>st_active_connections := st_active_connections s - 1\<rparr>"

definition stats_snapshot_at :: "u64 \<Rightarrow> server_stats \<Rightarrow> stats_snapshot" where
  "stats_snapshot_at elapsed_ms s = empty_snapshot
     \<lparr>cache_hits := st_hits s,
      cache_misses := st_misses s,
      puts := st_puts s,
      deletes := st_deletes s,
      active_connections := st_active_connections s,
      total_connections := st_total_connections s,
      requests_processed := st_requests s,
      protocol_errors := st_protocol_errors s,
      rejected_requests := st_rejected s,
      uptime_ms := elapsed_ms\<rparr>"

lemmas stats_defs = record_hit_def record_miss_def record_put_def record_delete_def
  record_request_def record_protocol_error_def record_rejected_def connection_opened_def
  connection_closed_def

text \<open>
  While the number of lookups does not reach \<open>2 ^ 53\<close>, where a \<^verbatim>\<open>double\<close> counts exactly, the hit rate is at
  most 1. A number of lookups that wraps gives a rate above it.
\<close>

lemma hit_rate_le_1:
  assumes "unat (cache_hits s) + unat (cache_misses s) < 2 ^ 53"
  shows "fst (hit_rate s) \<le> snd (hit_rate s)" "snd (hit_rate s) > 0"
proof -
  let ?n = "cache_hits s + cache_misses s"
  have n: "unat ?n = unat (cache_hits s) + unat (cache_misses s)" using assms by (simp add: unat_plus_if')
  from double_of_u64_exact [of "cache_hits s"] obtain j where j: "double_of_u64 (cache_hits s) = (unat (cache_hits s) * 2 ^ j, 2 ^ j)"
    using assms by auto
  from double_of_u64_exact [of ?n] obtain k where k: "double_of_u64 ?n = (unat ?n * 2 ^ k, 2 ^ k)" using assms n by auto
  have le: "unat (cache_hits s) * 2 ^ j * 2 ^ k \<le> 2 ^ j * (unat ?n * 2 ^ k)" by (simp add: n algebra_simps)
  have "fst (hit_rate s) \<le> snd (hit_rate s) \<and> snd (hit_rate s) > 0"
  proof (cases "?n = 0")
    case False
    then have "2 ^ j * (unat ?n * 2 ^ k) > 0" by (simp add: unat_gt_0)
    from double_of_rat_le_1 [OF le this] False show ?thesis by (simp add: hit_rate_def Let_def float_div_def j k)
  qed (simp add: hit_rate_def)
  then show "fst (hit_rate s) \<le> snd (hit_rate s)" "snd (hit_rate s) > 0" by simp_all
qed

lemma hit_rate_wrapped:
  "hit_rate (empty_snapshot\<lparr>cache_hits := 0x8000000000000000, cache_misses := 0x8000000000000001\<rparr>) = (2 ^ 63, 1)"
  by (simp add: hit_rate_def empty_snapshot_def printing_eval)

end
