(* ===== verification/Serializer.thy ===== *)
theory Serializer
  imports Framing Stats
begin

unbundle bit_operations_syntax

text \<open>
  The binary codec of \<^verbatim>\<open>src/serializer.cpp\<close>: big-endian integers, request and response frames,
  the incremental parsers and the STATS payload. A function that appends to an output vector takes
  that vector and returns it extended; a parser returns its result together with the output object,
  which is unchanged unless the frame is complete. A pointer \<^verbatim>\<open>data + k\<close> is \<open>drop k data\<close>; a
  read beyond the end of the buffer, which is undefined in the code, is the unspecified \<open>data ! i\<close>.
\<close>

section \<open>Big-endian integers\<close>

definition append_bytes :: "bytes \<Rightarrow> bytes \<Rightarrow> bytes" where
  "append_bytes out data = out @ data"

definition append_u8 :: "bytes \<Rightarrow> u8 \<Rightarrow> bytes" where
  "append_u8 out value = out @ [value]"

definition append_u16 :: "bytes \<Rightarrow> u16 \<Rightarrow> bytes" where
  "append_u16 out value = (out @ [ucast (drop_bit 8 value)]) @ [ucast value]"

definition append_u32 :: "bytes \<Rightarrow> u32 \<Rightarrow> bytes" where
  "append_u32 out value =
     (((out @ [ucast (drop_bit 24 value)])
        @ [ucast (drop_bit 16 value)])
        @ [ucast (drop_bit 8 value)])
        @ [ucast value]"

definition append_u64 :: "bytes \<Rightarrow> u64 \<Rightarrow> bytes" where
  "append_u64 out value =
     fold (\<lambda>shift out. out @ [ucast (drop_bit shift value)]) [56, 48, 40, 32, 24, 16, 8, 0] out"

definition read_u8 :: "bytes \<Rightarrow> u8" where
  "read_u8 data = data ! 0"

definition read_u16 :: "bytes \<Rightarrow> u16" where
  "read_u16 data = push_bit 8 (ucast (data ! 0)) OR ucast (data ! 1)"

definition read_u32 :: "bytes \<Rightarrow> u32" where
  "read_u32 data =
     ((push_bit 24 (ucast (data ! 0)) OR push_bit 16 (ucast (data ! 1)))
        OR push_bit 8 (ucast (data ! 2))) OR ucast (data ! 3)"

definition read_u64 :: "bytes \<Rightarrow> u64" where
  "read_u64 data = fold (\<lambda>i value. push_bit 8 value OR ucast (data ! i)) [0..<8] 0"

section \<open>Headers\<close>

definition encode_header :: "bytes \<Rightarrow> header \<Rightarrow> bytes" where
  "encode_header out h =
     (let out = append_u32 out kMagic;
          out = append_u8 out (hdr_version h);
          out = append_u8 out (hdr_opcode h);
          out = append_u8 out (hdr_flags h);
          out = append_u8 out (hdr_status h);
          out = append_u64 out (hdr_request_id h);
          out = append_u32 out (hdr_key_len h)
      in append_u32 out (hdr_value_len h))"

definition decode_common_header :: "bytes \<Rightarrow> header \<Rightarrow> parse_error \<times> header" where
  "decode_common_header data h =
     (if read_u32 data \<noteq> kMagic then (ParseError_kBadMagic, h)
      else let h = h\<lparr>hdr_version := read_u8 (drop 4 data)\<rparr> in
      if hdr_version h \<noteq> kVersion then (ParseError_kUnsupportedVersion, h)
      else let h = h\<lparr>hdr_opcode := read_u8 (drop 5 data)\<rparr> in
      if \<not> is_valid_opcode (hdr_opcode h) then (ParseError_kInvalidOpcode, h)
      else let h = h\<lparr>hdr_flags := read_u8 (drop 6 data)\<rparr> in
      if hdr_flags h \<noteq> 0 then (ParseError_kReservedFlags, h)
      else (ParseError_kNone,
            h\<lparr>hdr_status := read_u8 (drop 7 data),
              hdr_request_id := read_u64 (drop 8 data),
              hdr_key_len := read_u32 (drop 16 data),
              hdr_value_len := read_u32 (drop 20 data)\<rparr>))"

definition effective_limit :: "u32 \<Rightarrow> u32 \<Rightarrow> u32" where
  "effective_limit configured ceiling = min configured ceiling"

section \<open>Serialising frames\<close>

definition serialize_request_into :: "request \<Rightarrow> bytes \<Rightarrow> bytes" where
  "serialize_request_into r out =
     (let header = default_header
            \<lparr>hdr_opcode := opcode_to_u8 (req_opcode r),
             hdr_request_id := req_request_id r,
             hdr_key_len := of_nat (length (req_key r)),
             hdr_value_len := of_nat (length (req_value r))\<rparr>;
          out = encode_header out header;
          out = append_bytes out (req_key r)
      in append_bytes out (req_value r))"

definition serialize_request :: "request \<Rightarrow> bytes" where
  "serialize_request r = serialize_request_into r []"

definition serialize_response_into :: "response \<Rightarrow> bytes \<Rightarrow> bytes" where
  "serialize_response_into r out =
     (let header = default_header
            \<lparr>hdr_opcode := opcode_to_u8 (resp_opcode r),
             hdr_status := status_to_u8 (resp_status r),
             hdr_request_id := resp_request_id r,
             hdr_key_len := 0,
             hdr_value_len := of_nat (length (resp_value r))\<rparr>;
          out = encode_header out header
      in append_bytes out (resp_value r))"

definition serialize_response :: "response \<Rightarrow> bytes" where
  "serialize_response r = serialize_response_into r []"

section \<open>Parsing frames\<close>

definition deserialize_request :: "bytes \<Rightarrow> limits \<Rightarrow> request \<Rightarrow> parse_result \<times> request" where
  "deserialize_request input lim out =
     (if length input < kHeaderSize then (pr_need_more, out)
      else let (error, header) = decode_common_header input default_header in
      if error \<noteq> ParseError_kNone then (pr_malformed error, out)
      else if hdr_status header \<noteq> 0 then (pr_malformed ParseError_kInvalidStatus, out)
      else let opcode = the (opcode_of_u8 (hdr_opcode header)) in
      if hdr_key_len header > effective_limit (max_key_bytes lim) kMaxKeyBytes
      then (pr_malformed ParseError_kKeyTooLarge, out)
      else if hdr_value_len header > effective_limit (max_value_bytes lim) kMaxValueBytes
      then (pr_malformed ParseError_kValueTooLarge, out)
      else if opcode_requires_key opcode \<and> hdr_key_len header = 0
      then (pr_malformed ParseError_kMissingKey, out)
      else if \<not> opcode_requires_key opcode \<and> hdr_key_len header \<noteq> 0
      then (pr_malformed ParseError_kPayloadNotAllowed, out)
      else if \<not> opcode_allows_value opcode \<and> hdr_value_len header \<noteq> 0
      then (pr_malformed ParseError_kPayloadNotAllowed, out)
      else let frame_size =
             of_nat kHeaderSize + (ucast (hdr_key_len header) :: u64) + ucast (hdr_value_len header) in
      if frame_size > kMaxFrameBytes then (pr_malformed ParseError_kValueTooLarge, out)
      else if length input < unat frame_size then (pr_need_more, out)
      else let payload = drop kHeaderSize input in
        (pr_complete (unat frame_size),
         out\<lparr>req_opcode := opcode,
             req_request_id := hdr_request_id header,
             req_key := take (unat (hdr_key_len header)) payload,
             req_value := take (unat (hdr_value_len header))
                            (drop (unat (hdr_key_len header)) payload)\<rparr>))"

definition deserialize_response :: "bytes \<Rightarrow> limits \<Rightarrow> response \<Rightarrow> parse_result \<times> response" where
  "deserialize_response input lim out =
     (if length input < kHeaderSize then (pr_need_more, out)
      else let (error, header) = decode_common_header input default_header in
      if error \<noteq> ParseError_kNone then (pr_malformed error, out)
      else if \<not> is_valid_status (hdr_status header)
      then (pr_malformed ParseError_kInvalidStatus, out)
      else if hdr_key_len header \<noteq> 0 then (pr_malformed ParseError_kPayloadNotAllowed, out)
      else if hdr_value_len header > effective_limit (max_value_bytes lim) kMaxValueBytes
      then (pr_malformed ParseError_kValueTooLarge, out)
      else let frame_size = of_nat kHeaderSize + (ucast (hdr_value_len header) :: u64) in
      if length input < unat frame_size then (pr_need_more, out)
      else (pr_complete (unat frame_size),
            out\<lparr>resp_opcode := the (opcode_of_u8 (hdr_opcode header)),
                resp_status := the (status_of_u8 (hdr_status header)),
                resp_request_id := hdr_request_id header,
                resp_value := take (unat (hdr_value_len header)) (drop kHeaderSize input)\<rparr>))"

section \<open>The STATS payload\<close>

definition kStatsFields ::
  "((stats_snapshot \<Rightarrow> u64) \<times> (u64 \<Rightarrow> stats_snapshot \<Rightarrow> stats_snapshot)) list" where
  "kStatsFields =
     [(cache_hits, \<lambda>v. cache_hits_update (\<lambda>_. v)),
      (cache_misses, \<lambda>v. cache_misses_update (\<lambda>_. v)),
      (puts, \<lambda>v. puts_update (\<lambda>_. v)),
      (deletes, \<lambda>v. deletes_update (\<lambda>_. v)),
      (evictions, \<lambda>v. evictions_update (\<lambda>_. v)),
      (current_entries, \<lambda>v. current_entries_update (\<lambda>_. v)),
      (current_cache_bytes, \<lambda>v. current_cache_bytes_update (\<lambda>_. v)),
      (current_payload_bytes, \<lambda>v. current_payload_bytes_update (\<lambda>_. v)),
      (active_connections, \<lambda>v. active_connections_update (\<lambda>_. v)),
      (total_connections, \<lambda>v. total_connections_update (\<lambda>_. v)),
      (requests_processed, \<lambda>v. requests_processed_update (\<lambda>_. v)),
      (protocol_errors, \<lambda>v. protocol_errors_update (\<lambda>_. v)),
      (rejected_requests, \<lambda>v. rejected_requests_update (\<lambda>_. v)),
      (uptime_ms, \<lambda>v. uptime_ms_update (\<lambda>_. v))]"

definition serialize_stats :: "stats_snapshot \<Rightarrow> bytes" where
  "serialize_stats stats =
     fold (\<lambda>field out. append_u64 out (fst field stats)) kStatsFields
       (append_u16 [] (of_nat (length kStatsFields)))"

definition deserialize_stats :: "bytes \<Rightarrow> stats_snapshot \<Rightarrow> bool \<times> stats_snapshot" where
  "deserialize_stats input out =
     (if length input < 2 then (False, out)
      else let count = read_u16 input in
      if length input < 2 + unat count * 8 then (False, out)
      else let readable = min (unat count) (length kStatsFields) in
        (True, fold (\<lambda>i out. snd (kStatsFields ! i) (read_u64 (drop (2 + i * 8) input)) out)
                 [0..<readable] out))"

section \<open>Integers: the two directions of the codec\<close>

text \<open>The bytes an integer is encoded as, most significant first.\<close>

definition u16_bytes :: "u16 \<Rightarrow> bytes" where
  "u16_bytes v = [ucast (drop_bit 8 v), ucast v]"

definition u32_bytes :: "u32 \<Rightarrow> bytes" where
  "u32_bytes v = [ucast (drop_bit 24 v), ucast (drop_bit 16 v), ucast (drop_bit 8 v), ucast v]"

definition u64_bytes :: "u64 \<Rightarrow> bytes" where
  "u64_bytes v =
     [ucast (drop_bit 56 v), ucast (drop_bit 48 v), ucast (drop_bit 40 v), ucast (drop_bit 32 v),
      ucast (drop_bit 24 v), ucast (drop_bit 16 v), ucast (drop_bit 8 v), ucast v]"

lemma append_u_eq:
  "append_u16 out w = out @ u16_bytes w"
  "append_u32 out x = out @ u32_bytes x"
  "append_u64 out y = out @ u64_bytes y"
  by (simp_all add: append_u16_def append_u32_def append_u64_def
      u16_bytes_def u32_bytes_def u64_bytes_def)

lemma length_u_bytes [simp]:
  "length (u16_bytes w) = 2" "length (u32_bytes x) = 4" "length (u64_bytes y) = 8"
  by (simp_all add: u16_bytes_def u32_bytes_def u64_bytes_def)

lemma upt8: "[0..<8] = [0, 1, 2, 3, 4, 5, 6, 7 :: nat]"
  by (simp add: upt_rec)

lemma byte_join:
  "push_bit 8 (drop_bit (s + 8) v) OR ucast (ucast (drop_bit s v) :: u8)
     = drop_bit s (v :: 'a::len word)"
proof (rule bit_eqI)
  fix n
  show "bit (push_bit 8 (drop_bit (s + 8) v) OR ucast (ucast (drop_bit s v) :: u8)) n
      = bit (drop_bit s v) n"
  proof (cases "n < 8")
    case True
    then show ?thesis by (auto simp: bit_simps dest: bit_imp_le_length)
  next
    case False
    then have "s + 8 + (n - 8) = s + n" by simp
    with False show ?thesis by (auto simp: bit_simps dest: bit_imp_le_length)
  qed
qed

lemmas byte_joins = byte_join [of 48, simplified] byte_join [of 40, simplified]
  byte_join [of 32, simplified] byte_join [of 24, simplified] byte_join [of 16, simplified]
  byte_join [of 8, simplified] byte_join [of 0, simplified]

lemma top_byte:
  "ucast (ucast (drop_bit 56 v) :: u8) = drop_bit 56 (v :: u64)"
  "ucast (ucast (drop_bit 24 w) :: u8) = drop_bit 24 (w :: u32)"
  "ucast (ucast (drop_bit 8 x) :: u8) = drop_bit 8 (x :: u16)"
  by (rule bit_eqI; auto simp: bit_simps dest: bit_imp_le_length)+

lemma u32_nest:
  "((push_bit 24 a OR push_bit 16 b) OR push_bit 8 c) OR d
     = push_bit 8 (push_bit 8 (push_bit 8 a OR b) OR c) OR (d :: u32)"
  by (simp add: push_bit_or)

lemma read_u_bytes [simp]:
  "read_u16 (u16_bytes w @ rest) = w"
  "read_u32 (u32_bytes x @ rest) = x"
  "read_u64 (u64_bytes y @ rest) = y"
  by (simp_all add: u16_bytes_def u32_bytes_def u64_bytes_def read_u16_def read_u32_def
      read_u64_def upt8 u32_nest top_byte byte_joins)

lemma u_bytes_read_Cons:
  "u32_bytes (read_u32 (a # b # c # d # rest)) = [a, b, c, d]"
  "u64_bytes (read_u64 (a # b # c # d # e # f # g # h # rest)) = [a, b, c, d, e, f, g, h]"
  by (auto simp: u32_bytes_def u64_bytes_def read_u32_def read_u64_def upt8 bit_eq_iff bit_simps
      dest: bit_imp_le_length)

lemma u32_bytes_read:
  assumes "4 \<le> length xs"
  shows "u32_bytes (read_u32 xs) = take 4 xs"
proof -
  from assms obtain a b c d ys where "xs = a # b # c # d # ys"
    by (auto simp: Suc_le_length_iff eval_nat_numeral)
  then show ?thesis by (simp add: u_bytes_read_Cons)
qed

lemma u64_bytes_read:
  assumes "8 \<le> length xs"
  shows "u64_bytes (read_u64 xs) = take 8 xs"
proof -
  from assms obtain a b c d e f g h ys where "xs = a # b # c # d # e # f # g # h # ys"
    by (auto simp: Suc_le_length_iff eval_nat_numeral)
  then show ?thesis by (simp add: u_bytes_read_Cons)
qed

lemma read_u_append:
  "1 \<le> length xs \<Longrightarrow> read_u8 (xs @ ys) = read_u8 xs"
  "2 \<le> length xs \<Longrightarrow> read_u16 (xs @ ys) = read_u16 xs"
  "4 \<le> length xs \<Longrightarrow> read_u32 (xs @ ys) = read_u32 xs"
  "8 \<le> length xs \<Longrightarrow> read_u64 (xs @ ys) = read_u64 xs"
  by (auto simp: read_u8_def read_u16_def read_u32_def read_u64_def upt8 nth_append)

section \<open>Headers: decoding inverts encoding and reads 24 bytes only\<close>

lemma encode_header_eq:
  "encode_header out h = out @ u32_bytes kMagic
     @ [hdr_version h, hdr_opcode h, hdr_flags h, hdr_status h]
     @ u64_bytes (hdr_request_id h) @ u32_bytes (hdr_key_len h) @ u32_bytes (hdr_value_len h)"
  by (simp add: encode_header_def append_u8_def append_u_eq)

lemma encode_header_out: "NO_MATCH [] out \<Longrightarrow> encode_header out h = out @ encode_header [] h"
  by (simp add: encode_header_eq)

lemma length_encode_header [simp]: "length (encode_header out h) = length out + kHeaderSize"
  by (simp add: encode_header_eq kHeaderSize_def)

definition header_acceptable :: "header \<Rightarrow> bool" where
  "header_acceptable h \<longleftrightarrow>
     hdr_version h = kVersion \<and> is_valid_opcode (hdr_opcode h) \<and> hdr_flags h = 0"

lemma decode_encode_header:
  assumes "header_acceptable h"
  shows "decode_common_header (encode_header [] h @ rest) h0 = (ParseError_kNone, h)"
proof -
  let ?d = "encode_header [] h @ rest"
  have m: "read_u32 ?d = kMagic" by (simp add: encode_header_eq)
  have b: "read_u8 (drop 4 ?d) = hdr_version h" "read_u8 (drop 5 ?d) = hdr_opcode h"
    "read_u8 (drop 6 ?d) = hdr_flags h" "read_u8 (drop 7 ?d) = hdr_status h"
    by (simp_all add: encode_header_eq read_u8_def)
  have w: "read_u64 (drop 8 ?d) = hdr_request_id h" "read_u32 (drop 16 ?d) = hdr_key_len h"
    "read_u32 (drop 20 ?d) = hdr_value_len h"
    by (simp_all add: encode_header_eq)
  show ?thesis
    using assms unfolding decode_common_header_def m b w Let_def header_acceptable_def by simp
qed

lemma decode_common_header_append:
  "kHeaderSize \<le> length xs \<Longrightarrow> decode_common_header (xs @ ys) h = decode_common_header xs h"
  by (simp add: decode_common_header_def read_u_append kHeaderSize_def Let_def)

lemma encode_decode_header:
  assumes "kHeaderSize \<le> length input"
    and "decode_common_header input h0 = (ParseError_kNone, h)"
  shows "header_acceptable h \<and> encode_header [] h = take kHeaderSize input"
proof -
  have len: "24 \<le> length input" using assms(1) by (simp add: kHeaderSize_def)
  from assms(2) have m: "read_u32 input = kMagic"
    and f: "hdr_version h = read_u8 (drop 4 input)" "hdr_opcode h = read_u8 (drop 5 input)"
      "hdr_flags h = read_u8 (drop 6 input)" "hdr_status h = read_u8 (drop 7 input)"
      "hdr_request_id h = read_u64 (drop 8 input)" "hdr_key_len h = read_u32 (drop 16 input)"
      "hdr_value_len h = read_u32 (drop 20 input)"
    and acc: "header_acceptable h"
    by (auto simp: decode_common_header_def header_acceptable_def Let_def split: if_splits)
  have "encode_header [] h = take 4 input
      @ [input ! 4, input ! 5, input ! 6, input ! 7]
      @ take 8 (drop 8 input) @ take 4 (drop 16 input) @ take 4 (drop 20 input)"
    using len unfolding encode_header_eq f m [symmetric]
    by (simp add: u32_bytes_read u64_bytes_read read_u8_def)
  also have "[input ! 4, input ! 5, input ! 6, input ! 7] = take 4 (drop 4 input)"
    using len by (intro nth_equalityI) (auto simp: nth_Cons' numeral_eq_Suc less_Suc_eq)
  also have "take 4 input @ take 4 (drop 4 input) @ take 8 (drop 8 input) @ take 4 (drop 16 input)
      @ take 4 (drop 20 input) = take 24 input"
    using take_add [of 4 4 input] take_add [of 8 8 input] take_add [of 16 4 input]
      take_add [of 20 4 input] by simp
  finally show ?thesis using acc by (simp add: kHeaderSize_def)
qed

section \<open>Frames: normal forms of the parsers\<close>

lemma unat_lt2p_32: "unat (x :: u32) < 2 ^ 32"
  using unsigned_less [of x, where 'a = nat] by simp

lemma unat_frame_size:
  "unat (of_nat kHeaderSize + (ucast (k :: u32) :: u64) + ucast (v :: u32))
     = kHeaderSize + unat k + unat v"
proof -
  have "unat k < 2 ^ 32" "unat v < 2 ^ 32"
    using unat_lt2p_32 by blast+
  then show ?thesis by (simp add: kHeaderSize_def unat_simps)
qed

lemma unat_response_frame_size:
  "unat (of_nat kHeaderSize + (ucast (v :: u32) :: u64)) = kHeaderSize + unat v"
  using unat_frame_size [of 0 v] by simp

lemma unat_effective_limit:
  "unat (effective_limit a b) = min (unat a) (unat b)"
  by (simp add: effective_limit_def min_def word_le_nat_alt)

lemma unat_limit_constants [simp]:
  "unat kMaxKeyBytes = 65536" "unat kMaxValueBytes = 67108864" "unat kMaxFrameBytes = 67174424"
  by (simp_all add: kMaxKeyBytes_def kMaxValueBytes_def kMaxFrameBytes_def kHeaderSize_def)

text \<open>The first check a decoded request header fails, in the order of the code.\<close>

definition request_header_error :: "limits \<Rightarrow> header \<Rightarrow> parse_error" where
  "request_header_error lim h =
     (if hdr_status h \<noteq> 0 then ParseError_kInvalidStatus
      else let opcode = the (opcode_of_u8 (hdr_opcode h)) in
      if hdr_key_len h > effective_limit (max_key_bytes lim) kMaxKeyBytes then ParseError_kKeyTooLarge
      else if hdr_value_len h > effective_limit (max_value_bytes lim) kMaxValueBytes
      then ParseError_kValueTooLarge
      else if opcode_requires_key opcode \<and> hdr_key_len h = 0 then ParseError_kMissingKey
      else if \<not> opcode_requires_key opcode \<and> hdr_key_len h \<noteq> 0 then ParseError_kPayloadNotAllowed
      else if \<not> opcode_allows_value opcode \<and> hdr_value_len h \<noteq> 0 then ParseError_kPayloadNotAllowed
      else ParseError_kNone)"

definition response_header_error :: "limits \<Rightarrow> header \<Rightarrow> parse_error" where
  "response_header_error lim h =
     (if \<not> is_valid_status (hdr_status h) then ParseError_kInvalidStatus
      else if hdr_key_len h \<noteq> 0 then ParseError_kPayloadNotAllowed
      else if hdr_value_len h > effective_limit (max_value_bytes lim) kMaxValueBytes
      then ParseError_kValueTooLarge
      else ParseError_kNone)"

lemma frame_size_bounded:
  assumes "\<not> hdr_key_len h > effective_limit (max_key_bytes lim) kMaxKeyBytes"
    and "\<not> hdr_value_len h > effective_limit (max_value_bytes lim) kMaxValueBytes"
  shows "\<not> of_nat kHeaderSize + (ucast (hdr_key_len h) :: u64) + ucast (hdr_value_len h) > kMaxFrameBytes"
  using assms unfolding word_less_nat_alt unat_frame_size unat_effective_limit
  by (simp add: kHeaderSize_def)

lemma deserialize_request_eq:
  "deserialize_request input lim out =
     (if length input < kHeaderSize then (pr_need_more, out)
      else let (e, h) = decode_common_header input default_header;
               e' = (if e \<noteq> ParseError_kNone then e else request_header_error lim h);
               n = kHeaderSize + unat (hdr_key_len h) + unat (hdr_value_len h) in
      if e' \<noteq> ParseError_kNone then (pr_malformed e', out)
      else if length input < n then (pr_need_more, out)
      else (pr_complete n,
            \<lparr>req_opcode = the (opcode_of_u8 (hdr_opcode h)),
             req_request_id = hdr_request_id h,
             req_key = take (unat (hdr_key_len h)) (drop kHeaderSize input),
             req_value = take (unat (hdr_value_len h))
               (drop (unat (hdr_key_len h)) (drop kHeaderSize input))\<rparr>))"
proof (cases "decode_common_header input default_header")
  case (Pair e h)
  define fs where
    "fs = of_nat kHeaderSize + (ucast (hdr_key_len h) :: u64) + ucast (hdr_value_len h)"
  have u: "unat fs = kHeaderSize + unat (hdr_key_len h) + unat (hdr_value_len h)"
    by (simp add: fs_def unat_frame_size)
  show ?thesis
    using frame_size_bounded [of lim h, folded fs_def]
    unfolding deserialize_request_def request_header_error_def Pair Let_def prod.case
      fs_def [symmetric] u by simp
qed

lemma deserialize_response_eq:
  "deserialize_response input lim out =
     (if length input < kHeaderSize then (pr_need_more, out)
      else let (e, h) = decode_common_header input default_header;
               e' = (if e \<noteq> ParseError_kNone then e else response_header_error lim h);
               n = kHeaderSize + unat (hdr_value_len h) in
      if e' \<noteq> ParseError_kNone then (pr_malformed e', out)
      else if length input < n then (pr_need_more, out)
      else (pr_complete n,
            \<lparr>resp_opcode = the (opcode_of_u8 (hdr_opcode h)),
             resp_status = the (status_of_u8 (hdr_status h)),
             resp_request_id = hdr_request_id h,
             resp_value = take (unat (hdr_value_len h)) (drop kHeaderSize input)\<rparr>))"
proof (cases "decode_common_header input default_header")
  case (Pair e h)
  show ?thesis
    unfolding deserialize_response_def response_header_error_def Pair Let_def prod.case
      unat_response_frame_size by simp
qed

section \<open>Frames: round trip, prefixes, soundness, stability\<close>

text \<open>The requests and responses that a peer with the given limits accepts.\<close>

definition request_ok :: "limits \<Rightarrow> request \<Rightarrow> bool" where
  "request_ok lim r \<longleftrightarrow>
     length (req_key r) \<le> unat (effective_limit (max_key_bytes lim) kMaxKeyBytes)
   \<and> length (req_value r) \<le> unat (effective_limit (max_value_bytes lim) kMaxValueBytes)
   \<and> (opcode_requires_key (req_opcode r) \<longleftrightarrow> req_key r \<noteq> [])
   \<and> (req_value r \<noteq> [] \<longrightarrow> opcode_allows_value (req_opcode r))"

definition response_ok :: "limits \<Rightarrow> response \<Rightarrow> bool" where
  "response_ok lim r \<longleftrightarrow>
     length (resp_value r) \<le> unat (effective_limit (max_value_bytes lim) kMaxValueBytes)"

definition request_header :: "request \<Rightarrow> header" where
  "request_header r = default_header
     \<lparr>hdr_opcode := opcode_to_u8 (req_opcode r), hdr_request_id := req_request_id r,
      hdr_key_len := of_nat (length (req_key r)), hdr_value_len := of_nat (length (req_value r))\<rparr>"

definition response_header :: "response \<Rightarrow> header" where
  "response_header r = default_header
     \<lparr>hdr_opcode := opcode_to_u8 (resp_opcode r), hdr_status := status_to_u8 (resp_status r),
      hdr_request_id := resp_request_id r, hdr_key_len := 0,
      hdr_value_len := of_nat (length (resp_value r))\<rparr>"

lemma serialize_request_into_eq:
  "serialize_request_into r out = out @ serialize_request r"
  by (simp add: serialize_request_def serialize_request_into_def append_bytes_def encode_header_eq Let_def)

lemma serialize_response_into_eq:
  "serialize_response_into r out = out @ serialize_response r"
  by (simp add: serialize_response_def serialize_response_into_def append_bytes_def encode_header_eq Let_def)

lemma serialize_request_eq:
  "serialize_request r = encode_header [] (request_header r) @ req_key r @ req_value r"
  by (simp add: serialize_request_def serialize_request_into_def append_bytes_def request_header_def Let_def)

lemma serialize_response_eq:
  "serialize_response r = encode_header [] (response_header r) @ resp_value r"
  by (simp add: serialize_response_def serialize_response_into_def append_bytes_def response_header_def Let_def)

lemma length_serialize_request [simp]:
  "length (serialize_request r) = kHeaderSize + length (req_key r) + length (req_value r)"
  by (simp add: serialize_request_eq)

lemma length_serialize_response [simp]:
  "length (serialize_response r) = kHeaderSize + length (resp_value r)"
  by (simp add: serialize_response_eq)

lemma header_acceptable_frames [simp]:
  "header_acceptable (request_header r)" "header_acceptable (response_header p)"
  by (auto simp: header_acceptable_def request_header_def response_header_def default_header_def
      is_valid_opcode_iff)

lemma unat_of_nat_u32: "n \<le> unat (x :: u32) \<Longrightarrow> unat (of_nat n :: u32) = n"
  using unat_lt2p_32 [of x] by (simp add: unat_of_nat take_bit_nat_eq_self)

lemma request_header_fields:
  assumes "request_ok lim r"
  shows "unat (hdr_key_len (request_header r)) = length (req_key r)"
    "unat (hdr_value_len (request_header r)) = length (req_value r)"
    "hdr_opcode (request_header r) = opcode_to_u8 (req_opcode r)"
    "hdr_request_id (request_header r) = req_request_id r"
    "request_header_error lim (request_header r) = ParseError_kNone"
proof -
  show k: "unat (hdr_key_len (request_header r)) = length (req_key r)"
    and v: "unat (hdr_value_len (request_header r)) = length (req_value r)"
    using assms by (auto simp: request_ok_def request_header_def intro: unat_of_nat_u32)
  show o: "hdr_opcode (request_header r) = opcode_to_u8 (req_opcode r)"
    and "hdr_request_id (request_header r) = req_request_id r"
    by (simp_all add: request_header_def)
  have s: "hdr_status (request_header r) = 0"
    by (simp add: request_header_def default_header_def)
  show "request_header_error lim (request_header r) = ParseError_kNone"
    using assms
    by (auto simp: request_header_error_def s o word_less_nat_alt k v request_ok_def unat_eq_0 [symmetric]
        simp del: unat_eq_0 unsigned_eq_0_iff)
qed

lemma response_header_fields:
  assumes "response_ok lim r"
  shows "unat (hdr_value_len (response_header r)) = length (resp_value r)"
    "hdr_opcode (response_header r) = opcode_to_u8 (resp_opcode r)"
    "hdr_status (response_header r) = status_to_u8 (resp_status r)"
    "hdr_request_id (response_header r) = resp_request_id r"
    "response_header_error lim (response_header r) = ParseError_kNone"
proof -
  show v: "unat (hdr_value_len (response_header r)) = length (resp_value r)"
    using assms by (auto simp: response_ok_def response_header_def intro: unat_of_nat_u32)
  show "hdr_opcode (response_header r) = opcode_to_u8 (resp_opcode r)"
    and s: "hdr_status (response_header r) = status_to_u8 (resp_status r)"
    and "hdr_request_id (response_header r) = resp_request_id r"
    by (simp_all add: response_header_def)
  have "hdr_key_len (response_header r) = 0" by (simp add: response_header_def)
  then show "response_header_error lim (response_header r) = ParseError_kNone"
    using assms
    by (auto simp: response_header_error_def s word_less_nat_alt v response_ok_def is_valid_status_iff)
qed

lemma deserialize_serialize_request:
  assumes "request_ok lim r"
  shows "deserialize_request (serialize_request r @ rest) lim out
     = (pr_complete (length (serialize_request r)), r)"
proof -
  have "decode_common_header (serialize_request r @ rest) default_header
      = (ParseError_kNone, request_header r)"
    by (simp add: serialize_request_eq decode_encode_header)
  then show ?thesis
    using request_header_fields [OF assms]
    by (simp add: deserialize_request_eq, simp add: serialize_request_eq)
qed

lemma deserialize_serialize_response:
  assumes "response_ok lim r"
  shows "deserialize_response (serialize_response r @ rest) lim out
     = (pr_complete (length (serialize_response r)), r)"
proof -
  have "decode_common_header (serialize_response r @ rest) default_header
      = (ParseError_kNone, response_header r)"
    by (simp add: serialize_response_eq decode_encode_header)
  then show ?thesis
    using response_header_fields [OF assms]
    by (simp add: deserialize_response_eq, simp add: serialize_response_eq)
qed
lemma serialize_request_nonempty [simp]: "serialize_request r \<noteq> []"
  using length_serialize_request [of r] by (auto simp: kHeaderSize_def simp del: length_serialize_request)

lemma deserialize_request_prefix:
  assumes "request_ok lim r" "n < length (serialize_request r)"
  shows "deserialize_request (take n (serialize_request r)) lim out = (pr_need_more, out)"
proof (cases "n < kHeaderSize")
  case True
  with assms(2) show ?thesis by (simp add: deserialize_request_eq)
next
  case False
  then have "take n (serialize_request r)
      = encode_header [] (request_header r) @ take (n - kHeaderSize) (req_key r @ req_value r)"
    by (simp add: serialize_request_eq)
  then have "decode_common_header (take n (serialize_request r)) default_header
      = (ParseError_kNone, request_header r)"
    by (simp add: decode_encode_header)
  with False assms(2) request_header_fields [OF assms(1)] show ?thesis
    by (simp add: deserialize_request_eq)
qed

lemma deserialize_response_prefix:
  assumes "response_ok lim r" "n < length (serialize_response r)"
  shows "deserialize_response (take n (serialize_response r)) lim out = (pr_need_more, out)"
proof (cases "n < kHeaderSize")
  case True
  with assms(2) show ?thesis by (simp add: deserialize_response_eq)
next
  case False
  then have "take n (serialize_response r)
      = encode_header [] (response_header r) @ take (n - kHeaderSize) (resp_value r)"
    by (simp add: serialize_response_eq)
  then have "decode_common_header (take n (serialize_response r)) default_header
      = (ParseError_kNone, response_header r)"
    by (simp add: decode_encode_header)
  with False assms(2) response_header_fields [OF assms(1)] show ?thesis
    by (simp add: deserialize_response_eq)
qed

lemma deserialize_request_append:
  "pr_status (fst (deserialize_request input lim out)) \<noteq> ParseStatus_kNeedMoreData \<Longrightarrow>
     deserialize_request (input @ ext) lim out = deserialize_request input lim out"
  by (auto simp: deserialize_request_eq decode_common_header_append Let_def split: prod.splits if_splits)

lemma deserialize_response_append:
  "pr_status (fst (deserialize_response input lim out)) \<noteq> ParseStatus_kNeedMoreData \<Longrightarrow>
     deserialize_response (input @ ext) lim out = deserialize_response input lim out"
  by (auto simp: deserialize_response_eq decode_common_header_append Let_def split: prod.splits if_splits)

lemma of_nat_unat_length:
  "unat (w :: u32) \<le> length xs \<Longrightarrow> of_nat (length (take (unat w) xs)) = w"
  by (simp add: min_absorb2)

lemma request_header_error_NoneD:
  assumes "request_header_error lim h = ParseError_kNone"
  shows "hdr_status h = 0"
    "unat (hdr_key_len h) \<le> unat (effective_limit (max_key_bytes lim) kMaxKeyBytes)"
    "unat (hdr_value_len h) \<le> unat (effective_limit (max_value_bytes lim) kMaxValueBytes)"
    "opcode_requires_key (the (opcode_of_u8 (hdr_opcode h))) \<longleftrightarrow> hdr_key_len h \<noteq> 0"
    "hdr_value_len h \<noteq> 0 \<Longrightarrow> opcode_allows_value (the (opcode_of_u8 (hdr_opcode h)))"
  using assms
  by (auto simp: request_header_error_def Let_def word_less_nat_alt not_less split: if_splits)

lemma response_header_error_NoneD:
  assumes "response_header_error lim h = ParseError_kNone"
  shows "is_valid_status (hdr_status h)" "hdr_key_len h = 0"
    "unat (hdr_value_len h) \<le> unat (effective_limit (max_value_bytes lim) kMaxValueBytes)"
  using assms by (auto simp: response_header_error_def word_less_nat_alt not_less split: if_splits)

lemma deserialize_request_sound:
  assumes "deserialize_request input lim out = (pr_complete n, r)"
  shows "request_ok lim r \<and> n \<le> length input \<and> take n input = serialize_request r"
proof -
  obtain e h where d: "decode_common_header input default_header = (e, h)"
    by (cases "decode_common_header input default_header")
  let ?k = "unat (hdr_key_len h)" and ?v = "unat (hdr_value_len h)"
  from assms d have len: "kHeaderSize \<le> length input" and e: "e = ParseError_kNone"
    and ok: "request_header_error lim h = ParseError_kNone"
    and n: "n = kHeaderSize + ?k + ?v" and le: "n \<le> length input"
    and r: "r = \<lparr>req_opcode = the (opcode_of_u8 (hdr_opcode h)), req_request_id = hdr_request_id h,
      req_key = take ?k (drop kHeaderSize input),
      req_value = take ?v (drop ?k (drop kHeaderSize input))\<rparr>"
    by (auto simp: deserialize_request_eq Let_def split: if_splits)
  note f = request_header_error_NoneD [OF ok]
  from encode_decode_header [OF len] d e have acc: "header_acceptable h"
    and enc: "encode_header [] h = take kHeaderSize input" by auto
  from acc obtain op where op: "hdr_opcode h = opcode_to_u8 op"
    by (auto simp: header_acceptable_def is_valid_opcode_iff)
  have k0: "hdr_key_len h = 0 \<longleftrightarrow> req_key r = []" and v0: "hdr_value_len h = 0 \<longleftrightarrow> req_value r = []"
    using le n by (auto simp: r unat_eq_0 [symmetric] simp del: unsigned_eq_0_iff)
  have rok: "request_ok lim r"
    using f le n k0 v0 by (auto simp: request_ok_def r)
  have "request_header r = h"
    using acc f(1) op le n
    by (auto simp: request_header_def default_header_def header_acceptable_def r min_absorb2)
  then have "serialize_request r = take kHeaderSize input @ req_key r @ req_value r"
    by (simp add: serialize_request_eq enc)
  also have "\<dots> = take n input"
    using take_add [of kHeaderSize ?k input] take_add [of "kHeaderSize + ?k" ?v input]
    by (simp add: r n ac_simps)
  finally show ?thesis using rok le by simp
qed

lemma deserialize_response_sound:
  assumes "deserialize_response input lim out = (pr_complete n, r)"
  shows "response_ok lim r \<and> n \<le> length input \<and> take n input = serialize_response r"
proof -
  obtain e h where d: "decode_common_header input default_header = (e, h)"
    by (cases "decode_common_header input default_header")
  let ?v = "unat (hdr_value_len h)"
  from assms d have len: "kHeaderSize \<le> length input" and e: "e = ParseError_kNone"
    and ok: "response_header_error lim h = ParseError_kNone"
    and n: "n = kHeaderSize + ?v" and le: "n \<le> length input"
    and r: "r = \<lparr>resp_opcode = the (opcode_of_u8 (hdr_opcode h)),
      resp_status = the (status_of_u8 (hdr_status h)), resp_request_id = hdr_request_id h,
      resp_value = take ?v (drop kHeaderSize input)\<rparr>"
    by (auto simp: deserialize_response_eq Let_def split: if_splits)
  note f = response_header_error_NoneD [OF ok]
  from encode_decode_header [OF len] d e have acc: "header_acceptable h"
    and enc: "encode_header [] h = take kHeaderSize input" by auto
  from acc obtain op where op: "hdr_opcode h = opcode_to_u8 op"
    by (auto simp: header_acceptable_def is_valid_opcode_iff)
  from f(1) obtain st where st: "hdr_status h = status_to_u8 st"
    by (auto simp: is_valid_status_iff)
  have rok: "response_ok lim r" using f le n by (auto simp: response_ok_def r)
  have "response_header r = h"
    using acc f(2) op st le n
    by (auto simp: response_header_def default_header_def header_acceptable_def r min_absorb2)
  then have "serialize_response r = take kHeaderSize input @ resp_value r"
    by (simp add: serialize_response_eq enc)
  also have "\<dots> = take n input"
    using take_add [of kHeaderSize ?v input] by (simp add: r n)
  finally show ?thesis using rok le by simp
qed

text \<open>The three outcomes of a parser, and what a request for more data bounds.\<close>

lemma deserialize_request_outcome:
  "fst (deserialize_request input lim out) \<in> {pr_need_more} \<union> range pr_complete \<union> range pr_malformed"
  by (auto simp: deserialize_request_eq Let_def split: prod.splits)

lemma deserialize_response_outcome:
  "fst (deserialize_response input lim out) \<in> {pr_need_more} \<union> range pr_complete \<union> range pr_malformed"
  by (auto simp: deserialize_response_eq Let_def split: prod.splits)

lemma deserialize_request_out:
  "pr_status (fst (deserialize_request input lim out)) \<noteq> ParseStatus_kComplete \<Longrightarrow>
     snd (deserialize_request input lim out) = out"
  by (auto simp: deserialize_request_eq Let_def split: prod.splits)

lemma deserialize_request_need_more_bound:
  assumes "fst (deserialize_request input lim out) = pr_need_more"
  shows "length input < kHeaderSize + unat (effective_limit (max_key_bytes lim) kMaxKeyBytes)
    + unat (effective_limit (max_value_bytes lim) kMaxValueBytes)"
proof (cases "length input < kHeaderSize")
  case False
  obtain e h where d: "decode_common_header input default_header = (e, h)"
    by (cases "decode_common_header input default_header")
  with False assms have "request_header_error lim h = ParseError_kNone"
    and "length input < kHeaderSize + unat (hdr_key_len h) + unat (hdr_value_len h)"
    by (auto simp: deserialize_request_eq Let_def split: if_splits)
  with request_header_error_NoneD(2,3) [of lim h] show ?thesis by simp
qed simp

interpretation req_codec: framed_codec serialize_request
  "\<lambda>input. deserialize_request input lim default_request" "request_ok lim" for lim
proof
  show "deserialize_request (serialize_request x @ rest) lim default_request
      = (pr_complete (length (serialize_request x)), x)" if "request_ok lim x" for x rest
    using that by (rule deserialize_serialize_request)
  show "fst (deserialize_request (take n (serialize_request x)) lim default_request) = pr_need_more"
    if "request_ok lim x" "n < length (serialize_request x)" for x n
    using deserialize_request_prefix [OF that] by simp
  show "request_ok lim (snd (deserialize_request input lim default_request))
      \<and> take (pr_consumed (fst (deserialize_request input lim default_request))) input
          = serialize_request (snd (deserialize_request input lim default_request))
      \<and> pr_consumed (fst (deserialize_request input lim default_request)) \<le> length input"
    if "pr_status (fst (deserialize_request input lim default_request)) = ParseStatus_kComplete" for input
    using that deserialize_request_outcome [of input lim default_request]
      deserialize_request_sound [of input lim default_request]
    by (cases "deserialize_request input lim default_request") auto
  show "deserialize_request (input @ ext) lim default_request
      = deserialize_request input lim default_request"
    if "pr_status (fst (deserialize_request input lim default_request)) \<noteq> ParseStatus_kNeedMoreData"
    for input ext
    using that by (rule deserialize_request_append)
  show "serialize_request x \<noteq> []" for x
    by (simp add: serialize_request_eq encode_header_eq)
qed

interpretation resp_codec: framed_codec serialize_response
  "\<lambda>input. deserialize_response input lim default_response" "response_ok lim" for lim
proof
  show "deserialize_response (serialize_response x @ rest) lim default_response
      = (pr_complete (length (serialize_response x)), x)" if "response_ok lim x" for x rest
    using that by (rule deserialize_serialize_response)
  show "fst (deserialize_response (take n (serialize_response x)) lim default_response) = pr_need_more"
    if "response_ok lim x" "n < length (serialize_response x)" for x n
    using deserialize_response_prefix [OF that] by simp
  show "response_ok lim (snd (deserialize_response input lim default_response))
      \<and> take (pr_consumed (fst (deserialize_response input lim default_response))) input
          = serialize_response (snd (deserialize_response input lim default_response))
      \<and> pr_consumed (fst (deserialize_response input lim default_response)) \<le> length input"
    if "pr_status (fst (deserialize_response input lim default_response)) = ParseStatus_kComplete" for input
    using that deserialize_response_outcome [of input lim default_response]
      deserialize_response_sound [of input lim default_response]
    by (cases "deserialize_response input lim default_response") auto
  show "deserialize_response (input @ ext) lim default_response
      = deserialize_response input lim default_response"
    if "pr_status (fst (deserialize_response input lim default_response)) \<noteq> ParseStatus_kNeedMoreData"
    for input ext
    using that by (rule deserialize_response_append)
  show "serialize_response x \<noteq> []" for x
    by (simp add: serialize_response_eq encode_header_eq)
qed

section \<open>STATS payload: round trip and tolerance\<close>

lemma length_kStatsFields [simp]: "length kStatsFields = 14"
  by (simp add: kStatsFields_def)

lemma fold_append_u64:
  "fold (\<lambda>field out. append_u64 out (fst field stats)) fs out
     = out @ concat (map (\<lambda>field. u64_bytes (fst field stats)) fs)"
  by (induction fs arbitrary: out) (simp_all add: append_u_eq)

lemma serialize_stats_eq:
  "serialize_stats stats = u16_bytes 14 @ concat (map (\<lambda>field. u64_bytes (fst field stats)) kStatsFields)"
  by (simp add: serialize_stats_def fold_append_u64) (simp add: append_u_eq)

lemma length_concat_u64: "length (concat (map u64_bytes vs)) = 8 * length vs"
  by (induction vs) simp_all

lemma read_nth_u64:
  "i < length vs \<Longrightarrow> read_u64 (drop (i * 8) (concat (map u64_bytes vs) @ rest)) = vs ! i"
proof (induction vs arbitrary: i)
  case Nil
  then show ?case by simp
next
  case (Cons v vs)
  then show ?case by (cases i) simp_all
qed

text \<open>A payload in the wire format: a field count and that many 64-bit values.\<close>

definition stats_payload :: "u64 list \<Rightarrow> bytes" where
  "stats_payload vs = u16_bytes (of_nat (length vs)) @ concat (map u64_bytes vs)"

lemma deserialize_stats_payload:
  assumes "length vs < 2 ^ 16"
  shows "deserialize_stats (stats_payload vs @ rest) out =
    (True, fold (\<lambda>i out. snd (kStatsFields ! i) (vs ! i) out) [0..<min (length vs) 14] out)"
proof -
  let ?in = "stats_payload vs @ rest"
  have count: "unat (read_u16 ?in) = length vs"
    using assms by (simp add: stats_payload_def unat_of_nat take_bit_nat_eq_self)
  have len: "length ?in = 2 + length vs * 8 + length rest"
    by (simp add: stats_payload_def length_concat_u64)
  have rd: "read_u64 (drop (2 + i * 8) ?in) = vs ! i" if "i < length vs" for i
    using read_nth_u64 [OF that, of rest] by (simp add: stats_payload_def del: add_2_eq_Suc)
  have "fold (\<lambda>i out. snd (kStatsFields ! i) (read_u64 (drop (2 + i * 8) ?in)) out) [0..<min (length vs) 14] out
      = fold (\<lambda>i out. snd (kStatsFields ! i) (vs ! i) out) [0..<min (length vs) 14] out"
    by (rule fold_cong) (simp_all add: rd del: add_2_eq_Suc drop_append)
  then show ?thesis
    by (simp only: deserialize_stats_def Let_def count len length_kStatsFields) simp
qed

text \<open>The wire values of a snapshot, in the order of the field table.\<close>

definition stats_values :: "stats_snapshot \<Rightarrow> u64 list" where
  "stats_values s = map (\<lambda>field. fst field s) kStatsFields"

lemma length_stats_values [simp]: "length (stats_values s) = 14"
  by (simp add: stats_values_def)

lemma serialize_stats_payload: "serialize_stats s = stats_payload (stats_values s)"
  by (simp add: serialize_stats_eq stats_payload_def stats_values_def comp_def)

lemma upt14: "[0..<14] = [0, 1, 2, 3, 4, 5, 6, 7, 8, 9, 10, 11, 12, 13 :: nat]"
  by (simp add: upt_rec)

lemma store_stats_values:
  "fold (\<lambda>i out. snd (kStatsFields ! i) ((stats_values s @ newer) ! i) out) [0..<14] out = s"
  by (simp add: upt14 kStatsFields_def stats_values_def)

end
