(* ===== verification/CodecProperties.thy ===== *)
theory CodecProperties
  imports Serializer
begin

text \<open>
  The properties of the wire protocol (\<^verbatim>\<open>serializer.cpp\<close>): round trips of requests, responses and
  statistics, canonicity of what the parsers accept, and what a stream reader may rely on, that frames
  may be cut anywhere, that the outcome does not depend on the chunks, and that a bad or oversized frame
  is refused from its header alone.
\<close>

section \<open>Concrete frames\<close>

definition example_put :: request where
  "example_put = \<lparr>req_opcode = Opcode_kPut, req_request_id = 7, req_key = [107], req_value = [1, 2, 3]\<rparr>"

definition example_get :: request where
  "example_get = \<lparr>req_opcode = Opcode_kGet, req_request_id = 8, req_key = [107], req_value = []\<rparr>"

definition example_hit :: response where
  "example_hit = \<lparr>resp_opcode = Opcode_kGet, resp_status = Status_kOk, resp_request_id = 8,
     resp_value = [1, 2, 3]\<rparr>"

lemma example_frames_ok:
  "request_ok default_limits example_put" "request_ok default_limits example_get"
  "response_ok default_limits example_hit"
  by (simp_all add: request_ok_def response_ok_def example_put_def example_get_def example_hit_def
      unat_effective_limit default_limits_def opcode_allows_value_def)

section \<open>Statistics payloads of other lengths\<close>

lemma length_stats_payload [simp]: "length (stats_payload vs) = 2 + 8 * length vs"
  by (simp add: stats_payload_def length_concat_u64)

lemma read_u16_take: "2 \<le> n \<Longrightarrow> 2 \<le> length xs \<Longrightarrow> read_u16 (take n xs) = read_u16 xs"
  by (simp add: read_u16_def)

lemma deserialize_stats_truncated:
  assumes "n < 114"
  shows "deserialize_stats (take n (stats_payload (stats_values s))) out = (False, out)"
proof (cases "n < 2")
  case False
  have "read_u16 (stats_payload (stats_values s)) = 14" by (simp add: stats_payload_def)
  with False assms show ?thesis by (simp add: deserialize_stats_def read_u16_take Let_def min_def)
qed (simp add: deserialize_stats_def)

lemma store_stats_prefix:
  assumes "k \<le> 14"
  shows "stats_values (fold (\<lambda>i out. snd (kStatsFields ! i) (take k (stats_values s) ! i) out) [0..<k] out)
    = take k (stats_values s) @ drop k (stats_values out)"
proof -
  from assms have "k = 0 \<or> k = 1 \<or> k = 2 \<or> k = 3 \<or> k = 4 \<or> k = 5 \<or> k = 6 \<or> k = 7
    \<or> k = 8 \<or> k = 9 \<or> k = 10 \<or> k = 11 \<or> k = 12 \<or> k = 13 \<or> k = 14" by arith
  then show ?thesis by (elim disjE) (simp_all add: upt_rec kStatsFields_def stats_values_def)
qed

section \<open>Properties\<close>

text \<open>
  C15. Requests sent back to back are read back exactly: the parser, run over the concatenated frames and
  an incomplete one, returns every request in order, asks for more data, and leaves the incomplete frame.
\<close>

theorem request_stream_roundtrip:
  assumes "list_all (request_ok lim) rs" "request_ok lim r" "n < length (serialize_request r)"
  shows "drain (\<lambda>input. deserialize_request input lim default_request)
      (concat (map serialize_request rs) @ take n (serialize_request r))
    = (rs, take n (serialize_request r), pr_need_more)"
  using assms by (rule req_codec.drain_partial)

theorem request_stream_roundtrip_witness:
  "drain (\<lambda>input. deserialize_request input default_limits default_request)
      (serialize_request example_put @ serialize_request example_get @ take 25 (serialize_request example_put))
    = ([example_put, example_get], take 25 (serialize_request example_put), pr_need_more)"
  using request_stream_roundtrip [of default_limits "[example_put, example_get]" example_put 25]
  by (simp add: example_frames_ok) (simp add: example_put_def kHeaderSize_def)



text \<open>
  C17. The result of reading a request stream does not depend on how the bytes were cut into chunks: the
  requests and the left-over bytes are those of parsing the whole stream at once.
\<close>

theorem request_chunking_irrelevant:
  assumes "concat chunks = concat chunks'"
  shows "feed (\<lambda>input. deserialize_request input lim default_request) [] chunks
    = feed (\<lambda>input. deserialize_request input lim default_request) [] chunks'"
proof -
  have "fst (drain (\<lambda>input. deserialize_request input lim default_request) []) = []"
    by (subst req_codec.drain_stop) (simp_all add: deserialize_request_eq kHeaderSize_def)
  note f = req_codec.feed_drain [OF _ this]
  obtain xs r ys s where x: "feed (\<lambda>input. deserialize_request input lim default_request) [] chunks = (xs, r)"
    and y: "feed (\<lambda>input. deserialize_request input lim default_request) [] chunks' = (ys, s)" by fastforce
  from f [OF x] f [OF y] assms show ?thesis by (auto simp: x y)
qed

theorem request_chunking_irrelevant_witness:
  "feed (\<lambda>input. deserialize_request input default_limits default_request) []
      [take 3 (serialize_request example_put), drop 3 (serialize_request example_put)]
   = feed (\<lambda>input. deserialize_request input default_limits default_request) []
      [serialize_request example_put]"
  by (rule request_chunking_irrelevant) simp

text \<open>
  C18. A bad frame is refused from its first 24 bytes: whether a request is malformed, and the error
  reported, depends on the header only, so no payload of an oversized or invalid frame is awaited, and a
  parser that waits for more holds less than one frame of the configured limits. Nothing is written to
  the result unless the frame is complete.
\<close>

theorem request_refused_from_header:
  assumes "kHeaderSize \<le> length input"
  shows "(fst (deserialize_request input lim out) = pr_malformed e
      \<longleftrightarrow> fst (deserialize_request (take kHeaderSize input) lim out) = pr_malformed e)
    \<and> (fst (deserialize_request input lim out) = pr_need_more \<longrightarrow>
        length input < kHeaderSize + unat (effective_limit (max_key_bytes lim) kMaxKeyBytes)
          + unat (effective_limit (max_value_bytes lim) kMaxValueBytes))
    \<and> (pr_status (fst (deserialize_request input lim out)) \<noteq> ParseStatus_kComplete \<longrightarrow>
        snd (deserialize_request input lim out) = out)"
proof -
  have "decode_common_header (take kHeaderSize input) default_header
      = decode_common_header input default_header"
    using assms decode_common_header_append [of "take kHeaderSize input" "drop kHeaderSize input"]
    by simp
  then have "fst (deserialize_request input lim out) = pr_malformed e
      \<longleftrightarrow> fst (deserialize_request (take kHeaderSize input) lim out) = pr_malformed e"
    using assms by (auto simp: deserialize_request_eq Let_def split: prod.splits)
  then show ?thesis
    using deserialize_request_need_more_bound deserialize_request_out by blast
qed

definition example_oversized :: bytes where
  "example_oversized = encode_header [] (default_header \<lparr>hdr_opcode := 2, hdr_key_len := 70000\<rparr>)"

theorem request_refused_from_header_witness:
  "fst (deserialize_request example_oversized default_limits default_request)
     = pr_malformed ParseError_kKeyTooLarge
   \<and> fst (deserialize_request (example_oversized @ [1, 2]) default_limits default_request)
     = pr_malformed ParseError_kKeyTooLarge"
proof -
  have e: "fst (deserialize_request example_oversized default_limits default_request)
     = pr_malformed ParseError_kKeyTooLarge" by code_simp
  have l: "length example_oversized = kHeaderSize" by code_simp
  show ?thesis
    using request_refused_from_header [of "example_oversized @ [1, 2]" default_limits default_request
        ParseError_kKeyTooLarge] e l by simp
qed

text \<open>
  C22. Responses round trip: a response within the value limit is read back from its frame, whatever
  follows, from no proper prefix of it, and the response parser accepts nothing but such frames.
\<close>

theorem response_roundtrip:
  assumes "response_ok lim r"
  shows "deserialize_response (serialize_response r @ rest) lim out
      = (pr_complete (length (serialize_response r)), r)
    \<and> (\<forall>n < length (serialize_response r).
         deserialize_response (take n (serialize_response r)) lim out = (pr_need_more, out))
    \<and> (\<forall>input n r'. deserialize_response input lim out = (pr_complete n, r') \<longrightarrow>
         response_ok lim r' \<and> take n input = serialize_response r')"
  using deserialize_serialize_response [OF assms] deserialize_response_prefix [OF assms]
    deserialize_response_sound by blast

theorem response_roundtrip_witness:
  "deserialize_response (serialize_response example_hit @ [9]) default_limits default_response
      = (pr_complete 27, example_hit)
   \<and> deserialize_response (take 26 (serialize_response example_hit)) default_limits default_response
      = (pr_need_more, default_response)"
  using response_roundtrip [OF example_frames_ok(3), of "[9]" default_response]
  by (simp add: kHeaderSize_def) (simp add: example_hit_def)

text \<open>
  C23. Statistics round trip across versions: a payload of this server, also with fields of a newer
  version appended, is read back as the same fourteen counters; a payload of an older version fills the
  fields it has; a payload shorter than its field count announces is refused and changes nothing.
\<close>

theorem stats_roundtrip:
  assumes "length newer < 60000" "k \<le> 14" "n < length (serialize_stats s)"
  shows "deserialize_stats (serialize_stats s) out = (True, s)
    \<and> deserialize_stats (stats_payload (stats_values s @ newer)) out = (True, s)
    \<and> (\<exists>t. deserialize_stats (stats_payload (take k (stats_values s))) out = (True, t)
      \<and> stats_values t = take k (stats_values s) @ drop k (stats_values out))
    \<and> deserialize_stats (take n (serialize_stats s)) out = (False, out)"
proof (intro conjI)
  show "deserialize_stats (stats_payload (stats_values s @ newer)) out = (True, s)"
    using deserialize_stats_payload [of "stats_values s @ newer" "[]" out] assms(1)
    by (simp add: store_stats_values)
  show "deserialize_stats (serialize_stats s) out = (True, s)"
    using deserialize_stats_payload [of "stats_values s" "[]" out] store_stats_values [of s "[]" out]
    by (simp add: serialize_stats_payload)
  show "\<exists>t. deserialize_stats (stats_payload (take k (stats_values s))) out = (True, t)
      \<and> stats_values t = take k (stats_values s) @ drop k (stats_values out)"
    using deserialize_stats_payload [of "take k (stats_values s)" "[]" out] assms(2)
      store_stats_prefix [OF assms(2), of s out] by simp
  show "deserialize_stats (take n (serialize_stats s)) out = (False, out)"
    using assms(3) by (simp add: serialize_stats_payload deserialize_stats_truncated)
qed

theorem stats_roundtrip_witness:
  "deserialize_stats (stats_payload (stats_values (empty_snapshot \<lparr>cache_hits := 3\<rparr>) @ [5, 6])) empty_snapshot
     = (True, empty_snapshot \<lparr>cache_hits := 3\<rparr>)
   \<and> deserialize_stats (take 113 (serialize_stats empty_snapshot)) empty_snapshot = (False, empty_snapshot)"
  using stats_roundtrip [of "[5, 6]" 14 113 "empty_snapshot \<lparr>cache_hits := 3\<rparr>" empty_snapshot]
    stats_roundtrip [of "[5, 6]" 14 113 "empty_snapshot" empty_snapshot]
  by (simp add: serialize_stats_payload length_stats_payload)

end
