(* ===== verification/LruCache.thy ===== *)
theory LruCache
  imports Prelude
begin

text \<open>
  The cache of \<^verbatim>\<open>include/cache/lru_cache.h\<close> and \<^verbatim>\<open>src/lru_cache.cpp\<close>: a list of entries in recency
  order and an index from keys to list nodes.

  The list is a list of nodes, each with an address; an iterator into the list is the address of its
  node. The index is a list of pairs: the node whose key string the \<^verbatim>\<open>string_view\<close> key points
  into, and the stored iterator. Reading a view or an iterator whose node has been erased is undefined
  in the code; here it is the value \<open>None\<close>, and every operation that reads one is partial. Fresh nodes
  get fresh addresses from \<open>lru_next_node\<close>. Every public operation holds the one mutex from start to
  end, so it is one atomic state transformer.
\<close>

section \<open>Data\<close>

record cache_limits =
  lim_max_entries :: u64
  lim_max_bytes :: u64
  lim_max_value_bytes :: u64

definition default_cache_limits :: cache_limits where
  "default_cache_limits = \<lparr>lim_max_entries = 100000, lim_max_bytes = 256 * 1024 * 1024,
     lim_max_value_bytes = 1 * 1024 * 1024\<rparr>"

datatype put_status = PutStatus_kStored | PutStatus_kValueTooLarge | PutStatus_kEntryTooLarge

record cache_snapshot =
  snap_entries :: u64
  snap_bytes :: u64
  snap_payload_bytes :: u64
  snap_evictions :: u64

record entry =
  e_key :: bytes
  e_value :: bytes

type_synonym node = nat
type_synonym entry_list = "(node \<times> entry) list"
type_synonym index_map = "(node \<times> node) list"

definition kEntryOverheadBytes :: u64 where "kEntryOverheadBytes = 128"

definition entry_cost :: "u64 \<Rightarrow> u64 \<Rightarrow> u64" where
  "entry_cost key_size value_size = key_size + value_size + kEntryOverheadBytes"

record lru_cache =
  lru_limits :: cache_limits
  lru_entries :: entry_list
  lru_index :: index_map
  lru_bytes :: u64
  lru_payload_bytes :: u64
  lru_evictions :: u64
  lru_next_node :: node

definition new_lru_cache :: "cache_limits \<Rightarrow> lru_cache" where
  "new_lru_cache limits = \<lparr>lru_limits = limits, lru_entries = [], lru_index = [], lru_bytes = 0,
     lru_payload_bytes = 0, lru_evictions = 0, lru_next_node = 0\<rparr>"

section \<open>List and index primitives\<close>

text \<open>Dereferencing an iterator, \<^verbatim>\<open>std::list::splice\<close> to the front, \<^verbatim>\<open>std::list::erase\<close>.\<close>

definition deref :: "entry_list \<Rightarrow> node \<Rightarrow> entry option" where
  "deref es n = map_of es n"

definition unlink :: "entry_list \<Rightarrow> node \<Rightarrow> entry_list" where
  "unlink es n = filter (\<lambda>(m, e). m \<noteq> n) es"

definition splice_front :: "entry_list \<Rightarrow> node \<Rightarrow> entry_list option" where
  "splice_front es n = do { e \<leftarrow> deref es n; Some ((n, e) # unlink es n) }"

definition list_erase :: "entry_list \<Rightarrow> node \<Rightarrow> entry_list option" where
  "list_erase es n = do { _ \<leftarrow> deref es n; Some (unlink es n) }"

text \<open>
  \<^verbatim>\<open>index_.find\<close> compares the searched key with the strings the views point to; \<open>Some None\<close> is
  \<^verbatim>\<open>end()\<close>. \<^verbatim>\<open>index_.erase(it)\<close> hashes the erased view, and \<^verbatim>\<open>index_.emplace\<close> inserts only
  if the key is absent.
\<close>

fun index_find :: "entry_list \<Rightarrow> index_map \<Rightarrow> bytes \<Rightarrow> (node \<times> node) option option" where
  "index_find es [] k = Some None"
| "index_find es ((v, n) # idx) k =
     do { e \<leftarrow> deref es v;
          if e_key e = k then Some (Some (v, n)) else index_find es idx k }"

definition index_erase :: "entry_list \<Rightarrow> index_map \<Rightarrow> node \<times> node \<Rightarrow> index_map option" where
  "index_erase es idx it = do { _ \<leftarrow> deref es (fst it); Some (remove1 it idx) }"

definition index_emplace :: "entry_list \<Rightarrow> index_map \<Rightarrow> node \<Rightarrow> node \<Rightarrow> index_map option" where
  "index_emplace es idx v n =
     do { e \<leftarrow> deref es v;
          found \<leftarrow> index_find es idx (e_key e);
          Some (case found of None \<Rightarrow> (v, n) # idx | Some _ \<Rightarrow> idx) }"

section \<open>Operations that require the lock\<close>

definition erase_locked :: "lru_cache \<Rightarrow> node \<times> node \<Rightarrow> lru_cache option" where
  "erase_locked c it =
     do { let node = snd it;
          e \<leftarrow> deref (lru_entries c) node;
          let payload = sz (e_key e) + sz (e_value e);
          let c = c\<lparr>lru_bytes := lru_bytes c - entry_cost (sz (e_key e)) (sz (e_value e))\<rparr>;
          let c = c\<lparr>lru_payload_bytes := lru_payload_bytes c - payload\<rparr>;
          idx \<leftarrow> index_erase (lru_entries c) (lru_index c) it;
          let c = c\<lparr>lru_index := idx\<rparr>;
          es \<leftarrow> list_erase (lru_entries c) node;
          Some (c\<lparr>lru_entries := es\<rparr>) }"

definition evict_lru_locked :: "lru_cache \<Rightarrow> lru_cache option" where
  "evict_lru_locked c =
     (if lru_entries c = [] then None
      else do { let lru = snd (last (lru_entries c));
                found \<leftarrow> index_find (lru_entries c) (lru_index c) (e_key lru);
                it \<leftarrow> found;
                c \<leftarrow> erase_locked c it;
                Some (c\<lparr>lru_evictions := lru_evictions c + 1\<rparr>) })"

lemma erase_locked_shorter:
  "erase_locked c it = Some c' \<Longrightarrow> length (lru_entries c') < length (lru_entries c)"
proof -
  assume "erase_locked c it = Some c'"
  then have "lru_entries c' = unlink (lru_entries c) (snd it)"
    and "deref (lru_entries c) (snd it) \<noteq> None"
    by (auto simp: erase_locked_def Let_def list_erase_def bind_eq_Some_conv)
  then show ?thesis
    by (auto simp: unlink_def deref_def map_of_eq_None_iff intro!: length_filter_less)
qed

lemma evict_lru_locked_shorter:
  "evict_lru_locked c = Some c' \<Longrightarrow> length (lru_entries c') < length (lru_entries c)"
  by (auto simp: evict_lru_locked_def bind_eq_Some_conv dest: erase_locked_shorter split: if_splits)

function make_room_locked :: "lru_cache \<Rightarrow> u64 \<Rightarrow> lru_cache option" where
  "make_room_locked c incoming_cost =
     (if lru_entries c \<noteq> []
         \<and> (sz (lru_index c) + 1 > lim_max_entries (lru_limits c)
            \<or> lru_bytes c + incoming_cost > lim_max_bytes (lru_limits c))
      then case evict_lru_locked c of None \<Rightarrow> None | Some c' \<Rightarrow> make_room_locked c' incoming_cost
      else Some c)"
  by pat_completeness auto
termination
  by (relation "measure (\<lambda>(c, cost). length (lru_entries c))") (auto dest: evict_lru_locked_shorter)

declare make_room_locked.simps [simp del]

section \<open>Public operations\<close>

definition lru_get_into :: "lru_cache \<Rightarrow> bytes \<Rightarrow> bytes \<Rightarrow> (lru_cache \<times> bool \<times> bytes) option" where
  "lru_get_into c key out =
     do { found \<leftarrow> index_find (lru_entries c) (lru_index c) key;
          case found of
            None \<Rightarrow> Some (c, False, out)
          | Some it \<Rightarrow>
              do { es \<leftarrow> splice_front (lru_entries c) (snd it);
                   let c = c\<lparr>lru_entries := es\<rparr>;
                   e \<leftarrow> deref (lru_entries c) (snd it);
                   Some (c, True, e_value e) } }"

definition lru_get :: "lru_cache \<Rightarrow> bytes \<Rightarrow> (lru_cache \<times> bytes option) option" where
  "lru_get c key =
     do { (c, hit, value) \<leftarrow> lru_get_into c key [];
          Some (c, if \<not> hit then None else Some value) }"

definition lru_put :: "lru_cache \<Rightarrow> bytes \<Rightarrow> bytes \<Rightarrow> (lru_cache \<times> put_status) option" where
  "lru_put c key value =
     (if sz value > lim_max_value_bytes (lru_limits c) then Some (c, PutStatus_kValueTooLarge)
      else let cost = entry_cost (sz key) (sz value) in
      if cost > lim_max_bytes (lru_limits c) \<or> lim_max_entries (lru_limits c) = 0
      then Some (c, PutStatus_kEntryTooLarge)
      else
        do { found \<leftarrow> index_find (lru_entries c) (lru_index c) key;
             c \<leftarrow> (case found of None \<Rightarrow> Some c | Some it \<Rightarrow> erase_locked c it);
             c \<leftarrow> make_room_locked c cost;
             let node = lru_next_node c;
             let c = c\<lparr>lru_entries := (node, \<lparr>e_key = key, e_value = value\<rparr>) # lru_entries c,
                       lru_next_node := node + 1\<rparr>;
             idx \<leftarrow> index_emplace (lru_entries c) (lru_index c) node node;
             let c = c\<lparr>lru_index := idx\<rparr>;
             let c = c\<lparr>lru_bytes := lru_bytes c + cost\<rparr>;
             let c = c\<lparr>lru_payload_bytes := lru_payload_bytes c + (sz key + sz value)\<rparr>;
             Some (c, PutStatus_kStored) })"

definition lru_erase :: "lru_cache \<Rightarrow> bytes \<Rightarrow> (lru_cache \<times> bool) option" where
  "lru_erase c key =
     do { found \<leftarrow> index_find (lru_entries c) (lru_index c) key;
          case found of
            None \<Rightarrow> Some (c, False)
          | Some it \<Rightarrow> do { c \<leftarrow> erase_locked c it; Some (c, True) } }"

definition lru_contains :: "lru_cache \<Rightarrow> bytes \<Rightarrow> bool option" where
  "lru_contains c key =
     do { found \<leftarrow> index_find (lru_entries c) (lru_index c) key; Some (found \<noteq> None) }"

definition lru_clear :: "lru_cache \<Rightarrow> lru_cache" where
  "lru_clear c = c\<lparr>lru_index := [], lru_entries := [], lru_bytes := 0, lru_payload_bytes := 0\<rparr>"

definition lru_size :: "lru_cache \<Rightarrow> u64" where
  "lru_size c = sz (lru_index c)"

definition memory_usage :: "lru_cache \<Rightarrow> u64" where
  "memory_usage c = lru_bytes c"

definition lru_snapshot :: "lru_cache \<Rightarrow> cache_snapshot" where
  "lru_snapshot c = \<lparr>snap_entries = sz (lru_index c), snap_bytes = lru_bytes c,
     snap_payload_bytes = lru_payload_bytes c, snap_evictions = lru_evictions c\<rparr>"

definition keys_mru_to_lru :: "lru_cache \<Rightarrow> bytes list" where
  "keys_mru_to_lru c = map (\<lambda>(n, e). e_key e) (lru_entries c)"

end
