(* ===== verification/LruSpec.thy ===== *)
theory LruSpec
  imports LruCache
begin

text \<open>
  What the cache promises. The specification is a list of key-value pairs in recency order with the
  accounting done in unbounded numbers; the invariant ties list, index and the 64-bit counters of the
  implementation together; every operation of \<open>LruCache\<close> is shown to be free of dangling reads, to keep
  the invariant and to refine the specification. On top of that: coherence (a hit returns the last stored
  value), exact recency order, and minimal eviction.
\<close>

section \<open>Abstract specification: a list of key-value pairs, most recently used first\<close>

type_synonym kvs = "(bytes \<times> bytes) list"

definition kv_payload :: "bytes \<times> bytes \<Rightarrow> nat" where
  "kv_payload p = length (fst p) + length (snd p)"

definition kv_cost :: "bytes \<times> bytes \<Rightarrow> nat" where
  "kv_cost p = kv_payload p + 128"

definition total_cost :: "kvs \<Rightarrow> nat" where
  "total_cost xs = sum_list (map kv_cost xs)"

definition total_payload :: "kvs \<Rightarrow> nat" where
  "total_payload xs = sum_list (map kv_payload xs)"

definition del :: "bytes \<Rightarrow> kvs \<Rightarrow> kvs" where
  "del k xs = filter (\<lambda>p. fst p \<noteq> k) xs"

definition has_room :: "cache_limits \<Rightarrow> nat \<Rightarrow> kvs \<Rightarrow> bool" where
  "has_room lim cost xs \<longleftrightarrow>
     length xs + 1 \<le> unat (lim_max_entries lim) \<and> total_cost xs + cost \<le> unat (lim_max_bytes lim)"

function trim :: "cache_limits \<Rightarrow> nat \<Rightarrow> kvs \<Rightarrow> kvs" where
  "trim lim cost xs = (if xs \<noteq> [] \<and> \<not> has_room lim cost xs then trim lim cost (butlast xs) else xs)"
  by pat_completeness auto
termination
  by (relation "measure (\<lambda>(lim, cost, xs). length xs)") auto

declare trim.simps [simp del]

definition spec_get :: "kvs \<Rightarrow> bytes \<Rightarrow> kvs \<times> bytes option" where
  "spec_get xs k =
     (case map_of xs k of None \<Rightarrow> (xs, None) | Some v \<Rightarrow> ((k, v) # del k xs, Some v))"

definition spec_put :: "cache_limits \<Rightarrow> kvs \<Rightarrow> bytes \<Rightarrow> bytes \<Rightarrow> kvs \<times> put_status" where
  "spec_put lim xs k v =
     (if length v > unat (lim_max_value_bytes lim) then (xs, PutStatus_kValueTooLarge)
      else if kv_cost (k, v) > unat (lim_max_bytes lim) \<or> lim_max_entries lim = 0
      then (xs, PutStatus_kEntryTooLarge)
      else ((k, v) # trim lim (kv_cost (k, v)) (del k xs), PutStatus_kStored))"

definition spec_erase :: "kvs \<Rightarrow> bytes \<Rightarrow> kvs \<times> bool" where
  "spec_erase xs k = (del k xs, map_of xs k \<noteq> None)"

section \<open>Abstraction and invariant\<close>

definition kv_of :: "node \<times> entry \<Rightarrow> bytes \<times> bytes" where
  "kv_of p = (e_key (snd p), e_value (snd p))"

definition lru_abs :: "lru_cache \<Rightarrow> kvs" where
  "lru_abs c = map kv_of (lru_entries c)"

definition lru_struct :: "lru_cache \<Rightarrow> bool" where
  "lru_struct c \<longleftrightarrow>
     distinct (map fst (lru_entries c))
   \<and> (\<forall>n \<in> set (map fst (lru_entries c)). n < lru_next_node c)
   \<and> distinct (map fst (lru_abs c))
   \<and> distinct (lru_index c)
   \<and> set (lru_index c) = (\<lambda>n. (n, n)) ` set (map fst (lru_entries c))"

definition lru_accounts :: "lru_cache \<Rightarrow> bool" where
  "lru_accounts c \<longleftrightarrow>
     unat (lru_bytes c) = total_cost (lru_abs c) \<and> unat (lru_payload_bytes c) = total_payload (lru_abs c)"

definition lru_bounded :: "lru_cache \<Rightarrow> bool" where
  "lru_bounded c \<longleftrightarrow>
     total_cost (lru_abs c) \<le> unat (lim_max_bytes (lru_limits c))
   \<and> length (lru_abs c) \<le> unat (lim_max_entries (lru_limits c))
   \<and> unat (lim_max_bytes (lru_limits c)) < 2 ^ 63"

definition lru_inv :: "lru_cache \<Rightarrow> bool" where
  "lru_inv c \<longleftrightarrow> lru_struct c \<and> lru_accounts c \<and> lru_bounded c"

section \<open>Lemmas on the abstract list\<close>

lemma total_cost_simps [simp]:
  "total_cost [] = 0" "total_cost (p # xs) = kv_cost p + total_cost xs"
  "total_cost (xs @ ys) = total_cost xs + total_cost ys"
  by (simp_all add: total_cost_def)

lemma total_payload_simps [simp]:
  "total_payload [] = 0" "total_payload (p # xs) = kv_payload p + total_payload xs"
  "total_payload (xs @ ys) = total_payload xs + total_payload ys"
  by (simp_all add: total_payload_def)

lemma length_128_le_total: "128 * length xs \<le> total_cost xs"
  by (induction xs) (simp_all add: kv_cost_def)

lemma total_payload_le: "total_payload xs \<le> total_cost xs"
  by (induction xs) (simp_all add: kv_cost_def)

lemma del_notin [simp]: "k \<notin> fst ` set xs \<Longrightarrow> del k xs = xs"
  by (auto simp: del_def filter_id_conv)

lemma set_del: "set (del k xs) = {p \<in> set xs. fst p \<noteq> k}"
  by (auto simp: del_def)

lemma distinct_del: "distinct (map fst xs) \<Longrightarrow> distinct (map fst (del k xs))"
  by (simp add: del_def distinct_map_filter)

lemma map_of_del: "map_of (del k xs) k' = (if k' = k then None else map_of xs k')"
  by (induction xs) (auto simp: del_def)

lemma del_middle:
  assumes "distinct (map fst (xs @ (k, v) # ys))"
  shows "del k (xs @ (k, v) # ys) = xs @ ys"
proof -
  from assms have "k \<notin> fst ` set xs" "k \<notin> fst ` set ys" by auto
  then have "del k xs = xs" "del k ys = ys" by simp_all
  then show ?thesis by (simp add: del_def)
qed

lemma total_del:
  assumes "distinct (map fst xs)" "(k, v) \<in> set xs"
  shows "total_cost xs = kv_cost (k, v) + total_cost (del k xs)"
    and "total_payload xs = kv_payload (k, v) + total_payload (del k xs)"
    and "length xs = Suc (length (del k xs))"
proof -
  from assms(2) obtain ys zs where xs: "xs = ys @ (k, v) # zs" by (meson split_list)
  then have "del k xs = ys @ zs" using assms(1) del_middle by simp
  then show "total_cost xs = kv_cost (k, v) + total_cost (del k xs)"
    and "total_payload xs = kv_payload (k, v) + total_payload (del k xs)"
    and "length xs = Suc (length (del k xs))"
    by (simp_all add: xs)
qed

lemma total_cost_del_le: "total_cost (del k xs) \<le> total_cost xs"
  by (induction xs) (auto simp: del_def)

lemma length_del_le: "length (del k xs) \<le> length xs"
  by (simp add: del_def)

lemma del_last:
  assumes "distinct (map fst xs)" "xs \<noteq> []"
  shows "del (fst (last xs)) xs = butlast xs"
proof -
  obtain k v where kv: "last xs = (k, v)" by (cases "last xs")
  have "xs = butlast xs @ (k, v) # []" using assms(2) append_butlast_last_id [of xs] kv by simp
  then show ?thesis
    using assms(1) del_middle [of "butlast xs" k v "[]"] kv by simp
qed

section \<open>Lemmas on nodes, iterators and the index\<close>

lemma unlink_notin [simp]: "n \<notin> fst ` set es \<Longrightarrow> unlink es n = es"
  by (force simp: unlink_def filter_id_conv)

lemma deref_mem: "distinct (map fst es) \<Longrightarrow> deref es n = Some e \<longleftrightarrow> (n, e) \<in> set es"
  by (simp add: deref_def)

lemma lru_structD:
  assumes "lru_struct c"
  shows "distinct (map fst (lru_entries c))" "distinct (map fst (lru_abs c))"
    "distinct (lru_index c)" "set (lru_index c) = (\<lambda>n. (n, n)) ` fst ` set (lru_entries c)"
    "\<And>n. n \<in> fst ` set (lru_entries c) \<Longrightarrow> n < lru_next_node c"
  using assms by (auto simp: lru_struct_def)

lemma length_lru_index:
  assumes "lru_struct c"
  shows "length (lru_index c) = length (lru_abs c)"
proof -
  have "length (lru_index c) = card (set (lru_index c))"
    using lru_structD(3) [OF assms] by (simp add: distinct_card)
  also have "\<dots> = card (fst ` set (lru_entries c))"
    using lru_structD(4) [OF assms] by (simp add: card_image inj_on_def)
  also have "\<dots> = length (lru_entries c)"
    using lru_structD(1) [OF assms] distinct_card by fastforce
  finally show ?thesis by (simp add: lru_abs_def)
qed

lemma abs_mem: "(n, e) \<in> set (lru_entries c) \<Longrightarrow> (e_key e, e_value e) \<in> set (lru_abs c)"
  by (force simp: lru_abs_def kv_of_def)

lemma abs_map_of:
  assumes "lru_struct c" "(n, e) \<in> set (lru_entries c)"
  shows "map_of (lru_abs c) (e_key e) = Some (e_value e)"
  using abs_mem [OF assms(2)] lru_structD(2) [OF assms(1)] by simp

lemma index_find_live:
  "\<forall>v \<in> fst ` set idx. deref es v \<noteq> None \<Longrightarrow>
     index_find es idx k = Some (find (\<lambda>(v, n). \<exists>e. deref es v = Some e \<and> e_key e = k) idx)"
  by (induction idx) auto

lemma index_find_struct:
  assumes "lru_struct c"
  shows "(map_of (lru_abs c) k = None \<and> index_find (lru_entries c) (lru_index c) k = Some None)
    \<or> (\<exists>n e. (n, e) \<in> set (lru_entries c) \<and> e_key e = k
        \<and> map_of (lru_abs c) k = Some (e_value e)
        \<and> index_find (lru_entries c) (lru_index c) k = Some (Some (n, n)))"
proof -
  note s = lru_structD [OF assms]
  let ?P = "\<lambda>(v, n). \<exists>e. deref (lru_entries c) v = Some e \<and> e_key e = k"
  have live: "\<forall>v \<in> fst ` set (lru_index c). deref (lru_entries c) v \<noteq> None"
    using s(4) by (auto simp: deref_def map_of_eq_None_iff image_iff)
  note f = index_find_live [OF live, of k]
  show ?thesis
  proof (cases "find ?P (lru_index c)")
    case None
    then have "\<forall>(n, e) \<in> set (lru_entries c). e_key e \<noteq> k"
      using s(1,4) by (fastforce simp: find_None_iff deref_mem)
    then have "map_of (lru_abs c) k = None"
      by (auto simp: map_of_eq_None_iff lru_abs_def kv_of_def)
    then show ?thesis using f None by simp
  next
    case (Some it)
    then have "it \<in> set (lru_index c)" "?P it" by (auto dest!: find_SomeD)
    with s(1,4) obtain n e where it:  "it = (n, n)" "(n, e) \<in> set (lru_entries c)" "e_key e = k"
      by (auto simp: deref_mem)
    then show ?thesis using f Some abs_map_of [OF assms] by fastforce
  qed
qed

lemma abs_unlink:
  assumes "lru_struct c" "(n, e) \<in> set (lru_entries c)"
  shows "map kv_of (unlink (lru_entries c) n) = del (e_key e) (lru_abs c)"
proof -
  note s = lru_structD [OF assms(1)]
  from assms(2) obtain xs ys where es: "lru_entries c = xs @ (n, e) # ys" by (meson split_list)
  then have "n \<notin> fst ` set xs" "n \<notin> fst ` set ys" using s(1) by auto
  then have "unlink xs n = xs" "unlink ys n = ys" by simp_all
  then have "unlink (lru_entries c) n = xs @ ys" by (simp add: es unlink_def)
  moreover have "del (e_key e) (lru_abs c)
      = map kv_of xs @ map kv_of ys"
    using s(2) del_middle [of "map kv_of xs" "e_key e" "e_value e" "map kv_of ys"]
    by (simp add: lru_abs_def es kv_of_def)
  ultimately show ?thesis by simp
qed

section \<open>Operations under the lock\<close>

lemma unat_entry_cost:
  assumes "kv_cost (k, v) < 2 ^ 64"
  shows "unat (entry_cost (sz k) (sz v)) = kv_cost (k, v)"
    and "unat (sz k + sz v) = kv_payload (k, v)"
    and "unat (sz v) = length v"
proof -
  have l: "length k + length v + 128 < 2 ^ 64"
    using assms by (simp add: kv_cost_def kv_payload_def)
  then have k: "unat (sz k) = length k" and v: "unat (sz v) = length v"
    by (simp_all add: unat_simps)
  from v show "unat (sz v) = length v" .
  from l k v show s: "unat (sz k + sz v) = kv_payload (k, v)"
    by (simp add: unat_simps kv_payload_def)
  have o: "unat kEntryOverheadBytes = 128" by (simp add: kEntryOverheadBytes_def)
  have "unat (sz k + sz v) + unat kEntryOverheadBytes < 2 ^ 64"
    using l s o by (simp add: kv_payload_def)
  then show "unat (entry_cost (sz k) (sz v)) = kv_cost (k, v)"
    using s o unfolding entry_cost_def by (simp add: unat_add_exact kv_cost_def)
qed

lemma lru_accounts_lt: "lru_accounts c \<Longrightarrow> total_cost (lru_abs c) < 2 ^ 64"
  using unsigned_less [of "lru_bytes c", where 'a = nat] by (simp add: lru_accounts_def)

definition erased :: "lru_cache \<Rightarrow> node \<Rightarrow> entry \<Rightarrow> lru_cache" where
  "erased c n e = c\<lparr>lru_bytes := lru_bytes c - entry_cost (sz (e_key e)) (sz (e_value e)),
     lru_payload_bytes := lru_payload_bytes c - (sz (e_key e) + sz (e_value e)),
     lru_index := remove1 (n, n) (lru_index c), lru_entries := unlink (lru_entries c) n\<rparr>"

lemma erase_locked_eq:
  assumes "lru_struct c" "(n, e) \<in> set (lru_entries c)"
  shows "erase_locked c (n, n) = Some (erased c n e)"
proof -
  have "deref (lru_entries c) n = Some e"
    using assms lru_structD(1) by (simp add: deref_mem)
  then show ?thesis
    by (simp add: erase_locked_def erased_def index_erase_def list_erase_def Let_def)
qed

lemma erased_fields [simp]:
  "lru_limits (erased c n e) = lru_limits c" "lru_evictions (erased c n e) = lru_evictions c"
  "lru_next_node (erased c n e) = lru_next_node c"
  "lru_entries (erased c n e) = unlink (lru_entries c) n"
  "lru_index (erased c n e) = remove1 (n, n) (lru_index c)"
  by (simp_all add: erased_def)

lemma erased_abs:
  assumes "lru_struct c" "(n, e) \<in> set (lru_entries c)"
  shows "lru_abs (erased c n e) = del (e_key e) (lru_abs c)"
  using abs_unlink [OF assms] by (simp add: lru_abs_def erased_def)

lemma fst_set_unlink: "fst ` set (unlink es n) = fst ` set es - {n}"
  by (auto simp: unlink_def image_iff split: prod.splits)

lemma erased_struct:
  assumes "lru_struct c" "(n, e) \<in> set (lru_entries c)"
  shows "lru_struct (erased c n e)"
proof -
  note s = lru_structD [OF assms(1)]
  have "distinct (map fst (lru_abs (erased c n e)))"
    using s(2) by (simp add: erased_abs [OF assms] distinct_del)
  moreover have "distinct (map fst (unlink (lru_entries c) n))"
    using s(1) by (simp add: unlink_def distinct_map_filter)
  moreover have "set (remove1 (n, n) (lru_index c)) = (\<lambda>n. (n, n)) ` fst ` set (unlink (lru_entries c) n)"
    using s(3,4) by (auto simp: fst_set_unlink)
  moreover have "\<forall>m \<in> set (map fst (unlink (lru_entries c) n)). m < lru_next_node c"
    using s(5) by (auto simp: fst_set_unlink)
  ultimately show ?thesis
    using s(3) unfolding lru_struct_def by simp
qed

lemma erased_accounts:
  assumes "lru_struct c" "lru_accounts c" "(n, e) \<in> set (lru_entries c)"
  shows "lru_accounts (erased c n e)"
proof -
  let ?p = "(e_key e, e_value e)"
  note t = total_del [OF lru_structD(2) [OF assms(1)] abs_mem [OF assms(3)]]
  have lt: "kv_cost ?p < 2 ^ 64" using lru_accounts_lt [OF assms(2)] t(1) by simp
  have "unat (lru_bytes c) = total_cost (lru_abs c)" "unat (lru_payload_bytes c) = total_payload (lru_abs c)"
    using assms(2) by (auto simp: lru_accounts_def)
  then show ?thesis
    using t unat_entry_cost [OF lt]
    by (simp add: lru_accounts_def erased_abs [OF assms(1,3)])
      (simp add: erased_def unat_sub_exact)
qed

lemma evict_lru_locked_ok:
  assumes "lru_struct c" "lru_accounts c" "lru_entries c \<noteq> []"
  shows "\<exists>c'. evict_lru_locked c = Some c' \<and> lru_struct c' \<and> lru_accounts c'
    \<and> lru_abs c' = butlast (lru_abs c) \<and> lru_limits c' = lru_limits c
    \<and> lru_evictions c' = lru_evictions c + 1"
proof -
  obtain n e where l: "last (lru_entries c) = (n, e)" by (cases "last (lru_entries c)")
  then have mem: "(n, e) \<in> set (lru_entries c)" using assms(3) last_in_set by metis
  from index_find_struct [OF assms(1), of "e_key e"] abs_map_of [OF assms(1) mem]
  obtain m e' where m: "(m, e') \<in> set (lru_entries c)" "e_key e' = e_key e"
    and f: "index_find (lru_entries c) (lru_index c) (e_key e) = Some (Some (m, m))"
    by auto
  let ?c = "erased c m e'"
  have ev: "evict_lru_locked c = Some (?c\<lparr>lru_evictions := lru_evictions c + 1\<rparr>)"
    using assms(3) by (simp add: evict_lru_locked_def l f erase_locked_eq [OF assms(1) m(1)] Let_def)
  have la: "lru_abs c \<noteq> []" "fst (last (lru_abs c)) = e_key e"
    using assms(3) l by (simp_all add: lru_abs_def last_map kv_of_def)
  have "lru_abs ?c = butlast (lru_abs c)"
    using erased_abs [OF assms(1) m(1)] m(2) del_last [OF lru_structD(2) [OF assms(1)]] la by simp
  with ev erased_struct [OF assms(1) m(1)] erased_accounts [OF assms(1,2) m(1)] show ?thesis
    by (simp add: lru_struct_def lru_accounts_def lru_abs_def)
qed

lemma make_room_guard:
  assumes "lru_struct c" "lru_accounts c" "lru_bounded c" "unat cost < 2 ^ 63"
  shows "(sz (lru_index c) + 1 > lim_max_entries (lru_limits c)
      \<or> lru_bytes c + cost > lim_max_bytes (lru_limits c))
    \<longleftrightarrow> \<not> has_room (lru_limits c) (unat cost) (lru_abs c)"
proof -
  have b: "total_cost (lru_abs c) < 2 ^ 63" using assms(3) by (simp add: lru_bounded_def)
  then have "length (lru_index c) < 2 ^ 63"
    using length_128_le_total [of "lru_abs c"] by (simp add: length_lru_index [OF assms(1)])
  then have "unat (sz (lru_index c) + 1) = length (lru_abs c) + 1"
    by (simp add: unat_simps length_lru_index [OF assms(1)])
  moreover have "unat (lru_bytes c + cost) = total_cost (lru_abs c) + unat cost"
    using b assms(2,4) by (simp add: unat_simps lru_accounts_def)
  ultimately show ?thesis
    unfolding has_room_def word_less_nat_alt by auto
qed

lemma lru_bounded_butlast:
  assumes "lru_bounded c" "lru_abs c' = butlast (lru_abs c)" "lru_limits c' = lru_limits c"
  shows "lru_bounded c'"
proof -
  have "total_cost (butlast xs) \<le> total_cost xs" for xs :: kvs
    by (cases xs rule: rev_cases) simp_all
  with assms show ?thesis by (auto simp: lru_bounded_def intro: le_trans)
qed

lemma make_room_locked_ok:
  assumes "lru_struct c" "lru_accounts c" "lru_bounded c" "unat cost < 2 ^ 63"
  shows "\<exists>c'. make_room_locked c cost = Some c' \<and> lru_struct c' \<and> lru_accounts c' \<and> lru_bounded c'
    \<and> lru_abs c' = trim (lru_limits c) (unat cost) (lru_abs c) \<and> lru_limits c' = lru_limits c
    \<and> lru_evictions c' + of_nat (length (lru_abs c')) = lru_evictions c + of_nat (length (lru_abs c))"
  using assms(1-3)
proof (induction "length (lru_abs c)" arbitrary: c rule: less_induct)
  case less
  have e: "lru_entries c \<noteq> [] \<longleftrightarrow> lru_abs c \<noteq> []" by (simp add: lru_abs_def)
  note g = make_room_guard [OF less.prems assms(4)]
  show ?case
  proof (cases "lru_abs c \<noteq> [] \<and> \<not> has_room (lru_limits c) (unat cost) (lru_abs c)")
    case True
    then have "lru_entries c \<noteq> []" by (simp add: e)
    from evict_lru_locked_ok [OF less.prems(1,2) this] obtain c' where c': "evict_lru_locked c = Some c'"
      "lru_struct c'" "lru_accounts c'" "lru_abs c' = butlast (lru_abs c)" "lru_limits c' = lru_limits c"
      "lru_evictions c' = lru_evictions c + 1" by blast
    have b: "lru_bounded c'" using less.prems(3) c'(4,5) by (rule lru_bounded_butlast)
    have lt: "length (lru_abs c') < length (lru_abs c)" using True c'(4) by simp
    from less.hyps [OF lt c'(2,3) b] obtain d where d: "make_room_locked c' cost = Some d"
      "lru_struct d" "lru_accounts d" "lru_bounded d"
      "lru_abs d = trim (lru_limits c') (unat cost) (lru_abs c')" "lru_limits d = lru_limits c'"
      "lru_evictions d + of_nat (length (lru_abs d)) = lru_evictions c' + of_nat (length (lru_abs c'))"
      by blast
    have "make_room_locked c cost = Some d"
      using True g c'(1) d(1) by (subst make_room_locked.simps) (simp add: e)
    moreover have "trim (lru_limits c) (unat cost) (lru_abs c) = lru_abs d"
      using True d(5) c'(4,5) by (subst trim.simps) simp
    moreover have "of_nat (length (lru_abs c)) = (of_nat (length (lru_abs c')) :: u64) + 1"
      using True c'(4) by (cases "lru_abs c" rule: rev_cases) simp_all
    ultimately show ?thesis using d c' by (intro exI [of _ d]) simp
  next
    case False
    then have "make_room_locked c cost = Some c"
      using g by (subst make_room_locked.simps) (auto simp: e)
    moreover have "trim (lru_limits c) (unat cost) (lru_abs c) = lru_abs c"
      using False by (subst trim.simps) auto
    ultimately show ?thesis using less.prems by simp
  qed
qed

section \<open>Public operations refine the specification\<close>

lemma lru_get_into_ok:
  assumes "lru_inv c"
  shows "\<exists>c'. lru_get_into c k out =
      Some (c', map_of (lru_abs c) k \<noteq> None, case map_of (lru_abs c) k of None \<Rightarrow> out | Some v \<Rightarrow> v)
    \<and> lru_inv c' \<and> lru_abs c' = fst (spec_get (lru_abs c) k) \<and> lru_limits c' = lru_limits c
    \<and> lru_snapshot c' = lru_snapshot c"
proof -
  from assms have s: "lru_struct c" and a: "lru_accounts c" and b: "lru_bounded c"
    by (simp_all add: lru_inv_def)
  note sd = lru_structD [OF s]
  from index_find_struct [OF s, of k] show ?thesis
  proof (elim disjE conjE exE)
    assume "map_of (lru_abs c) k = None" "index_find (lru_entries c) (lru_index c) k = Some None"
    then show ?thesis using assms by (simp add: lru_get_into_def spec_get_def)
  next
    fix n e
    assume mem: "(n, e) \<in> set (lru_entries c)" and k: "e_key e = k"
      and m: "map_of (lru_abs c) k = Some (e_value e)"
      and f: "index_find (lru_entries c) (lru_index c) k = Some (Some (n, n))"
    have dr: "deref (lru_entries c) n = Some e" using mem sd(1) by (simp add: deref_mem)
    define c' where "c' = c\<lparr>lru_entries := (n, e) # unlink (lru_entries c) n\<rparr>"
    have g: "lru_get_into c k out = Some (c', True, e_value e)"
      by (simp add: lru_get_into_def f splice_front_def dr c'_def Let_def) (simp add: deref_def)
    have abs: "lru_abs c' = (k, e_value e) # del k (lru_abs c)"
      using abs_unlink [OF s mem] k by (simp add: lru_abs_def c'_def kv_of_def)
    note t = total_del [OF sd(2) map_of_SomeD [OF m]]
    have "distinct (map fst (lru_abs c'))"
      using distinct_del [OF sd(2)] by (auto simp: abs set_del)
    moreover have "distinct (map fst (lru_entries c'))"
      using sd(1) fst_set_unlink [of "lru_entries c" n]
      by (auto simp: c'_def unlink_def distinct_map_filter)
    moreover have "fst ` set (lru_entries c') = fst ` set (lru_entries c)"
      using mem fst_set_unlink [of "lru_entries c" n] by (force simp: c'_def)
    ultimately have "lru_struct c'"
      using sd(3,4,5) by (simp add: lru_struct_def) (simp add: c'_def)
    moreover have "lru_accounts c'" "lru_bounded c'"
      using a b t by (simp_all add: lru_accounts_def lru_bounded_def abs) (simp_all add: c'_def)
    ultimately show ?thesis
      using g abs m by (simp add: spec_get_def lru_inv_def) (simp add: c'_def lru_snapshot_def)
  qed
qed

lemma lru_get_ok:
  assumes "lru_inv c"
  shows "\<exists>c'. lru_get c k = Some (c', snd (spec_get (lru_abs c) k)) \<and> lru_inv c'
    \<and> lru_abs c' = fst (spec_get (lru_abs c) k) \<and> lru_limits c' = lru_limits c"
  using lru_get_into_ok [OF assms, of k "[]"]
  by (auto simp: lru_get_def spec_get_def split: option.splits)

lemma find_and_erase_ok:
  assumes "lru_inv c"
  shows "\<exists>found c'. index_find (lru_entries c) (lru_index c) k = Some found
    \<and> (found \<noteq> None \<longleftrightarrow> map_of (lru_abs c) k \<noteq> None)
    \<and> (case found of None \<Rightarrow> Some c | Some it \<Rightarrow> erase_locked c it) = Some c'
    \<and> lru_inv c' \<and> lru_abs c' = del k (lru_abs c) \<and> lru_limits c' = lru_limits c
    \<and> lru_evictions c' = lru_evictions c"
proof -
  from assms have s: "lru_struct c" and a: "lru_accounts c" and b: "lru_bounded c"
    by (simp_all add: lru_inv_def)
  from index_find_struct [OF s, of k] show ?thesis
  proof (elim disjE conjE exE)
    assume "map_of (lru_abs c) k = None" "index_find (lru_entries c) (lru_index c) k = Some None"
    then show ?thesis using assms by (simp add: map_of_eq_None_iff)
  next
    fix n e
    assume mem: "(n, e) \<in> set (lru_entries c)" and k: "e_key e = k"
      and m: "map_of (lru_abs c) k = Some (e_value e)"
      and f: "index_find (lru_entries c) (lru_index c) k = Some (Some (n, n))"
    have "lru_bounded (erased c n e)"
      using b total_cost_del_le [of k "lru_abs c"] length_del_le [of k "lru_abs c"]
      by (auto simp: lru_bounded_def erased_abs [OF s mem] k)
    then show ?thesis
      using erased_struct [OF s mem] erased_accounts [OF s a mem] erased_abs [OF s mem] k m
      by (simp add: f erase_locked_eq [OF s mem] lru_inv_def)
  qed
qed

lemma lru_erase_ok:
  assumes "lru_inv c"
  shows "\<exists>c'. lru_erase c k = Some (c', snd (spec_erase (lru_abs c) k)) \<and> lru_inv c'
    \<and> lru_abs c' = fst (spec_erase (lru_abs c) k) \<and> lru_limits c' = lru_limits c
    \<and> lru_evictions c' = lru_evictions c"
proof -
  from find_and_erase_ok [OF assms, of k] obtain found c' where
    "index_find (lru_entries c) (lru_index c) k = Some found"
    "found \<noteq> None \<longleftrightarrow> map_of (lru_abs c) k \<noteq> None"
    "(case found of None \<Rightarrow> Some c | Some it \<Rightarrow> erase_locked c it) = Some c'"
    "lru_inv c'" "lru_abs c' = del k (lru_abs c)" "lru_limits c' = lru_limits c"
    "lru_evictions c' = lru_evictions c" by blast
  then show ?thesis by (cases found) (simp_all add: lru_erase_def spec_erase_def)
qed

lemma trim_prefix: "\<exists>m \<le> length xs. trim lim cost xs = take m xs"
proof (induction lim cost xs rule: trim.induct)
  case (1 lim cost xs)
  show ?case
  proof (cases "xs \<noteq> [] \<and> \<not> has_room lim cost xs")
    case True
    with "1.IH" obtain m where t: "m \<le> length (butlast xs)"
      "trim lim cost (butlast xs) = take m (butlast xs)" by blast
    have b: "trim lim cost xs = trim lim cost (butlast xs)"
      using True by (subst trim.simps) simp
    have "0 < length xs" using True by simp
    moreover have "m \<le> length xs - 1" using t(1) by simp
    ultimately have "m < length xs" by linarith
    then have "m \<le> length xs" "trim lim cost xs = take m xs"
      using t(2) b by (simp_all add: take_butlast)
    then show ?thesis by blast
  next
    case False
    then have "trim lim cost xs = take (length xs) xs" by (subst trim.simps) auto
    then show ?thesis by blast
  qed
qed

lemma trim_has_room:
  "cost \<le> unat (lim_max_bytes lim) \<Longrightarrow> lim_max_entries lim \<noteq> 0 \<Longrightarrow> has_room lim cost (trim lim cost xs)"
proof (induction lim cost xs rule: trim.induct)
  case (1 lim cost xs)
  have "has_room lim cost []"
    using "1.prems" by (simp add: has_room_def Suc_le_eq unat_gt_0)
  with "1" show ?case by (subst trim.simps) auto
qed

lemma trim_maximal:
  "m \<le> length xs \<Longrightarrow> length (trim lim cost xs) < m \<Longrightarrow> \<not> has_room lim cost (take m xs)"
proof (induction lim cost xs rule: trim.induct)
  case (1 lim cost xs)
  show ?case
  proof (cases "xs \<noteq> [] \<and> \<not> has_room lim cost xs")
    case True
    show ?thesis
    proof (cases "m = length xs")
      case False
      with "1.prems" True have "m \<le> length (butlast xs)" by simp
      moreover have "trim lim cost xs = trim lim cost (butlast xs)"
        using True by (subst trim.simps) simp
      ultimately show ?thesis
        using "1.IH" [OF True] "1.prems"(2) by (simp add: take_butlast)
    qed (use True in simp)
  next
    case False
    then have "trim lim cost xs = xs" by (subst trim.simps) auto
    then show ?thesis using "1.prems" by simp
  qed
qed

lemma set_trim: "set (trim lim cost xs) \<subseteq> set xs"
  using trim_prefix [of xs lim cost] set_take_subset by metis

lemma distinct_trim: "distinct (map fst xs) \<Longrightarrow> distinct (map fst (trim lim cost xs))"
  using trim_prefix [of xs lim cost] by (metis distinct_take take_map)

lemma lru_put_too_large:
  assumes "kv_cost (k, v) < 2 ^ 64"
  shows "length v > unat (lim_max_value_bytes (lru_limits c)) \<Longrightarrow>
      lru_put c k v = Some (c, PutStatus_kValueTooLarge)"
    and "\<not> length v > unat (lim_max_value_bytes (lru_limits c)) \<Longrightarrow>
      kv_cost (k, v) > unat (lim_max_bytes (lru_limits c)) \<or> lim_max_entries (lru_limits c) = 0 \<Longrightarrow>
      lru_put c k v = Some (c, PutStatus_kEntryTooLarge)"
  using unat_entry_cost [OF assms] by (auto simp: lru_put_def word_less_nat_alt Let_def)

definition inserted :: "lru_cache \<Rightarrow> bytes \<Rightarrow> bytes \<Rightarrow> lru_cache" where
  "inserted c k v =
     (let n = lru_next_node c in
      c\<lparr>lru_entries := (n, \<lparr>e_key = k, e_value = v\<rparr>) # lru_entries c,
        lru_index := (n, n) # lru_index c,
        lru_bytes := lru_bytes c + entry_cost (sz k) (sz v),
        lru_payload_bytes := lru_payload_bytes c + (sz k + sz v),
        lru_next_node := n + 1\<rparr>)"

lemma inserted_abs: "lru_abs (inserted c k v) = (k, v) # lru_abs c"
  by (simp add: inserted_def lru_abs_def Let_def kv_of_def)

lemma inserted_inv:
  assumes "lru_struct c" "lru_accounts c" "lru_bounded c" "kv_cost (k, v) < 2 ^ 63"
    and "k \<notin> fst ` set (lru_abs c)" "has_room (lru_limits c) (kv_cost (k, v)) (lru_abs c)"
  shows "lru_inv (inserted c k v)"
proof -
  note s = lru_structD [OF assms(1)]
  have lt: "kv_cost (k, v) < 2 ^ 64" using assms(4) by simp
  note u = unat_entry_cost [OF lt]
  have fresh: "lru_next_node c \<notin> fst ` set (lru_entries c)" using s(5) by blast
  have "distinct (map fst (lru_abs (inserted c k v)))"
    using s(2) assms(5) by (simp add: inserted_abs)
  then have "lru_struct (inserted c k v)"
    using s fresh by (auto simp: lru_struct_def inserted_def Let_def less_Suc_eq)
  moreover have "lru_accounts (inserted c k v)"
  proof -
    have r: "total_cost (lru_abs c) + kv_cost (k, v) < 2 ^ 64"
      using assms(6,3) by (simp add: has_room_def lru_bounded_def)
    then have "total_payload (lru_abs c) + kv_payload (k, v) < 2 ^ 64"
      using total_payload_le [of "lru_abs c"] by (simp add: kv_cost_def)
    with r u assms(2) show ?thesis
      unfolding lru_accounts_def inserted_abs
      by (simp add: inserted_def Let_def unat_add_exact)
  qed
  moreover have "lru_bounded (inserted c k v)"
    using assms(3,6) unfolding lru_bounded_def inserted_abs has_room_def
    by (simp add: inserted_def Let_def)
  ultimately show ?thesis by (simp add: lru_inv_def)
qed

lemma index_find_absent:
  assumes "lru_struct c" "k \<notin> fst ` set (lru_abs c)"
  shows "index_find (lru_entries c) (lru_index c) k = Some None"
  using index_find_struct [OF assms(1), of k] assms(2) by (auto dest!: map_of_SomeD simp: image_iff)

lemma index_find_Cons_fresh:
  assumes "n \<notin> fst ` set idx"
  shows "index_find ((n, e) # es) idx k = index_find es idx k"
  using assms by (induction idx) (auto simp: deref_def split: Option.bind_split)

lemma index_emplace_fresh:
  assumes "lru_struct c" "k \<notin> fst ` set (lru_abs c)"
  shows "index_emplace ((lru_next_node c, \<lparr>e_key = k, e_value = v\<rparr>) # lru_entries c) (lru_index c)
      (lru_next_node c) (lru_next_node c)
    = Some ((lru_next_node c, lru_next_node c) # lru_index c)"
proof -
  have "lru_next_node c \<notin> fst ` set (lru_index c)"
    using lru_structD(4,5) [OF assms(1)] by force
  then show ?thesis
    using index_find_absent [OF assms]
    by (simp add: index_emplace_def index_find_Cons_fresh) (simp add: deref_def)
qed

lemma lru_put_stored:
  assumes "lru_inv c" "\<not> length v > unat (lim_max_value_bytes (lru_limits c))"
    and "\<not> kv_cost (k, v) > unat (lim_max_bytes (lru_limits c))" "lim_max_entries (lru_limits c) \<noteq> 0"
  shows "\<exists>c'. lru_put c k v = Some (c', PutStatus_kStored) \<and> lru_inv c'
    \<and> lru_abs c' = (k, v) # trim (lru_limits c) (kv_cost (k, v)) (del k (lru_abs c))
    \<and> lru_limits c' = lru_limits c
    \<and> lru_evictions c' + of_nat (length (lru_abs c') - 1)
        = lru_evictions c + of_nat (length (del k (lru_abs c)))"
proof -
  from assms(1) have b: "lru_bounded c" by (simp add: lru_inv_def)
  have cost63: "kv_cost (k, v) < 2 ^ 63" using b assms(3) by (simp add: lru_bounded_def)
  then have lt: "kv_cost (k, v) < 2 ^ 64" by simp
  note u = unat_entry_cost [OF lt]
  from find_and_erase_ok [OF assms(1), of k] obtain found c1 where
    f: "index_find (lru_entries c) (lru_index c) k = Some found"
    and c1: "(case found of None \<Rightarrow> Some c | Some it \<Rightarrow> erase_locked c it) = Some c1"
      "lru_inv c1" "lru_abs c1 = del k (lru_abs c)" "lru_limits c1 = lru_limits c"
      "lru_evictions c1 = lru_evictions c" by blast
  have i1: "lru_struct c1" "lru_accounts c1" "lru_bounded c1" using c1(2) by (simp_all add: lru_inv_def)
  have "unat (entry_cost (sz k) (sz v)) < 2 ^ 63" using u cost63 by simp
  from make_room_locked_ok [OF i1 this, unfolded u(1) c1(3-5)] obtain c2 where
    c2: "make_room_locked c1 (entry_cost (sz k) (sz v)) = Some c2" "lru_struct c2" "lru_accounts c2"
      "lru_bounded c2" "lru_abs c2 = trim (lru_limits c) (kv_cost (k, v)) (del k (lru_abs c))"
      "lru_limits c2 = lru_limits c"
      "lru_evictions c2 + of_nat (length (lru_abs c2)) = lru_evictions c + of_nat (length (del k (lru_abs c)))"
    by blast
  have absent: "k \<notin> fst ` set (lru_abs c2)"
    using set_trim c2(5) by (fastforce simp: set_del)
  have room: "has_room (lru_limits c2) (kv_cost (k, v)) (lru_abs c2)"
    unfolding c2(5,6) by (rule trim_has_room) (use assms(3,4) in auto)
  have put: "lru_put c k v = Some (inserted c2 k v, PutStatus_kStored)"
    using assms(2-4) u c1(1) f c2(1) index_emplace_fresh [OF c2(2) absent, of v]
    by (auto simp: lru_put_def word_less_nat_alt Let_def inserted_def)
  have "lru_limits (inserted c2 k v) = lru_limits c" "lru_evictions (inserted c2 k v) = lru_evictions c2"
    using c2(6) by (simp_all add: inserted_def Let_def)
  with put inserted_inv [OF c2(2-4) cost63 absent room] c2(5,7) show ?thesis
    by (simp add: inserted_abs)
qed

lemma lru_put_ok:
  assumes "lru_inv c" "kv_cost (k, v) < 2 ^ 64"
  shows "\<exists>c'. lru_put c k v = Some (c', snd (spec_put (lru_limits c) (lru_abs c) k v)) \<and> lru_inv c'
    \<and> lru_abs c' = fst (spec_put (lru_limits c) (lru_abs c) k v) \<and> lru_limits c' = lru_limits c"
  using lru_put_too_large [OF assms(2), of c] lru_put_stored [OF assms(1), of v k] assms(1)
  unfolding spec_put_def
  by (cases "length v > unat (lim_max_value_bytes (lru_limits c))";
      cases "kv_cost (k, v) > unat (lim_max_bytes (lru_limits c)) \<or> lim_max_entries (lru_limits c) = 0")
    fastforce+

lemma lru_clear_ok: "lru_inv c \<Longrightarrow> lru_inv (lru_clear c) \<and> lru_abs (lru_clear c) = []
    \<and> lru_limits (lru_clear c) = lru_limits c"
  by (simp add: lru_inv_def lru_struct_def lru_accounts_def lru_bounded_def lru_clear_def lru_abs_def)

lemma new_lru_cache_inv:
  "unat (lim_max_bytes lim) < 2 ^ 63 \<Longrightarrow> lru_inv (new_lru_cache lim)
     \<and> lru_abs (new_lru_cache lim) = [] \<and> lru_limits (new_lru_cache lim) = lim"
  by (simp add: lru_inv_def lru_struct_def lru_accounts_def lru_bounded_def new_lru_cache_def lru_abs_def)

section \<open>Sequences of operations\<close>

text \<open>
  All public operations hold the mutex, so any concurrent use of the cache is a sequence of them.
  A log is the list of operations with their replies, newest first.
\<close>

datatype cache_op = Op_get bytes | Op_put bytes bytes | Op_erase bytes | Op_clear
datatype cache_reply =
  Reply_get "bytes option" | Reply_put put_status | Reply_erase bool | Reply_clear

type_synonym cache_log = "(cache_op \<times> cache_reply) list"

fun lru_exec :: "lru_cache \<Rightarrow> cache_op \<Rightarrow> (lru_cache \<times> cache_reply) option" where
  "lru_exec c (Op_get k) = do { (c, r) \<leftarrow> lru_get c k; Some (c, Reply_get r) }"
| "lru_exec c (Op_put k v) = do { (c, r) \<leftarrow> lru_put c k v; Some (c, Reply_put r) }"
| "lru_exec c (Op_erase k) = do { (c, r) \<leftarrow> lru_erase c k; Some (c, Reply_erase r) }"
| "lru_exec c Op_clear = Some (lru_clear c, Reply_clear)"

fun lru_run :: "lru_cache \<Rightarrow> cache_log \<Rightarrow> cache_op list \<Rightarrow> (lru_cache \<times> cache_log) option" where
  "lru_run c log [] = Some (c, log)"
| "lru_run c log (op # ops) = do { (c, r) \<leftarrow> lru_exec c op; lru_run c ((op, r) # log) ops }"

fun spec_exec :: "cache_limits \<Rightarrow> kvs \<Rightarrow> cache_op \<Rightarrow> kvs \<times> cache_reply" where
  "spec_exec lim xs (Op_get k) = apsnd Reply_get (spec_get xs k)"
| "spec_exec lim xs (Op_put k v) = apsnd Reply_put (spec_put lim xs k v)"
| "spec_exec lim xs (Op_erase k) = apsnd Reply_erase (spec_erase xs k)"
| "spec_exec lim xs Op_clear = ([], Reply_clear)"

fun spec_run :: "cache_limits \<Rightarrow> kvs \<Rightarrow> cache_log \<Rightarrow> cache_op list \<Rightarrow> kvs \<times> cache_log" where
  "spec_run lim xs log [] = (xs, log)"
| "spec_run lim xs log (op # ops) =
     (case spec_exec lim xs op of (xs, r) \<Rightarrow> spec_run lim xs ((op, r) # log) ops)"

text \<open>Arguments of a PUT whose accounted size fits a \<^verbatim>\<open>size_t\<close>.\<close>

fun op_fits :: "cache_op \<Rightarrow> bool" where
  "op_fits (Op_put k v) = (kv_cost (k, v) < 2 ^ 64)"
| "op_fits _ = True"

lemma lru_exec_ok:
  assumes "lru_inv c" "op_fits op"
  shows "\<exists>c'. lru_exec c op = Some (c', snd (spec_exec (lru_limits c) (lru_abs c) op)) \<and> lru_inv c'
    \<and> lru_abs c' = fst (spec_exec (lru_limits c) (lru_abs c) op) \<and> lru_limits c' = lru_limits c"
proof (cases op)
  case (Op_get k)
  with lru_get_ok [OF assms(1), of k] show ?thesis by auto
next
  case (Op_put k v)
  with lru_put_ok [OF assms(1), of k v] assms(2) show ?thesis by auto
next
  case (Op_erase k)
  with lru_erase_ok [OF assms(1), of k] show ?thesis by auto
next
  case Op_clear
  with lru_clear_ok [OF assms(1)] show ?thesis by simp
qed

lemma lru_run_ok:
  assumes "lru_inv c" "list_all op_fits ops"
  shows "\<exists>c'. lru_run c log ops = Some (c', snd (spec_run (lru_limits c) (lru_abs c) log ops)) \<and> lru_inv c'
    \<and> lru_abs c' = fst (spec_run (lru_limits c) (lru_abs c) log ops) \<and> lru_limits c' = lru_limits c"
  using assms
proof (induction ops arbitrary: c log)
  case Nil
  then show ?case by simp
next
  case (Cons op ops)
  from lru_exec_ok [OF Cons.prems(1), of op] Cons.prems(2) obtain c1 where
    c1: "lru_exec c op = Some (c1, snd (spec_exec (lru_limits c) (lru_abs c) op))" "lru_inv c1"
      "lru_abs c1 = fst (spec_exec (lru_limits c) (lru_abs c) op)" "lru_limits c1 = lru_limits c"
    by auto
  obtain xs r where x: "spec_exec (lru_limits c) (lru_abs c) op = (xs, r)" by fastforce
  show ?case
    using Cons.IH [OF c1(2), of "(op, r) # log"] Cons.prems(2) c1 by (simp add: x)
qed

section \<open>Coherence: the cache as a map that may forget\<close>

text \<open>
  The contract a user of the cache relies on, whatever the replacement policy: the contents are a
  partial map, a lookup returns what the map holds, a stored PUT makes its key present, and no
  operation changes the value of another key except by dropping it.
\<close>

locale kv_cache =
  fixes get :: "'c \<Rightarrow> bytes \<Rightarrow> ('c \<times> bytes option) option"
    and put :: "'c \<Rightarrow> bytes \<Rightarrow> bytes \<Rightarrow> ('c \<times> put_status) option"
    and erase :: "'c \<Rightarrow> bytes \<Rightarrow> ('c \<times> bool) option"
    and clear :: "'c \<Rightarrow> 'c"
    and inv :: "'c \<Rightarrow> bool"
    and contents :: "'c \<Rightarrow> bytes \<Rightarrow> bytes option"
    and fits :: "bytes \<Rightarrow> bytes \<Rightarrow> bool"
  assumes get_law: "inv c \<Longrightarrow> \<exists>c'. get c k = Some (c', contents c k) \<and> inv c' \<and> contents c' = contents c"
    and put_law: "inv c \<Longrightarrow> fits k v \<Longrightarrow> \<exists>c' st. put c k v = Some (c', st) \<and> inv c'
      \<and> (st = PutStatus_kStored \<longrightarrow> contents c' k = Some v
           \<and> (\<forall>j. j \<noteq> k \<longrightarrow> contents c' j = contents c j \<or> contents c' j = None))
      \<and> (st \<noteq> PutStatus_kStored \<longrightarrow> c' = c)"
    and erase_law: "inv c \<Longrightarrow> \<exists>c'. erase c k = Some (c', contents c k \<noteq> None) \<and> inv c'
      \<and> contents c' = (contents c)(k := None)"
    and clear_law: "inv c \<Longrightarrow> inv (clear c) \<and> contents (clear c) = (\<lambda>_. None)"
begin

text \<open>\<open>m\<close> is the map of the last stored values; the cache holds a part of it.\<close>

definition part_of :: "'c \<Rightarrow> (bytes \<Rightarrow> bytes option) \<Rightarrow> bool" where
  "part_of c m \<longleftrightarrow> (\<forall>k v. contents c k = Some v \<longrightarrow> m k = Some v)"

lemma get_coherent:
  assumes "inv c" "part_of c m" "get c k = Some (c', r)"
  shows "inv c' \<and> part_of c' m \<and> (\<forall>v. r = Some v \<longrightarrow> m k = Some v)"
  using get_law [OF assms(1), of k] assms(2,3) by (auto simp: part_of_def)

lemma put_coherent:
  assumes "inv c" "fits k v" "part_of c m" "put c k v = Some (c', st)"
  shows "inv c' \<and> part_of c' (if st = PutStatus_kStored then m(k \<mapsto> v) else m)"
proof -
  from put_law [OF assms(1,2)] assms(4) have i: "inv c'"
    and st: "st = PutStatus_kStored \<Longrightarrow> contents c' k = Some v"
      "\<And>j. st = PutStatus_kStored \<Longrightarrow> j \<noteq> k \<Longrightarrow> contents c' j = contents c j \<or> contents c' j = None"
    and no: "st \<noteq> PutStatus_kStored \<Longrightarrow> c' = c"
    by auto
  show ?thesis
  proof (cases "st = PutStatus_kStored")
    case True
    have "(m(k \<mapsto> v)) j = Some w" if "contents c' j = Some w" for j w
    proof (cases "j = k")
      case False
      with st(2) [OF True False] that have "contents c j = Some w" by auto
      with assms(3) False show ?thesis by (simp add: part_of_def)
    qed (use st(1) [OF True] that in simp)
    then show ?thesis using i True by (auto simp: part_of_def)
  next
    case False
    then show ?thesis using no assms(1,3) by simp
  qed
qed

lemma erase_coherent:
  assumes "inv c" "part_of c m" "erase c k = Some (c', b)"
  shows "inv c' \<and> part_of c' (m(k := None))"
  using erase_law [OF assms(1), of k] assms(2,3) by (auto simp: part_of_def)

lemma clear_coherent: "inv c \<Longrightarrow> inv (clear c) \<and> part_of (clear c) (\<lambda>_. None)"
  using clear_law [of c] by (auto simp: part_of_def)

lemma put_get:
  assumes "inv c" "fits k v" "put c k v = Some (c', PutStatus_kStored)"
  shows "\<exists>c''. get c' k = Some (c'', Some v)"
  using put_law [OF assms(1,2)] assms(3) get_law [of c' k] by auto

end

definition lru_contents :: "lru_cache \<Rightarrow> bytes \<Rightarrow> bytes option" where
  "lru_contents c = map_of (lru_abs c)"

lemma spec_put_contents:
  assumes "distinct (map fst xs)" "spec_put lim xs k v = (ys, PutStatus_kStored)" "j \<noteq> k"
  shows "map_of ys j = map_of xs j \<or> map_of ys j = None"
proof -
  from assms(2) have ys: "ys = (k, v) # trim lim (kv_cost (k, v)) (del k xs)"
    by (auto simp: spec_put_def split: if_splits)
  obtain m where m: "trim lim (kv_cost (k, v)) (del k xs) = take m (del k xs)"
    using trim_prefix by blast
  show ?thesis
  proof (cases "map_of ys j")
    case (Some w)
    with assms(3) ys have "(j, w) \<in> set (del k xs)"
      using set_trim by (fastforce dest: map_of_SomeD)
    then have "map_of xs j = Some w" using assms(1) by (simp add: set_del)
    then show ?thesis using Some by simp
  qed simp
qed

lemma lru_inv_distinct: "lru_inv c \<Longrightarrow> distinct (map fst (lru_abs c))"
  by (simp add: lru_inv_def lru_struct_def)

interpretation lru: kv_cache lru_get lru_put lru_erase lru_clear lru_inv lru_contents
  "\<lambda>k v. kv_cost (k, v) < 2 ^ 64"
proof
  fix c :: lru_cache and k v :: bytes
  assume i: "lru_inv c"
  note d = lru_inv_distinct [OF i]
  show "\<exists>c'. lru_get c k = Some (c', lru_contents c k) \<and> lru_inv c' \<and> lru_contents c' = lru_contents c"
    using lru_get_ok [OF i, of k]
    by (auto simp: spec_get_def lru_contents_def fun_eq_iff map_of_del split: option.splits)
  show "\<exists>c'. lru_erase c k = Some (c', lru_contents c k \<noteq> None) \<and> lru_inv c'
      \<and> lru_contents c' = (lru_contents c)(k := None)"
    using lru_erase_ok [OF i, of k]
    by (auto simp: spec_erase_def lru_contents_def fun_eq_iff map_of_del)
  show "lru_inv (lru_clear c) \<and> lru_contents (lru_clear c) = (\<lambda>_. None)"
    using lru_clear_ok [OF i] by (simp add: lru_contents_def)
  assume f: "kv_cost (k, v) < 2 ^ 64"
  show "\<exists>c' st. lru_put c k v = Some (c', st) \<and> lru_inv c'
      \<and> (st = PutStatus_kStored \<longrightarrow> lru_contents c' k = Some v
           \<and> (\<forall>j. j \<noteq> k \<longrightarrow> lru_contents c' j = lru_contents c j \<or> lru_contents c' j = None))
      \<and> (st \<noteq> PutStatus_kStored \<longrightarrow> c' = c)"
  proof (cases "snd (spec_put (lru_limits c) (lru_abs c) k v) = PutStatus_kStored")
    case True
    then obtain ys where ys: "spec_put (lru_limits c) (lru_abs c) k v = (ys, PutStatus_kStored)"
      by (cases "spec_put (lru_limits c) (lru_abs c) k v") auto
    then have "map_of ys k = Some v" by (auto simp: spec_put_def split: if_splits)
    with lru_put_ok [OF i f] ys spec_put_contents [OF d ys] show ?thesis
      by (auto simp: lru_contents_def)
  next
    case False
    then have "lru_put c k v = Some (c, snd (spec_put (lru_limits c) (lru_abs c) k v))"
      using lru_put_too_large [OF f, of c] by (auto simp: spec_put_def split: if_splits)
    then show ?thesis using i False by auto
  qed
qed

text \<open>The map of last stored values that a log determines.\<close>

fun last_stored :: "cache_log \<Rightarrow> bytes \<Rightarrow> bytes option" where
  "last_stored [] = (\<lambda>_. None)"
| "last_stored ((Op_put k v, Reply_put PutStatus_kStored) # log) = (last_stored log)(k \<mapsto> v)"
| "last_stored ((Op_erase k, r) # log) = (last_stored log)(k := None)"
| "last_stored ((Op_clear, r) # log) = (\<lambda>_. None)"
| "last_stored (x # log) = last_stored log"

text \<open>Every hit in a log returned the value last stored under its key.\<close>

fun hits_coherent :: "cache_log \<Rightarrow> bool" where
  "hits_coherent [] = True"
| "hits_coherent ((Op_get k, Reply_get (Some v)) # log) = (last_stored log k = Some v \<and> hits_coherent log)"
| "hits_coherent (x # log) = hits_coherent log"

lemma lru_exec_coherent:
  assumes "lru_inv c" "op_fits op" "lru.part_of c (last_stored log)" "hits_coherent log"
    and "lru_exec c op = Some (c', r)"
  shows "lru_inv c' \<and> lru.part_of c' (last_stored ((op, r) # log)) \<and> hits_coherent ((op, r) # log)"
proof (cases op)
  case (Op_get k)
  with assms(5) obtain v where v: "lru_get c k = Some (c', v)" "r = Reply_get v"
    by (auto simp: bind_eq_Some_conv)
  with Op_get lru.get_coherent [OF assms(1,3) v(1)] assms(4) show ?thesis by (cases v) auto
next
  case (Op_put k v)
  with assms(5) obtain st where st: "lru_put c k v = Some (c', st)" "r = Reply_put st"
    by (auto simp: bind_eq_Some_conv)
  have "kv_cost (k, v) < 2 ^ 64" using Op_put assms(2) by simp
  with Op_put st lru.put_coherent [OF assms(1) _ assms(3) st(1)] assms(4) show ?thesis
    by (cases st) auto
next
  case (Op_erase k)
  with assms(5) obtain b where b: "lru_erase c k = Some (c', b)" "r = Reply_erase b"
    by (auto simp: bind_eq_Some_conv)
  with Op_erase lru.erase_coherent [OF assms(1,3) b(1)] assms(4) show ?thesis by simp
next
  case Op_clear
  with assms lru.clear_coherent [OF assms(1)] show ?thesis by auto
qed

lemma lru_run_coherent:
  assumes "lru_inv c" "list_all op_fits ops" "lru.part_of c (last_stored log)" "hits_coherent log"
    and "lru_run c log ops = Some (c', log')"
  shows "hits_coherent log' \<and> lru.part_of c' (last_stored log')"
  using assms
proof (induction ops arbitrary: c log)
  case Nil
  then show ?case by simp
next
  case (Cons op ops)
  from Cons.prems(5) obtain c1 r where
    e: "lru_exec c op = Some (c1, r)" "lru_run c1 ((op, r) # log) ops = Some (c', log')"
    by (auto simp: bind_eq_Some_conv)
  have f: "op_fits op" "list_all op_fits ops" using Cons.prems(2) by simp_all
  from lru_exec_coherent [OF Cons.prems(1) f(1) Cons.prems(3,4) e(1)] show ?case
    using Cons.IH f(2) e(2) by blast
qed

section \<open>Recency: the list order is the order of last use\<close>

text \<open>The key an operation promoted to most recently used, and the time of its last promotion.\<close>

fun touched :: "cache_op \<Rightarrow> cache_reply \<Rightarrow> bytes option" where
  "touched (Op_get k) (Reply_get (Some v)) = Some k"
| "touched (Op_put k v) (Reply_put PutStatus_kStored) = Some k"
| "touched _ _ = None"

fun last_touch :: "cache_log \<Rightarrow> bytes \<Rightarrow> nat" where
  "last_touch [] k = 0"
| "last_touch ((op, r) # log) k =
     (if touched op r = Some k then Suc (length log) else last_touch log k)"

definition by_recency :: "cache_log \<Rightarrow> kvs \<Rightarrow> bool" where
  "by_recency log xs \<longleftrightarrow> sorted_wrt (\<lambda>p q. last_touch log (fst q) < last_touch log (fst p)) xs"

lemma last_touch_le: "last_touch log k \<le> length log"
  by (induction log k rule: last_touch.induct) auto

lemma by_recency_untouched:
  "touched op r = None \<Longrightarrow> by_recency ((op, r) # log) xs = by_recency log xs"
  by (simp add: by_recency_def)

lemma by_recency_del: "by_recency log xs \<Longrightarrow> by_recency log (del k xs)"
  by (simp add: by_recency_def del_def sorted_wrt_filter)

lemma by_recency_take: "by_recency log xs \<Longrightarrow> by_recency log (take m xs)"
  by (simp add: by_recency_def sorted_wrt_take)

lemma by_recency_promote:
  assumes "by_recency log xs" "touched op r = Some k" "k \<notin> fst ` set xs"
  shows "by_recency ((op, r) # log) ((k, v) # xs)"
proof -
  have "last_touch log j < Suc (length log)" for j using last_touch_le [of log j] by simp
  moreover have "sorted_wrt (\<lambda>p q. last_touch ((op, r) # log) (fst q) < last_touch ((op, r) # log) (fst p)) xs"
    using assms(1) unfolding by_recency_def
    by (rule sorted_wrt_mono_rel [rotated]) (use assms(2,3) in auto)
  ultimately show ?thesis using assms(2,3) by (auto simp: by_recency_def)
qed

lemma by_recency_evicted:
  assumes "by_recency log xs" "p \<in> set (take m xs)" "q \<in> set xs" "q \<notin> set (take m xs)"
  shows "last_touch log (fst q) < last_touch log (fst p)"
proof -
  have "q \<in> set (drop m xs)"
    using assms(3,4) append_take_drop_id [of m xs] by (metis Un_iff set_append)
  moreover have "sorted_wrt (\<lambda>p q. last_touch log (fst q) < last_touch log (fst p)) (take m xs @ drop m xs)"
    using assms(1) by (simp add: by_recency_def)
  ultimately show ?thesis using assms(2) unfolding sorted_wrt_append by blast
qed

lemma spec_exec_recency:
  assumes "by_recency log xs"
  shows "by_recency ((op, snd (spec_exec lim xs op)) # log) (fst (spec_exec lim xs op))"
proof (cases op)
  case (Op_get k)
  have "k \<notin> fst ` set (del k xs)" by (auto simp: set_del)
  then have "by_recency ((Op_get k, Reply_get (Some v)) # log) ((k, v) # del k xs)" for v
    by (intro by_recency_promote by_recency_del assms) simp_all
  then show ?thesis
    using Op_get assms by (auto simp: spec_get_def by_recency_untouched split: option.splits)
next
  case (Op_put k v)
  obtain m where m: "trim lim (kv_cost (k, v)) (del k xs) = take m (del k xs)"
    using trim_prefix by blast
  have "k \<notin> fst ` set (take m (del k xs))"
    using set_take_subset [of m "del k xs"] by (auto simp: set_del)
  then show ?thesis
    using Op_put assms by_recency_promote [OF by_recency_take [OF by_recency_del [OF assms, of k], of m],
        of "Op_put k v" "Reply_put PutStatus_kStored" k v]
    by (auto simp: spec_put_def m by_recency_untouched)
next
  case (Op_erase k)
  then show ?thesis
    using by_recency_del [OF assms] by (simp add: spec_erase_def by_recency_untouched)
next
  case Op_clear
  then show ?thesis by (simp add: by_recency_def)
qed

lemma spec_run_recency:
  "by_recency log xs \<Longrightarrow> by_recency (snd (spec_run lim xs log ops)) (fst (spec_run lim xs log ops))"
proof (induction ops arbitrary: xs log)
  case Nil
  then show ?case by simp
next
  case (Cons op ops)
  then show ?case using spec_exec_recency [OF Cons.prems, of op lim] by (auto split: prod.splits)
qed

lemma lru_run_recency:
  assumes "unat (lim_max_bytes lim) < 2 ^ 63" "list_all op_fits ops"
    and "lru_run (new_lru_cache lim) [] ops = Some (c, log)"
  shows "lru_inv c \<and> lru_limits c = lim \<and> by_recency log (lru_abs c)"
proof -
  note n = new_lru_cache_inv [OF assms(1)]
  from lru_run_ok [OF _ assms(2), of "new_lru_cache lim" "[]"] n assms(3)
  have "lru_inv c" "lru_abs c = fst (spec_run lim [] [] ops)" "lru_limits c = lim"
    "log = snd (spec_run lim [] [] ops)" by auto
  moreover have "by_recency [] []" by (simp add: by_recency_def)
  ultimately show ?thesis using spec_run_recency by simp
qed

lemma lru_evicted_older:
  assumes "lru_inv c" "by_recency log (lru_abs c)" "kv_cost (k, v) < 2 ^ 64"
    and "lru_put c k v = Some (c', PutStatus_kStored)"
    and "j \<in> set (keys_mru_to_lru c)" "j \<notin> set (keys_mru_to_lru c')"
    and "i \<in> set (keys_mru_to_lru c')" "i \<noteq> k"
  shows "last_touch log j < last_touch log i"
proof -
  have keys: "keys_mru_to_lru d = map fst (lru_abs d)" for d
    by (simp add: keys_mru_to_lru_def lru_abs_def kv_of_def case_prod_beta)
  from lru_put_ok [OF assms(1,3)] assms(4)
  have "lru_abs c' = fst (spec_put (lru_limits c) (lru_abs c) k v)"
    and "snd (spec_put (lru_limits c) (lru_abs c) k v) = PutStatus_kStored" by auto
  then have "lru_abs c' = (k, v) # trim (lru_limits c) (kv_cost (k, v)) (del k (lru_abs c))"
    by (auto simp: spec_put_def split: if_splits)
  moreover obtain m where "trim (lru_limits c) (kv_cost (k, v)) (del k (lru_abs c)) = take m (del k (lru_abs c))"
    using trim_prefix by blast
  ultimately have m: "lru_abs c' = (k, v) # take m (del k (lru_abs c))" by simp
  from assms(5,6) m obtain w where w: "(j, w) \<in> set (del k (lru_abs c))"
    "(j, w) \<notin> set (take m (del k (lru_abs c)))"
    by (force simp: keys set_del)
  from assms(7,8) m obtain u where "(i, u) \<in> set (take m (del k (lru_abs c)))"
    by (force simp: keys)
  from by_recency_evicted [OF by_recency_del [OF assms(2)] this w] show ?thesis by simp
qed

end
