(* ===== verification/LruProperties.thy ===== *)
theory LruProperties
  imports LruSpec
begin

text \<open>
  The properties of \<^verbatim>\<open>LruCache\<close>, stated over the operations of \<open>LruCache\<close> and proved from the refinement
  of \<open>LruSpec\<close>, with a small cache of two entries as the concrete instance.
\<close>

section \<open>A concrete history\<close>

definition example_limits :: cache_limits where
  "example_limits = \<lparr>lim_max_entries = 2, lim_max_bytes = 300, lim_max_value_bytes = 16\<rparr>"

definition example_ops :: "cache_op list" where
  "example_ops = [Op_put [1] [10], Op_put [2] [20], Op_get [1], Op_put [3] [30], Op_get [2], Op_get [1]]"

lemma example_fits: "unat (lim_max_bytes example_limits) < 2 ^ 63" "list_all op_fits example_ops"
  by (simp_all add: example_limits_def example_ops_def kv_cost_def kv_payload_def)

lemma example_spec_run:
  "spec_run example_limits [] [] example_ops =
     ([([1], [10]), ([3], [30])],
      [(Op_get [1], Reply_get (Some [10])), (Op_get [2], Reply_get None),
       (Op_put [3] [30], Reply_put PutStatus_kStored), (Op_get [1], Reply_get (Some [10])),
       (Op_put [2] [20], Reply_put PutStatus_kStored), (Op_put [1] [10], Reply_put PutStatus_kStored)])"
  by code_simp

definition example_cache :: lru_cache where
  "example_cache = fst (the (lru_run (new_lru_cache example_limits) [] (take 3 example_ops)))"

definition example_log :: cache_log where
  "example_log = snd (the (lru_run (new_lru_cache example_limits) [] (take 3 example_ops)))"

lemma example_cache_run:
  "lru_run (new_lru_cache example_limits) [] (take 3 example_ops) = Some (example_cache, example_log)"
  by code_simp

lemma example_cache_inv: "lru_inv example_cache" "lru_limits example_cache = example_limits"
  using lru_run_recency [OF example_fits(1) _ example_cache_run] example_fits(2)
  by (simp_all add: example_ops_def)

lemma example_cache_abs: "lru_abs example_cache = [([1], [10]), ([2], [20])]"
  by code_simp

definition example_next :: lru_cache where
  "example_next = fst (the (lru_put example_cache [3] [30]))"

lemma example_next_put: "lru_put example_cache [3] [30] = Some (example_next, PutStatus_kStored)"
  by code_simp

lemma example_next_abs: "lru_abs example_next = [([3], [30]), ([1], [10])]"
   "keys_mru_to_lru example_next = [[3], [1]]" "keys_mru_to_lru example_cache = [[1], [2]]"
  by code_simp+

section \<open>The counters\<close>



section \<open>Properties\<close>

text \<open>
  C10. From an empty cache, every sequence of GET, PUT, erase and clear runs without a dangling iterator
  or string view, and its replies and final contents are those of the abstract recency list, provided the
  byte limit is below 2^63 and every argument's accounted size fits a \<^verbatim>\<open>size_t\<close>.
\<close>

theorem lru_run_refines_spec:
  assumes "unat (lim_max_bytes lim) < 2 ^ 63" "list_all op_fits ops"
  shows "\<exists>c. lru_run (new_lru_cache lim) [] ops = Some (c, snd (spec_run lim [] [] ops))
    \<and> lru_abs c = fst (spec_run lim [] [] ops) \<and> lru_inv c"
  using lru_run_ok [OF _ assms(2), of "new_lru_cache lim" "[]"] new_lru_cache_inv [OF assms(1)] by auto

theorem lru_run_refines_spec_witness:
  "\<exists>c. lru_run (new_lru_cache example_limits) [] example_ops
        = Some (c, [(Op_get [1], Reply_get (Some [10])), (Op_get [2], Reply_get None),
            (Op_put [3] [30], Reply_put PutStatus_kStored), (Op_get [1], Reply_get (Some [10])),
            (Op_put [2] [20], Reply_put PutStatus_kStored), (Op_put [1] [10], Reply_put PutStatus_kStored)])
      \<and> lru_abs c = [([1], [10]), ([3], [30])] \<and> lru_inv c"
  using lru_run_refines_spec [OF example_fits] by (simp add: example_spec_run)



text \<open>
  C13. A PUT that stores its entry puts it at the front, drops the replaced entry and the shortest suffix
  of the recency list that makes both limits hold: what it keeps fits, and one entry more would not. The
  eviction counter grows by the number of entries dropped.
\<close>

theorem lru_put_evicts_minimally:
  assumes "lru_inv c" "kv_cost (k, v) < 2 ^ 64" "lru_put c k v = Some (c', PutStatus_kStored)"
  shows "\<exists>m \<le> length (del k (lru_abs c)).
    lru_abs c' = (k, v) # take m (del k (lru_abs c))
    \<and> has_room (lru_limits c) (kv_cost (k, v)) (take m (del k (lru_abs c)))
    \<and> (\<forall>j \<le> length (del k (lru_abs c)). m < j \<longrightarrow>
         \<not> has_room (lru_limits c) (kv_cost (k, v)) (take j (del k (lru_abs c))))
    \<and> lru_evictions c' = lru_evictions c + of_nat (length (del k (lru_abs c)) - m)"
proof -
  let ?xs = "del k (lru_abs c)" and ?cost = "kv_cost (k, v)"
  from assms(3) have st: "\<not> length v > unat (lim_max_value_bytes (lru_limits c))"
    "\<not> ?cost > unat (lim_max_bytes (lru_limits c))" "lim_max_entries (lru_limits c) \<noteq> 0"
    using lru_put_too_large [OF assms(2), of c] by auto
  from lru_put_stored [OF assms(1) st] assms(3)
  have abs: "lru_abs c' = (k, v) # trim (lru_limits c) ?cost ?xs"
    and ev: "lru_evictions c' + of_nat (length (lru_abs c') - 1) = lru_evictions c + of_nat (length ?xs)"
    by auto
  obtain m where m: "m \<le> length ?xs" "trim (lru_limits c) ?cost ?xs = take m ?xs"
    using trim_prefix by blast
  have "has_room (lru_limits c) ?cost (take m ?xs)"
    using trim_has_room [of ?cost "lru_limits c" ?xs] st(2,3) m(2) by simp
  moreover have "\<not> has_room (lru_limits c) ?cost (take j ?xs)" if "j \<le> length ?xs" "m < j" for j
    using trim_maximal [OF that(1), of "lru_limits c" ?cost] that(2) m by simp
  moreover have "lru_evictions c' = lru_evictions c + of_nat (length ?xs - m)"
    using ev abs m by (simp add: algebra_simps)
  ultimately show ?thesis using m abs by auto
qed

theorem lru_put_evicts_minimally_witness:
  "lru_abs example_next = [([3], [30]), ([1], [10])]
    \<and> lru_evictions example_next = lru_evictions example_cache + 1"
proof -
  have fits: "kv_cost ([3], [30]) < 2 ^ 64" by (simp add: kv_cost_def kv_payload_def)
  have d: "del [3] (lru_abs example_cache) = [([1], [10]), ([2], [20])]" by code_simp
  from lru_put_evicts_minimally [OF example_cache_inv(1) fits example_next_put, unfolded d] obtain m where
    m: "lru_abs example_next = ([3], [30]) # take m [([1], [10]), ([2], [20])]"
      "lru_evictions example_next
        = lru_evictions example_cache + of_nat (length [([1 :: u8], [10 :: u8]), ([2], [20])] - m)"
    by blast
  from m(1) have "m = 1" by (simp add: example_next_abs take_Cons' split: if_splits)
  with m show ?thesis by simp
qed

text \<open>
  C12. Exact LRU: along any history from an empty cache, a PUT evicts only keys whose last successful use
  is older than the last successful use of every key it keeps.
\<close>

theorem lru_put_evicts_least_recent:
  assumes "unat (lim_max_bytes lim) < 2 ^ 63" "list_all op_fits ops"
    and "lru_run (new_lru_cache lim) [] ops = Some (c, log)"
    and "kv_cost (k, v) < 2 ^ 64" "lru_put c k v = Some (c', PutStatus_kStored)"
    and "j \<in> set (keys_mru_to_lru c)" "j \<notin> set (keys_mru_to_lru c')"
    and "i \<in> set (keys_mru_to_lru c')" "i \<noteq> k"
  shows "last_touch log j < last_touch log i"
  using lru_run_recency [OF assms(1-3)] lru_evicted_older [OF _ _ assms(4-9)] by blast

theorem lru_put_evicts_least_recent_witness: "last_touch example_log [2] < last_touch example_log [1]"
  using lru_put_evicts_least_recent [OF example_fits(1) _ example_cache_run _ example_next_put,
     of "[2]" "[1]"] example_fits(2)
  by (simp add: example_next_abs kv_cost_def kv_payload_def example_ops_def)

text \<open>
  C14. Coherence: along any history from an empty cache, every GET hit returned the value of the latest
  stored PUT to its key, with no erase of the key and no clear after it.
\<close>

theorem lru_hits_coherent:
  assumes "unat (lim_max_bytes lim) < 2 ^ 63" "list_all op_fits ops"
    and "lru_run (new_lru_cache lim) [] ops = Some (c, log)"
  shows "hits_coherent log"
proof -
  have "lru.part_of (new_lru_cache lim) (last_stored [])"
    using new_lru_cache_inv [OF assms(1)] by (simp add: lru.part_of_def lru_contents_def)
  then show ?thesis
    using lru_run_coherent [OF _ assms(2) _ _ assms(3)] new_lru_cache_inv [OF assms(1)] by simp
qed

theorem lru_hits_coherent_witness: "hits_coherent example_log"
  using lru_hits_coherent [OF example_fits(1) _ example_cache_run] example_fits(2)
  by (simp add: example_ops_def)

text \<open>
  C24. A PUT is rejected exactly when its value exceeds the value limit, or its accounted size exceeds the
  byte limit, or no entry may be held; a rejected PUT changes nothing.
\<close>

theorem lru_put_rejections:
  assumes "lru_inv c" "kv_cost (k, v) < 2 ^ 64"
  shows "\<exists>c' st. lru_put c k v = Some (c', st)
    \<and> (st = PutStatus_kValueTooLarge \<longleftrightarrow> length v > unat (lim_max_value_bytes (lru_limits c)))
    \<and> (st = PutStatus_kEntryTooLarge \<longleftrightarrow> \<not> length v > unat (lim_max_value_bytes (lru_limits c))
         \<and> (kv_cost (k, v) > unat (lim_max_bytes (lru_limits c)) \<or> lim_max_entries (lru_limits c) = 0))
    \<and> (st \<noteq> PutStatus_kStored \<longrightarrow> c' = c)"
  using lru_put_too_large [OF assms(2), of c] lru_put_stored [OF assms(1), of v k]
  by (cases "length v > unat (lim_max_value_bytes (lru_limits c))";
      cases "kv_cost (k, v) > unat (lim_max_bytes (lru_limits c)) \<or> lim_max_entries (lru_limits c) = 0") auto

theorem lru_put_rejections_witness:
  "lru_put example_cache [3] (replicate 17 0) = Some (example_cache, PutStatus_kValueTooLarge)"
  using lru_put_rejections [OF example_cache_inv(1), of "[3]" "replicate 17 0"]
  by (auto simp: example_cache_inv(2) example_limits_def kv_cost_def kv_payload_def)

end
