(* ===== verification/Connection.thy ===== *)
theory Connection
  imports Serializer
begin

text \<open>
  One client connection (\<^verbatim>\<open>include/cache/connection.h\<close>, \<^verbatim>\<open>src/connection.cpp\<close>): the input buffer with its
  consumed prefix, the staged and the partly written output, the in-flight and backlog counters.

  The kernel's answers are arguments. \<open>read_some\<close> takes the outcome of its one \<^verbatim>\<open>recv\<close>; \<open>flush_output\<close>
  takes the outcomes of its successive \<^verbatim>\<open>send\<close> calls as a list and is \<open>None\<close> when it would call \<^verbatim>\<open>send\<close>
  once more than the list has answers, so that "it returns" is a statement about the answers. An
  outcome \<open>Sent n\<close> means the kernel took up to \<open>n\<close> of the bytes offered.

  Every operation is one step. The sections of code that touch \<open>staged\<close> and \<open>pending_output_bytes\<close>
  together hold \<^verbatim>\<open>out_mutex_\<close>, and the input side belongs to the event-loop thread alone.
\<close>

section \<open>The kernel's answers\<close>

datatype errno = EINTR | EAGAIN | EOTHER

datatype recv_outcome = Received bytes | Recv_failed errno

datatype send_outcome = Sent nat | Send_failed errno

section \<open>State\<close>

record connection_limits =
  protocol_limits :: limits
  max_output_bytes :: u64
  max_inflight :: u64

definition default_connection_limits :: connection_limits where
  "default_connection_limits = \<lparr>protocol_limits = default_limits, max_output_bytes = 8 * 1024 * 1024,
     max_inflight = 512\<rparr>"

datatype io_result = IoResult_kOk | IoResult_kWouldBlock | IoResult_kClosed | IoResult_kError

record connection =
  conn_fd :: int
  conn_id :: u64
  conn_limits :: connection_limits
  in_buf :: bytes
  in_pos :: nat
  write_buf :: bytes
  write_pos :: nat
  registered_events :: u32
  close_after_flush :: bool
  staged :: bytes
  inflight :: u64
  conn_closed :: bool
  notify_pending :: bool
  pending_output_bytes :: u64

definition kReadChunkBytes :: nat where "kReadChunkBytes = 64 * 1024"
definition kCompactThresholdBytes :: nat where "kCompactThresholdBytes = 32 * 1024"

definition new_connection :: "int \<Rightarrow> u64 \<Rightarrow> connection_limits \<Rightarrow> connection" where
  "new_connection fd ident lim = \<lparr>conn_fd = fd, conn_id = ident, conn_limits = lim, in_buf = [], in_pos = 0,
     write_buf = [], write_pos = 0, registered_events = 0, close_after_flush = False, staged = [],
     inflight = 0, conn_closed = False, notify_pending = False, pending_output_bytes = 0\<rparr>"

section \<open>Input\<close>

definition read_some :: "recv_outcome \<Rightarrow> connection \<Rightarrow> connection \<times> io_result" where
  "read_some answer c =
     (case answer of
        Received bs \<Rightarrow>
          let chunk = take kReadChunkBytes bs in
          if chunk \<noteq> [] then (c\<lparr>in_buf := in_buf c @ chunk\<rparr>, IoResult_kOk) else (c, IoResult_kClosed)
      | Recv_failed EINTR \<Rightarrow> (c, IoResult_kOk)
      | Recv_failed EAGAIN \<Rightarrow> (c, IoResult_kWouldBlock)
      | Recv_failed EOTHER \<Rightarrow> (c, IoResult_kError))"

definition compact_input :: "connection \<Rightarrow> connection" where
  "compact_input c = (if in_pos c = 0 then c else c\<lparr>in_buf := drop (in_pos c) (in_buf c), in_pos := 0\<rparr>)"

definition next_request :: "connection \<Rightarrow> request \<Rightarrow> connection \<times> parse_result \<times> request" where
  "next_request c out =
     (let view = drop (in_pos c) (in_buf c);
          (result, out) = deserialize_request view (protocol_limits (conn_limits c)) out in
      if pr_status result = ParseStatus_kComplete
      then let c = c\<lparr>in_pos := in_pos c + pr_consumed result\<rparr> in
        (if in_pos c \<ge> kCompactThresholdBytes then compact_input c else c, result, out)
      else if pr_status result = ParseStatus_kNeedMoreData then (compact_input c, result, out)
      else (c, result, out))"

definition peek_request_header :: "connection \<Rightarrow> (u64 \<times> opcode) option" where
  "peek_request_header c =
     (let available = length (in_buf c) - in_pos c in
      if available < kHeaderSize then None
      else let head = drop (in_pos c) (in_buf c) in
      if read_u32 head \<noteq> kMagic then None
      else let raw_opcode = read_u8 (drop 5 head) in
      if \<not> is_valid_opcode raw_opcode then None
      else Some (read_u64 (drop 8 head), the (opcode_of_u8 raw_opcode)))"

section \<open>Output\<close>

definition enqueue_response :: "bytes \<Rightarrow> bool \<Rightarrow> connection \<Rightarrow> connection \<times> bool" where
  "enqueue_response frame completes_request c =
     (if conn_closed c
      then (if completes_request then c\<lparr>inflight := inflight c - 1\<rparr> else c, False)
      else let c = c\<lparr>staged := staged c @ frame,
                     pending_output_bytes := pending_output_bytes c + sz frame\<rparr>;
               over_limit = pending_output_bytes c > max_output_bytes (conn_limits c) * 2;
               c = (if completes_request then c\<lparr>inflight := inflight c - 1\<rparr> else c)
           in (c, \<not> over_limit))"

definition has_pending_output :: "connection \<Rightarrow> bool" where
  "has_pending_output c \<longleftrightarrow> pending_output_bytes c > 0"

definition inflight_limit_reached :: "connection \<Rightarrow> bool" where
  "inflight_limit_reached c \<longleftrightarrow> inflight c \<ge> max_inflight (conn_limits c)"

definition read_paused :: "connection \<Rightarrow> bool" where
  "read_paused c \<longleftrightarrow>
     pending_output_bytes c > max_output_bytes (conn_limits c) \<or> inflight_limit_reached c"

text \<open>The head of the write loop: the written buffer is dropped and the staged one taken.\<close>

definition refill_write_buf :: "connection \<Rightarrow> connection" where
  "refill_write_buf c =
     (if write_pos c \<ge> length (write_buf c)
      then c\<lparr>write_buf := staged c, write_pos := 0, staged := []\<rparr> else c)"

text \<open>The connection, the bytes the socket took, the result and the answers not used.\<close>

fun flush_output ::
  "send_outcome list \<Rightarrow> connection \<Rightarrow> (connection \<times> bytes \<times> io_result \<times> send_outcome list) option" where
  "flush_output answers c =
     (let c = refill_write_buf c in
      if write_buf c = [] then Some (c, [], IoResult_kOk, answers)
      else case answers of
        [] \<Rightarrow> None
      | Sent k # answers' \<Rightarrow>
          let n = min k (length (write_buf c) - write_pos c) in
          if n > 0
          then (case flush_output answers'
                  (c\<lparr>write_pos := write_pos c + n, pending_output_bytes := pending_output_bytes c - of_nat n\<rparr>) of
                  None \<Rightarrow> None
                | Some (c', sent, r, rest) \<Rightarrow> Some (c', take n (drop (write_pos c) (write_buf c)) @ sent, r, rest))
          else Some (c, [], IoResult_kError, answers')
      | Send_failed EINTR # answers' \<Rightarrow> flush_output answers' c
      | Send_failed EAGAIN # answers' \<Rightarrow> Some (c, [], IoResult_kWouldBlock, answers')
      | Send_failed EOTHER # answers' \<Rightarrow> Some (c, [], IoResult_kError, answers'))"

declare flush_output.simps [simp del]

section \<open>Flags and counters\<close>

definition mark_close_after_flush :: "connection \<Rightarrow> connection" where
  "mark_close_after_flush c = c\<lparr>close_after_flush := True\<rparr>"

definition set_registered_events :: "u32 \<Rightarrow> connection \<Rightarrow> connection" where
  "set_registered_events events c = c\<lparr>registered_events := events\<rparr>"

definition note_request_submitted :: "connection \<Rightarrow> connection" where
  "note_request_submitted c = c\<lparr>inflight := inflight c + 1\<rparr>"

definition mark_closed :: "connection \<Rightarrow> connection" where
  "mark_closed c = c\<lparr>conn_closed := True\<rparr>"

definition try_mark_notified :: "connection \<Rightarrow> connection \<times> bool" where
  "try_mark_notified c = (c\<lparr>notify_pending := True\<rparr>, \<not> notify_pending c)"

definition clear_notified :: "connection \<Rightarrow> connection" where
  "clear_notified c = c\<lparr>notify_pending := False\<rparr>"

lemmas connection_flags = mark_close_after_flush_def set_registered_events_def note_request_submitted_def
  mark_closed_def try_mark_notified_def clear_notified_def

section \<open>What the buffers hold\<close>

definition unread :: "connection \<Rightarrow> bytes" where
  "unread c = drop (in_pos c) (in_buf c)"

definition unsent :: "connection \<Rightarrow> bytes" where
  "unsent c = drop (write_pos c) (write_buf c) @ staged c"

definition conn_inv :: "connection \<Rightarrow> bool" where
  "conn_inv c \<longleftrightarrow>
     in_pos c \<le> length (in_buf c) \<and> in_pos c < kCompactThresholdBytes
   \<and> write_pos c \<le> length (write_buf c)
   \<and> pending_output_bytes c = of_nat (length (unsent c))"

lemma new_connection_inv:
  "conn_inv (new_connection fd ident lim) \<and> unread (new_connection fd ident lim) = []
     \<and> unsent (new_connection fd ident lim) = []"
  by (simp add: conn_inv_def new_connection_def unread_def unsent_def kCompactThresholdBytes_def)

lemma connection_flags_inv [simp]:
  "conn_inv (mark_close_after_flush c) = conn_inv c" "conn_inv (set_registered_events ev c) = conn_inv c"
  "conn_inv (note_request_submitted c) = conn_inv c" "conn_inv (mark_closed c) = conn_inv c"
  "conn_inv (fst (try_mark_notified c)) = conn_inv c" "conn_inv (clear_notified c) = conn_inv c"
  by (simp_all add: connection_flags conn_inv_def unsent_def)

lemma has_pending_output_iff:
  "conn_inv c \<Longrightarrow> length (unsent c) < 2 ^ 64 \<Longrightarrow> has_pending_output c \<longleftrightarrow> unsent c \<noteq> []"
  by (auto simp: conn_inv_def has_pending_output_def word_less_nat_alt unat_of_nat take_bit_nat_eq_self)

section \<open>Input: compaction is invisible\<close>

lemma read_some_unread:
  assumes "conn_inv c"
  shows "conn_inv (fst (read_some a c)) \<and> unsent (fst (read_some a c)) = unsent c
    \<and> unread (fst (read_some a c))
        = unread c @ (case a of Received bs \<Rightarrow> take kReadChunkBytes bs | Recv_failed _ \<Rightarrow> [])"
  using assms
  by (auto simp: read_some_def conn_inv_def unread_def unsent_def Let_def split: recv_outcome.split errno.split)

lemma compact_input_unread:
  assumes "in_pos c \<le> length (in_buf c)"
  shows "unread (compact_input c) = unread c \<and> unsent (compact_input c) = unsent c
    \<and> in_pos (compact_input c) = 0 \<and> write_pos (compact_input c) = write_pos c
    \<and> write_buf (compact_input c) = write_buf c
    \<and> pending_output_bytes (compact_input c) = pending_output_bytes c"
  by (simp add: compact_input_def unread_def unsent_def)

abbreviation parse_unread :: "connection \<Rightarrow> request \<Rightarrow> parse_result \<times> request" where
  "parse_unread c out \<equiv> deserialize_request (unread c) (protocol_limits (conn_limits c)) out"

lemma next_request_unread:
  assumes "conn_inv c" "next_request c out = (c', r, req)"
  shows "conn_inv c' \<and> unsent c' = unsent c \<and> conn_limits c' = conn_limits c
    \<and> (r, req) = parse_unread c out
    \<and> unread c' = drop (pr_consumed r) (unread c)"
proof -
  obtain r' q where p: "parse_unread c out = (r', q)" by (cases "parse_unread c out")
  have eq: "r = r'" "req = q"
    using assms(2) p by (auto simp: next_request_def Let_def unread_def split: if_splits)
  from p have "fst (parse_unread c out) = r'" by simp
  then consider (more) "r' = pr_need_more" | (complete) n where "r' = pr_complete n" | (bad) e where "r' = pr_malformed e"
    using deserialize_request_outcome [of "unread c" "protocol_limits (conn_limits c)" out] by auto
  then show ?thesis
  proof cases
    case more
    then have "c' = compact_input c"
      using assms(2) p by (auto simp: next_request_def Let_def unread_def split: if_splits)
    with more eq p assms(1) compact_input_unread [of c] show ?thesis
      by (simp add: conn_inv_def kCompactThresholdBytes_def compact_input_def)
  next
    case (complete n)
    then have n: "n \<le> length (unread c)" using deserialize_request_sound p by blast
    let ?c = "c\<lparr>in_pos := in_pos c + n\<rparr>"
    have c': "c' = (if in_pos ?c \<ge> kCompactThresholdBytes then compact_input ?c else ?c)"
      using assms(2) p complete by (auto simp: next_request_def Let_def unread_def)
    have "in_pos ?c \<le> length (in_buf ?c)" using n assms(1) by (auto simp: unread_def conn_inv_def)
    from compact_input_unread [OF this] c' complete eq p assms(1) this show ?thesis
      by (auto simp: conn_inv_def unread_def unsent_def compact_input_def add.commute)
  next
    case (bad e)
    then have "c' = c"
      using assms(2) p by (auto simp: next_request_def Let_def unread_def split: if_splits)
    with bad eq p assms(1) show ?thesis by simp
  qed
qed

section \<open>Output: what the socket took and what is left\<close>

lemma refill_write_buf_inv:
  assumes "conn_inv c"
  shows "conn_inv (refill_write_buf c)" "unsent (refill_write_buf c) = unsent c"
    "write_buf (refill_write_buf c) = [] \<longleftrightarrow> unsent c = []"
    "write_buf (refill_write_buf c) \<noteq> [] \<Longrightarrow> write_pos (refill_write_buf c) < length (write_buf (refill_write_buf c))"
  using assms by (auto simp: refill_write_buf_def conn_inv_def unsent_def)

lemma written_inv:
  assumes "conn_inv c" "n \<le> length (write_buf c) - write_pos c"
  shows "conn_inv (c\<lparr>write_pos := write_pos c + n, pending_output_bytes := pending_output_bytes c - of_nat n\<rparr>)"
    "unsent c = take n (drop (write_pos c) (write_buf c))
      @ unsent (c\<lparr>write_pos := write_pos c + n, pending_output_bytes := pending_output_bytes c - of_nat n\<rparr>)"
proof -
  have "n \<le> length (unsent c)" using assms(2) by (simp add: unsent_def)
  then show "conn_inv (c\<lparr>write_pos := write_pos c + n, pending_output_bytes := pending_output_bytes c - of_nat n\<rparr>)"
    using assms by (auto simp: conn_inv_def unsent_def of_nat_diff)
  show "unsent c = take n (drop (write_pos c) (write_buf c))
      @ unsent (c\<lparr>write_pos := write_pos c + n, pending_output_bytes := pending_output_bytes c - of_nat n\<rparr>)"
    by (simp add: unsent_def) (metis add.commute append_take_drop_id drop_drop)
qed

text \<open>Two connections that differ in their output buffers only.\<close>

definition same_but_output :: "connection \<Rightarrow> connection \<Rightarrow> bool" where
  "same_but_output c c' \<longleftrightarrow>
     (\<exists>wb wp st po. c' = c\<lparr>write_buf := wb, write_pos := wp, staged := st, pending_output_bytes := po\<rparr>)"

lemma same_but_output_intros:
  "same_but_output c c"
  "same_but_output c (refill_write_buf c)"
  "same_but_output c (c\<lparr>write_pos := wp, pending_output_bytes := po\<rparr>)"
proof -
  have "c = c\<lparr>write_buf := write_buf c, write_pos := write_pos c, staged := staged c,
      pending_output_bytes := pending_output_bytes c\<rparr>"
    "refill_write_buf c = c\<lparr>write_buf := write_buf (refill_write_buf c), write_pos := write_pos (refill_write_buf c),
      staged := staged (refill_write_buf c), pending_output_bytes := pending_output_bytes c\<rparr>"
    "c\<lparr>write_pos := wp, pending_output_bytes := po\<rparr> = c\<lparr>write_buf := write_buf c, write_pos := wp,
      staged := staged c, pending_output_bytes := po\<rparr>"
    by (simp_all add: refill_write_buf_def)
  then show "same_but_output c c" "same_but_output c (refill_write_buf c)"
    "same_but_output c (c\<lparr>write_pos := wp, pending_output_bytes := po\<rparr>)"
    unfolding same_but_output_def by blast+
qed

lemma same_but_output_trans:
  assumes "same_but_output c c'" "same_but_output c' c''"
  shows "same_but_output c c''"
proof -
  from assms obtain wb wp st po where
    "c'' = c\<lparr>write_buf := wb, write_pos := wp, staged := st, pending_output_bytes := po\<rparr>"
    by (auto simp: same_but_output_def)
  then show ?thesis unfolding same_but_output_def by blast
qed

lemma same_but_output_fields:
  assumes "same_but_output c c'"
  shows "conn_fd c' = conn_fd c" "conn_id c' = conn_id c" "conn_limits c' = conn_limits c" "unread c' = unread c"
    "registered_events c' = registered_events c" "close_after_flush c' = close_after_flush c"
    "inflight c' = inflight c" "conn_closed c' = conn_closed c" "notify_pending c' = notify_pending c"
  using assms by (auto simp: same_but_output_def unread_def)

definition flush_ok :: "connection \<Rightarrow> connection \<Rightarrow> bytes \<Rightarrow> io_result \<Rightarrow> bool" where
  "flush_ok c c' sent r \<longleftrightarrow>
     conn_inv c' \<and> unsent c = sent @ unsent c' \<and> same_but_output c c'
   \<and> (r = IoResult_kOk \<longleftrightarrow> unsent c' = [])"

lemma flush_ok_refill:
  assumes "conn_inv c" "flush_ok (refill_write_buf c) c' sent r"
  shows "flush_ok c c' sent r"
  using assms(2) same_but_output_trans [OF same_but_output_intros(2), of c c']
  unfolding flush_ok_def refill_write_buf_inv(2) [OF assms(1)] by blast

lemma flush_ok_stop:
  assumes "conn_inv c" "r = IoResult_kOk \<longleftrightarrow> unsent c = []"
  shows "flush_ok c c [] r"
  using assms by (simp add: flush_ok_def same_but_output_intros)

lemma flush_ok_written:
  assumes "conn_inv c" "n \<le> length (write_buf c) - write_pos c"
    and "flush_ok (c\<lparr>write_pos := write_pos c + n, pending_output_bytes := pending_output_bytes c - of_nat n\<rparr>)
      c' sent r"
  shows "flush_ok c c' (take n (drop (write_pos c) (write_buf c)) @ sent) r"
  using assms(3) written_inv(2) [OF assms(1,2)] same_but_output_trans [OF same_but_output_intros(3)]
  unfolding flush_ok_def by (metis append.assoc)

definition written :: "nat \<Rightarrow> connection \<Rightarrow> connection" where
  "written n c = c\<lparr>write_pos := write_pos c + n, pending_output_bytes := pending_output_bytes c - of_nat n\<rparr>"

lemma flush_done: "write_buf (refill_write_buf c) = [] \<Longrightarrow>
    flush_output answers c = Some (refill_write_buf c, [], IoResult_kOk, answers)"
  by (subst flush_output.simps) (simp add: Let_def)

lemma flush_steps:
  assumes "write_buf (refill_write_buf c) \<noteq> []"
  shows "flush_output [] c = None"
    "flush_output (Send_failed EINTR # answers) c = flush_output answers (refill_write_buf c)"
    "flush_output (Send_failed EAGAIN # answers) c = Some (refill_write_buf c, [], IoResult_kWouldBlock, answers)"
    "flush_output (Send_failed EOTHER # answers) c = Some (refill_write_buf c, [], IoResult_kError, answers)"
    "flush_output (Sent 0 # answers) c = Some (refill_write_buf c, [], IoResult_kError, answers)"
  using assms by (subst flush_output.simps, simp add: Let_def)+

lemma flush_sent:
  assumes "conn_inv c" "write_buf (refill_write_buf c) \<noteq> []" "0 < k"
  obtains n where "0 < n" "n \<le> length (write_buf (refill_write_buf c)) - write_pos (refill_write_buf c)"
    "flush_output (Sent k # answers) c =
      (case flush_output answers (written n (refill_write_buf c)) of
         None \<Rightarrow> None
       | Some (c', sent, r, rest) \<Rightarrow>
           Some (c', take n (drop (write_pos (refill_write_buf c)) (write_buf (refill_write_buf c))) @ sent, r, rest))"
proof (rule that)
  let ?n = "min k (length (write_buf (refill_write_buf c)) - write_pos (refill_write_buf c))"
  show n: "0 < ?n" using refill_write_buf_inv(4) [OF assms(1,2)] assms(3) by simp
  show "?n \<le> length (write_buf (refill_write_buf c)) - write_pos (refill_write_buf c)" by simp
  show "flush_output (Sent k # answers) c =
      (case flush_output answers (written ?n (refill_write_buf c)) of
         None \<Rightarrow> None
       | Some (c', sent, r, rest) \<Rightarrow>
           Some (c', take ?n (drop (write_pos (refill_write_buf c)) (write_buf (refill_write_buf c))) @ sent, r, rest))"
    unfolding flush_output.simps [of "Sent k # answers"] Let_def written_def using assms(2) n
    by simp
qed

lemma flush_output_ok:
  "conn_inv c \<Longrightarrow> flush_output answers c = Some (c', sent, r, rest) \<Longrightarrow> flush_ok c c' sent r"
proof (induction answers arbitrary: c c' sent r rest)
  case Nil
  note i = refill_write_buf_inv [OF Nil(1)]
  have "write_buf (refill_write_buf c) = []" using Nil(2) flush_steps(1) [of c] by fastforce
  with Nil i have "flush_ok (refill_write_buf c) c' sent r"
    by (simp add: flush_done) (metis flush_ok_stop)
  with Nil(1) show ?case by (rule flush_ok_refill)
next
  case (Cons a answers)
  let ?c = "refill_write_buf c"
  note i = refill_write_buf_inv [OF Cons(2)]
  have "flush_ok ?c c' sent r"
  proof (cases "write_buf ?c = []")
    case True
    with Cons(3) i show ?thesis by (simp add: flush_done) (metis flush_ok_stop)
  next
    case False
    then have "unsent ?c \<noteq> []" using i by simp
    then have stop: "flush_ok ?c ?c [] r" if "r \<noteq> IoResult_kOk" for r
      using that by (intro flush_ok_stop i(1)) simp
    consider (sent) k where "a = Sent k" "0 < k" | (intr) "a = Send_failed EINTR"
      | (other) "a \<in> {Sent 0, Send_failed EAGAIN, Send_failed EOTHER}"
      by (cases a) (auto intro: errno.exhaust)
    then show ?thesis
    proof cases
      case sent
      obtain n where n: "n \<le> length (write_buf ?c) - write_pos ?c"
        "flush_output (Sent k # answers) c =
          (case flush_output answers (written n ?c) of
             None \<Rightarrow> None
           | Some (c', sent, r, rest) \<Rightarrow> Some (c', take n (drop (write_pos ?c) (write_buf ?c)) @ sent, r, rest))"
        using flush_sent [OF Cons(2) False sent(2), of answers] by blast
      with Cons(3) sent(1) obtain s where s: "flush_output answers (written n ?c) = Some (c', s, r, rest)"
        "sent = take n (drop (write_pos ?c) (write_buf ?c)) @ s"
        by (auto split: option.splits)
      have "conn_inv (written n ?c)" unfolding written_def by (rule written_inv [OF i(1) n(1)])
      from Cons.IH [OF this s(1)] show ?thesis
        unfolding s(2) written_def by (rule flush_ok_written [OF i(1) n(1)])
    next
      case intr
      with Cons(3) False Cons.IH [OF i(1)] show ?thesis by (simp add: flush_steps)
    next
      case other
      with Cons(3) False stop show ?thesis by (auto simp: flush_steps)
    qed
  qed
  with Cons(2) show ?case by (rule flush_ok_refill)
qed

lemma flush_output_returns:
  "conn_inv c \<Longrightarrow> length (unsent c) < length (filter (\<lambda>a. a \<noteq> Send_failed EINTR) answers) \<Longrightarrow>
     \<exists>c' sent r rest. flush_output answers c = Some (c', sent, r, rest)"
proof (induction answers arbitrary: c)
  case (Cons a answers)
  let ?c = "refill_write_buf c"
  note i = refill_write_buf_inv [OF Cons(2)]
  show ?case
  proof (cases "write_buf ?c = []")
    case False
    consider (sent) k where "a = Sent k" "0 < k" | (intr) "a = Send_failed EINTR"
      | (other) "a \<in> {Sent 0, Send_failed EAGAIN, Send_failed EOTHER}"
      by (cases a) (auto intro: errno.exhaust)
    then show ?thesis
    proof cases
      case sent
      obtain n where n: "0 < n" "n \<le> length (write_buf ?c) - write_pos ?c"
        "flush_output (Sent k # answers) c =
          (case flush_output answers (written n ?c) of
             None \<Rightarrow> None
           | Some (c', sent, r, rest) \<Rightarrow> Some (c', take n (drop (write_pos ?c) (write_buf ?c)) @ sent, r, rest))"
        using flush_sent [OF Cons(2) False sent(2), of answers] by blast
      note w = written_inv [OF i(1) n(2), folded written_def]
      have "length (unsent c) = n + length (unsent (written n ?c))"
        using arg_cong [OF w(2), of length] i(2) n(2) by simp
      then have "length (unsent (written n ?c)) < length (filter (\<lambda>a. a \<noteq> Send_failed EINTR) answers)"
        using Cons(3) n(1) sent(1) by simp
      from Cons.IH [OF w(1) this] show ?thesis using n(3) sent(1) by auto
    next
      case intr
      with Cons(3) Cons.IH [OF i(1)] i(2) False show ?thesis by (simp add: flush_steps)
    next
      case other
      with False show ?thesis by (auto simp: flush_steps)
    qed
  qed (simp add: flush_done)
qed simp

lemma enqueue_response_open:
  assumes "conn_inv c" "\<not> conn_closed c" "enqueue_response frame b c = (c', ok)"
  shows "conn_inv c' \<and> unsent c' = unsent c @ frame \<and> unread c' = unread c \<and> conn_limits c' = conn_limits c
    \<and> \<not> conn_closed c' \<and> inflight c' = (if b then inflight c - 1 else inflight c)
    \<and> (ok \<longleftrightarrow> pending_output_bytes c' \<le> max_output_bytes (conn_limits c) * 2)"
  using assms by (auto simp: enqueue_response_def conn_inv_def unsent_def unread_def Let_def sz_def not_less)

lemma enqueue_response_closed:
  assumes "conn_closed c" "enqueue_response frame b c = (c', ok)"
  shows "\<not> ok \<and> c' = (if b then c\<lparr>inflight := inflight c - 1\<rparr> else c)"
  using assms by (auto simp: enqueue_response_def)

end
