(* ===== verification/ThreadPool.thy ===== *)
theory ThreadPool
  imports Prelude "HOL-Library.Multiset"
begin

text \<open>
  The worker pool (\<^verbatim>\<open>include/cache/thread_pool.h\<close>, \<^verbatim>\<open>src/thread_pool.cpp\<close>): a bounded queue, worker
  threads that take jobs from it, and the shutdown that stops them. Every section of code under
  \<^verbatim>\<open>mutex_\<close> is one function on the pool; the threads interleave these sections in any order. A wait on a
  condition variable with a predicate is a step that is enabled while its predicate holds: every change
  that can make a predicate true is followed by a notification in the code.

  The job is a type parameter and the handler is not part of this theory: a worker runs it between
  \<open>worker_take\<close> and \<open>worker_finish\<close>, with no lock held.
\<close>

section \<open>State\<close>

text \<open>A worker waits for work, runs the handler on a job, or has returned from its loop.\<close>

datatype 'j worker = Waiting | Running 'j | Exited

text \<open>Where the thread that calls \<^verbatim>\<open>drain_and_stop\<close> is: before it, waiting on \<^verbatim>\<open>queue_drained_\<close>, joining, or back.\<close>

datatype stopper = Stop_none | Stop_waiting | Stop_joining | Stop_returned

record 'j worker_pool =
  thread_count :: u64
  max_pending :: u64
  queue :: "'j list"
  accepting :: bool
  stopping :: bool
  threads :: "'j worker list"
  completed :: u64
  stopper_at :: stopper

definition new_pool :: "u64 \<Rightarrow> u64 \<Rightarrow> 'j worker_pool" where
  "new_pool workers limit = \<lparr>thread_count = workers, max_pending = limit, queue = [], accepting = True,
     stopping = False, threads = [], completed = 0, stopper_at = Stop_none\<rparr>"

definition pool_start :: "'j worker_pool \<Rightarrow> 'j worker_pool" where
  "pool_start p = p\<lparr>threads := threads p @ replicate (unat (thread_count p)) Waiting\<rparr>"

section \<open>Sections under the mutex\<close>

definition try_submit :: "'j \<Rightarrow> 'j worker_pool \<Rightarrow> 'j worker_pool \<times> bool" where
  "try_submit job p =
     (if \<not> accepting p \<or> sz (queue p) \<ge> max_pending p then (p, False)
      else (p\<lparr>queue := queue p @ [job]\<rparr>, True))"

definition pool_pending :: "'j worker_pool \<Rightarrow> u64" where
  "pool_pending p = sz (queue p)"

text \<open>A waiting worker passes its wait: it exits, or takes the front job.\<close>

definition worker_take :: "nat \<Rightarrow> 'j worker_pool \<Rightarrow> 'j worker_pool option" where
  "worker_take i p =
     (if i < length (threads p) \<and> threads p ! i = Waiting \<and> (stopping p \<or> queue p \<noteq> [])
      then (case queue p of
              [] \<Rightarrow> Some (p\<lparr>threads := (threads p)[i := Exited]\<rparr>)
            | job # rest \<Rightarrow> Some (p\<lparr>queue := rest, threads := (threads p)[i := Running job]\<rparr>))
      else None)"

text \<open>The handler of worker \<open>i\<close> has returned.\<close>

definition worker_finish :: "nat \<Rightarrow> 'j worker_pool \<Rightarrow> 'j worker_pool option" where
  "worker_finish i p =
     (if i < length (threads p)
      then (case threads p ! i of
              Running job \<Rightarrow> Some (p\<lparr>threads := (threads p)[i := Waiting], completed := completed p + 1\<rparr>)
            | _ \<Rightarrow> None)
      else None)"

text \<open>
  \<^verbatim>\<open>drain_and_stop\<close> up to its wait (\<open>drain_begin\<close>, with the timeout in milliseconds), after it
  (\<open>drain_wake\<close>, whose flag says that the timeout has passed) and the joins (\<open>drain_join\<close>).
\<close>

definition drain_begin :: "int \<Rightarrow> 'j worker_pool \<Rightarrow> 'j worker_pool" where
  "drain_begin timeout p =
     (if \<not> accepting p \<and> stopping p then p\<lparr>stopper_at := Stop_returned\<rparr>
      else let p = p\<lparr>accepting := False\<rparr> in
      if timeout > 0 \<and> queue p \<noteq> [] then p\<lparr>stopper_at := Stop_waiting\<rparr>
      else p\<lparr>stopping := True, stopper_at := Stop_joining\<rparr>)"

definition drain_wake :: "bool \<Rightarrow> 'j worker_pool \<Rightarrow> 'j worker_pool option" where
  "drain_wake timed_out p =
     (if stopper_at p = Stop_waiting \<and> (queue p = [] \<or> timed_out)
      then Some (p\<lparr>queue := [], stopping := True, stopper_at := Stop_joining\<rparr>)
      else None)"

definition drain_join :: "'j worker_pool \<Rightarrow> 'j worker_pool option" where
  "drain_join p =
     (if stopper_at p = Stop_joining \<and> list_all (\<lambda>w. w = Exited) (threads p)
      then Some (p\<lparr>threads := [], stopper_at := Stop_returned\<rparr>)
      else None)"

section \<open>Interleavings\<close>

text \<open>What a step does, as far as jobs are concerned.\<close>

datatype 'j pool_event =
  Submitted 'j | Rejected 'j | Taken 'j | Finished 'j | Left | Stop_begun | Discarded "'j list" | Joined

inductive pool_step :: "'j worker_pool \<Rightarrow> 'j pool_event \<Rightarrow> 'j worker_pool \<Rightarrow> bool" where
  submit: "try_submit job p = (p', True) \<Longrightarrow> pool_step p (Submitted job) p'"
| reject: "try_submit job p = (p', False) \<Longrightarrow> pool_step p (Rejected job) p'"
| take: "worker_take i p = Some p' \<Longrightarrow> queue p = job # rest \<Longrightarrow> pool_step p (Taken job) p'"
| leave: "worker_take i p = Some p' \<Longrightarrow> queue p = [] \<Longrightarrow> pool_step p Left p'"
| finish: "worker_finish i p = Some p' \<Longrightarrow> threads p ! i = Running job \<Longrightarrow> pool_step p (Finished job) p'"
| stop: "stopper_at p \<in> {Stop_none, Stop_returned} \<Longrightarrow> p' = drain_begin timeout p \<Longrightarrow> pool_step p Stop_begun p'"
| wake: "drain_wake timed_out p = Some p' \<Longrightarrow> pool_step p (Discarded (queue p)) p'"
| join: "drain_join p = Some p' \<Longrightarrow> pool_step p Joined p'"

inductive pool_run :: "'j worker_pool \<Rightarrow> 'j pool_event list \<Rightarrow> 'j worker_pool \<Rightarrow> bool" where
  run_nil: "pool_run p [] p"
| run_snoc: "pool_run p evs p' \<Longrightarrow> pool_step p' ev p'' \<Longrightarrow> pool_run p (evs @ [ev]) p''"

inductive_cases pool_stepE: "pool_step p ev p'"
inductive_cases pool_runE: "pool_run p evs p'"

fun submitted :: "'j pool_event list \<Rightarrow> 'j list" where
  "submitted [] = []"
| "submitted (Submitted j # evs) = j # submitted evs"
| "submitted (_ # evs) = submitted evs"

fun taken :: "'j pool_event list \<Rightarrow> 'j list" where
  "taken [] = []"
| "taken (Taken j # evs) = j # taken evs"
| "taken (_ # evs) = taken evs"

fun finished :: "'j pool_event list \<Rightarrow> 'j list" where
  "finished [] = []"
| "finished (Finished j # evs) = j # finished evs"
| "finished (_ # evs) = finished evs"

fun discarded :: "'j pool_event list \<Rightarrow> 'j list" where
  "discarded [] = []"
| "discarded (Discarded js # evs) = js @ discarded evs"
| "discarded (_ # evs) = discarded evs"

lemma event_lists_append [simp]:
  "submitted (evs @ evs') = submitted evs @ submitted evs'"
  "taken (evs @ evs') = taken evs @ taken evs'"
  "finished (evs @ evs') = finished evs @ finished evs'"
  "discarded (evs @ evs') = discarded evs @ discarded evs'"
  by (induction evs rule: submitted.induct; simp)+

text \<open>The jobs the workers are running.\<close>

definition running :: "'j worker list \<Rightarrow> 'j list" where
  "running ws = concat (map (\<lambda>w. case w of Running j \<Rightarrow> [j] | _ \<Rightarrow> []) ws)"

section \<open>The bounded queue\<close>

definition pool_inv :: "'j worker_pool \<Rightarrow> bool" where
  "pool_inv p \<longleftrightarrow>
     length (queue p) \<le> unat (max_pending p)
   \<and> (accepting p \<longleftrightarrow> stopper_at p = Stop_none)
   \<and> (stopping p \<longleftrightarrow> stopper_at p \<in> {Stop_joining, Stop_returned})
   \<and> (stopper_at p = Stop_returned \<longrightarrow> threads p = [])
   \<and> (Exited \<in> set (threads p) \<longrightarrow> stopping p \<and> queue p = [])"

lemma pool_start_inv: "pool_inv (pool_start (new_pool workers limit))"
  by (simp add: pool_inv_def pool_start_def new_pool_def)

lemma worker_take_cases:
  assumes "worker_take i p = Some p'"
  obtains (left) "queue p = []" "stopping p" "i < length (threads p)" "threads p ! i = Waiting"
      "p' = p\<lparr>threads := (threads p)[i := Exited]\<rparr>"
    | (took) job rest where "queue p = job # rest" "i < length (threads p)" "threads p ! i = Waiting"
      "p' = p\<lparr>queue := rest, threads := (threads p)[i := Running job]\<rparr>"
  using assms by (auto simp: worker_take_def split: if_splits list.splits)

lemma worker_finish_cases:
  assumes "worker_finish i p = Some p'"
  obtains job where "i < length (threads p)" "threads p ! i = Running job"
    "p' = p\<lparr>threads := (threads p)[i := Waiting], completed := completed p + 1\<rparr>"
  using assms by (auto simp: worker_finish_def split: if_splits worker.splits)

lemma in_set_update: "x \<in> set (xs[i := y]) \<Longrightarrow> x \<noteq> y \<Longrightarrow> x \<in> set xs"
  using set_update_subset_insert by fastforce

lemma try_submit_inv:
  assumes "pool_inv p" "try_submit job p = (p', b)"
  shows "pool_inv p'"
proof (cases "b")
  case True
  with assms(2) have p: "accepting p" "sz (queue p) < max_pending p" "p' = p\<lparr>queue := queue p @ [job]\<rparr>"
    by (auto simp: try_submit_def split: if_splits)
  have "length (queue p) < 2 ^ 64"
    using assms(1) unsigned_less [of "max_pending p", where 'a = nat] by (simp add: pool_inv_def)
  then have "length (queue p) < unat (max_pending p)"
    using p(2) by (simp add: word_less_nat_alt unat_sz)
  with assms(1) p show ?thesis by (auto simp: pool_inv_def)
next
  case False
  with assms show ?thesis by (auto simp: try_submit_def split: if_splits)
qed

lemma pool_step_inv: "pool_step p ev p' \<Longrightarrow> pool_inv p \<Longrightarrow> pool_inv p'"
proof (induction rule: pool_step.induct)
  case (take i p p' job rest)
  from take(1) show ?case
    by (cases rule: worker_take_cases) (use take(2,3) in \<open>auto simp: pool_inv_def dest: in_set_update\<close>)
next
  case (leave i p p')
  from leave(1) show ?case
    by (cases rule: worker_take_cases) (use leave(2,3) in \<open>auto simp: pool_inv_def\<close>)
next
  case (finish i p p' job)
  from finish(1) show ?case
    by (cases rule: worker_finish_cases) (use finish(3) in \<open>auto simp: pool_inv_def dest: in_set_update\<close>)
next
  case (stop p p' timeout)
  then show ?case by (auto simp: pool_inv_def drain_begin_def Let_def)
next
  case (wake timed_out p p')
  then show ?case by (auto simp: pool_inv_def drain_wake_def split: if_splits)
next
  case (join p p')
  then show ?case by (auto simp: pool_inv_def drain_join_def split: if_splits)
qed (auto intro: try_submit_inv)

lemma pool_run_inv: "pool_run p evs p' \<Longrightarrow> pool_inv p \<Longrightarrow> pool_inv p'"
  by (induction rule: pool_run.induct) (auto intro: pool_step_inv)

section \<open>No job is lost or run twice\<close>

lemma mset_running_update:
  assumes "i < length ws"
  shows "mset (running (ws[i := w])) + mset (running [ws ! i]) = mset (running ws) + mset (running [w])"
proof -
  have split: "running (xs @ y # ys) = running xs @ running [y] @ running ys" for xs ys :: "'a worker list" and y
    by (simp add: running_def)
  note r = arg_cong [OF id_take_nth_drop [OF assms], of running, unfolded split]
  show ?thesis
    unfolding upd_conv_take_nth_drop [OF assms] split using arg_cong [OF r, of mset] by (simp add: ac_simps)
qed

definition accounts :: "'j worker_pool \<Rightarrow> 'j pool_event list \<Rightarrow> 'j worker_pool \<Rightarrow> bool" where
  "accounts p0 evs p \<longleftrightarrow>
     queue p0 @ submitted evs = taken evs @ discarded evs @ queue p
   \<and> mset (running (threads p0)) + mset (taken evs) = mset (finished evs) + mset (running (threads p))
   \<and> (discarded evs \<noteq> [] \<longrightarrow> \<not> accepting p \<and> queue p = [])"

lemma running_simps [simp]:
  "running [] = []" "running [Waiting] = []" "running [Exited] = []" "running [Running j] = [j]"
  by (simp_all add: running_def)

lemma running_exited: "list_all (\<lambda>w. w = Exited) ws \<Longrightarrow> running ws = []"
  by (induction ws) (auto simp: running_def)

lemma pool_step_accounts:
  "pool_step p ev p' \<Longrightarrow> pool_inv p \<Longrightarrow> accounts p0 evs p \<Longrightarrow> accounts p0 (evs @ [ev]) p'"
proof (induction rule: pool_step.induct)
  case (take i p p' job rest)
  from take(1) show ?case
  proof (cases rule: worker_take_cases)
    case (took j r)
    with mset_running_update [of i "threads p" "Running job"] take show ?thesis
      by (auto simp: accounts_def)
  qed (use take(2) in simp)
next
  case (leave i p p')
  from leave(1) show ?case
  proof (cases rule: worker_take_cases)
    case left
    with mset_running_update [of i "threads p" Exited] leave show ?thesis by (auto simp: accounts_def)
  qed (use leave(2) in simp)
next
  case (finish i p p' job)
  from finish(1) show ?case
  proof (cases rule: worker_finish_cases)
    case (1 j)
    with mset_running_update [of i "threads p" Waiting] finish show ?thesis by (auto simp: accounts_def)
  qed
next
  case (join p p')
  then show ?case by (auto simp: accounts_def drain_join_def running_exited split: if_splits)
next
  case (wake timed_out p p')
  then show ?case by (auto simp: accounts_def pool_inv_def drain_wake_def split: if_splits)
qed (auto simp: accounts_def try_submit_def drain_begin_def Let_def split: if_splits)

lemma pool_run_accounts: "pool_run p evs p' \<Longrightarrow> pool_inv p \<Longrightarrow> accounts p evs p'"
proof (induction rule: pool_run.induct)
  case (run_snoc p evs p' ev p'')
  from pool_step_accounts [OF run_snoc(2) pool_run_inv [OF run_snoc(1,4)] run_snoc.IH [OF run_snoc(4)]]
  show ?case .
qed (simp add: accounts_def)

section \<open>Shutdown ends\<close>

fun worker_weight :: "'j worker \<Rightarrow> nat" where
  "worker_weight Waiting = 1"
| "worker_weight (Running j) = 2"
| "worker_weight Exited = 0"

fun stopper_weight :: "stopper \<Rightarrow> nat" where
  "stopper_weight Stop_none = 3"
| "stopper_weight Stop_waiting = 2"
| "stopper_weight Stop_joining = 1"
| "stopper_weight Stop_returned = 0"

text \<open>A bound on the number of steps a stopping pool can still take.\<close>

definition steps_left :: "'j worker_pool \<Rightarrow> nat" where
  "steps_left p = 3 * length (queue p) + sum_list (map worker_weight (threads p)) + stopper_weight (stopper_at p)"

fun is_step :: "'j pool_event \<Rightarrow> bool" where
  "is_step (Rejected j) = False"
| "is_step Stop_begun = False"
| "is_step _ = True"

lemma weight_update:
  assumes "i < length ws"
  shows "sum_list (map worker_weight (ws[i := w])) + worker_weight (ws ! i)
    = sum_list (map worker_weight ws) + worker_weight w"
proof -
  have split: "sum_list (map worker_weight (xs @ y # ys))
      = sum_list (map worker_weight xs) + worker_weight y + sum_list (map worker_weight ys)"
    for xs ys :: "'a worker list" and y by simp
  note r = arg_cong [OF id_take_nth_drop [OF assms], of "\<lambda>ws. sum_list (map worker_weight ws)", unfolded split]
  show ?thesis unfolding upd_conv_take_nth_drop [OF assms] split using r by simp
qed

lemma pool_step_decreases:
  "pool_step p ev p' \<Longrightarrow> pool_inv p \<Longrightarrow> \<not> accepting p \<Longrightarrow>
     \<not> accepting p' \<and> steps_left p' + (if is_step ev then 1 else 0) \<le> steps_left p"
proof (induction rule: pool_step.induct)
  case (take i p p' job rest)
  from take(1) show ?case
  proof (cases rule: worker_take_cases)
    case (took j r)
    with weight_update [of i "threads p" "Running job"] take show ?thesis by (simp add: steps_left_def)
  qed (use take(2) in simp)
next
  case (leave i p p')
  from leave(1) show ?case
  proof (cases rule: worker_take_cases)
    case left
    with weight_update [of i "threads p" Exited] leave show ?thesis by (simp add: steps_left_def)
  qed (use leave(2) in simp)
next
  case (finish i p p' job)
  from finish(1) show ?case
  proof (cases rule: worker_finish_cases)
    case (1 j)
    with weight_update [of i "threads p" Waiting] finish show ?thesis by (simp add: steps_left_def)
  qed
qed (auto simp: steps_left_def try_submit_def drain_begin_def drain_wake_def drain_join_def pool_inv_def
    Let_def split: if_splits)

lemma pool_run_decreases:
  "pool_run p evs p' \<Longrightarrow> pool_inv p \<Longrightarrow> \<not> accepting p \<Longrightarrow>
     \<not> accepting p' \<and> steps_left p' + length (filter is_step evs) \<le> steps_left p"
proof (induction rule: pool_run.induct)
  case (run_snoc p evs p' ev p'')
  from pool_step_decreases [OF run_snoc(2) pool_run_inv [OF run_snoc(1,4)]] run_snoc.IH run_snoc.prems
  show ?case by auto
qed simp

lemma step_enabled: "pool_step p ev p' \<Longrightarrow> is_step ev \<Longrightarrow> \<exists>ev p'. is_step ev \<and> pool_step p ev p'"
  by blast

lemma pool_progress:
  assumes "pool_inv p" "\<not> accepting p" "stopper_at p \<noteq> Stop_returned"
  shows "\<exists>ev p'. is_step ev \<and> pool_step p ev p'"
proof (cases "stopper_at p = Stop_waiting")
  case True
  then obtain p' where "drain_wake True p = Some p'" by (simp add: drain_wake_def)
  from step_enabled [OF pool_step.wake [OF this]] show ?thesis by simp
next
  case False
  with assms have j: "stopper_at p = Stop_joining" "stopping p"
    by (cases "stopper_at p"; auto simp: pool_inv_def)+
  show ?thesis
  proof (cases "list_all (\<lambda>w. w = Exited) (threads p)")
    case True
    with j obtain p' where "drain_join p = Some p'" by (simp add: drain_join_def)
    from step_enabled [OF pool_step.join [OF this]] show ?thesis by simp
  next
    case False
    then obtain i where i: "i < length (threads p)" "threads p ! i \<noteq> Exited"
      by (auto simp: list_all_length)
    show ?thesis
    proof (cases "threads p ! i")
      case Waiting
      with i j obtain p' where t: "worker_take i p = Some p'"
        by (cases "queue p") (auto simp: worker_take_def)
      show ?thesis
      proof (cases "queue p")
        case Nil
        show ?thesis by (rule step_enabled [OF pool_step.leave [OF t Nil]]) simp
      next
        case (Cons job rest)
        show ?thesis by (rule step_enabled [OF pool_step.take [OF t Cons]]) simp
      qed
    next
      case (Running job)
      then obtain p' where "worker_finish i p = Some p'" using i by (auto simp: worker_finish_def)
      from step_enabled [OF pool_step.finish [OF this Running]] show ?thesis by simp
    qed (use i in simp)
  qed
qed

lemmas pool_sections = try_submit_def worker_take_def worker_finish_def drain_begin_def drain_wake_def
  drain_join_def Let_def

lemma pool_step_max_pending: "pool_step p ev p' \<Longrightarrow> max_pending p' = max_pending p"
  by (induction rule: pool_step.induct)
    (auto simp: pool_sections split: if_splits list.splits worker.splits)

lemma pool_run_max_pending: "pool_run p evs p' \<Longrightarrow> max_pending p' = max_pending p"
  by (induction rule: pool_run.induct) (auto dest: pool_step_max_pending)

lemma pool_step_joined:
  assumes "pool_step p ev p'" "pool_inv p" "\<not> accepting p" "threads p = [] \<longrightarrow> queue p = []" "threads p' = []"
  shows "queue p' = []"
  using assms(1)
proof cases
  case join
  then have "threads p \<noteq> [] \<Longrightarrow> Exited \<in> set (threads p)" "queue p' = queue p"
    by (cases "threads p"; auto simp: drain_join_def split: if_splits)+
  with assms(2,4) show ?thesis by (auto simp: pool_inv_def)
qed (use assms(2-5) in \<open>auto simp: pool_sections pool_inv_def split: if_splits list.splits worker.splits\<close>)

lemma pool_joined:
  "pool_run p evs p' \<Longrightarrow> pool_inv p \<Longrightarrow> \<not> accepting p \<Longrightarrow> threads p \<noteq> [] \<Longrightarrow> threads p' = [] \<longrightarrow> queue p' = []"
proof (induction rule: pool_run.induct)
  case (run_snoc p evs p' ev p'')
  from pool_step_joined [OF run_snoc(2) pool_run_inv [OF run_snoc(1,4)]] pool_run_decreases [OF run_snoc(1,4,5)]
    run_snoc.IH [OF run_snoc(4,5,6)] show ?case by blast
qed simp

lemma pool_start_empty:
  "queue (pool_start (new_pool workers limit)) = []" "running (threads (pool_start (new_pool workers limit))) = []"
  by (simp_all add: pool_start_def new_pool_def running_def)

section \<open>Properties\<close>

text \<open>
  C27. Bounded queue with exactly-once execution: however producers, workers and the shutdown interleave,
  the queue never exceeds its limit; the accepted jobs are, in order of acceptance, the jobs taken, then
  the jobs discarded by the shutdown, then the jobs still queued; and every job taken is being run by
  one worker or has finished.
\<close>

theorem pool_fifo_exactly_once:
  assumes "pool_run (pool_start (new_pool workers limit)) evs p"
  shows "length (queue p) \<le> unat limit
    \<and> submitted evs = taken evs @ discarded evs @ queue p
    \<and> mset (taken evs) = mset (finished evs) + mset (running (threads p))"
proof -
  have "max_pending p = limit"
    using pool_run_max_pending [OF assms] by (simp add: pool_start_def new_pool_def)
  then show ?thesis
    using pool_run_inv [OF assms pool_start_inv] pool_run_accounts [OF assms pool_start_inv]
    by (simp add: pool_inv_def accounts_def pool_start_empty)
qed

lemma example_pool_run:
  "pool_run (pool_start (new_pool 1 1)) [Submitted 7, Rejected 8, Taken (7 :: nat)]
     \<lparr>thread_count = 1, max_pending = 1, queue = [], accepting = True, stopping = False,
      threads = [Running 7], completed = 0, stopper_at = Stop_none\<rparr>"
proof -
  let ?p = "\<lambda>q w. \<lparr>thread_count = 1, max_pending = 1, queue = q, accepting = True, stopping = False,
    threads = [w], completed = 0, stopper_at = Stop_none\<rparr> :: nat worker_pool"
  have 0: "pool_start (new_pool 1 1) = ?p [] Waiting" by (simp add: pool_start_def new_pool_def)
  have 1: "pool_step (?p [] Waiting) (Submitted 7) (?p [7] Waiting)"
    by (rule pool_step.submit) (simp add: try_submit_def sz_def)
  have 2: "pool_step (?p [7] Waiting) (Rejected 8) (?p [7] Waiting)"
    by (rule pool_step.reject) (simp add: try_submit_def sz_def)
  have 3: "pool_step (?p [7] Waiting) (Taken 7) (?p [] (Running 7))"
    by (rule pool_step.take [of 0]) (simp_all add: worker_take_def)
  show ?thesis unfolding 0
    using run_snoc [OF run_snoc [OF run_snoc [OF run_nil 1] 2] 3] by simp
qed

theorem pool_fifo_exactly_once_witness:
  "submitted [Submitted 7, Rejected 8, Taken (7 :: nat)] = taken [Submitted 7, Rejected 8, Taken 7] @ discarded [Submitted 7, Rejected 8, Taken (7 :: nat)]"
  using pool_fifo_exactly_once [OF example_pool_run] by simp

text \<open>
  C28. Shutdown ends: once \<^verbatim>\<open>drain_and_stop\<close> has begun, the pool can take only a bounded number of further
  steps besides refusing new jobs, some step is always enabled until \<^verbatim>\<open>drain_and_stop\<close> returns, and when
  it has returned all threads are joined and, if the pool had threads, no job is left in the queue.
\<close>

theorem pool_shutdown_terminates:
  assumes "pool_inv p" "\<not> accepting p" "threads p \<noteq> []" "pool_run p evs p'"
  shows "length (filter is_step evs) \<le> steps_left p
    \<and> (stopper_at p' \<noteq> Stop_returned \<longrightarrow> (\<exists>ev p''. is_step ev \<and> pool_step p' ev p''))
    \<and> (stopper_at p' = Stop_returned \<longrightarrow> threads p' = [] \<and> queue p' = [])"
proof -
  have i: "pool_inv p'" and d: "\<not> accepting p'" "steps_left p' + length (filter is_step evs) \<le> steps_left p"
    using pool_run_inv [OF assms(4,1)] pool_run_decreases [OF assms(4,1,2)] by auto
  note pool_joined [OF assms(4,1,2,3)]
  with i d pool_progress [OF i d(1)] show ?thesis by (auto simp: pool_inv_def)
qed

definition example_stopping :: "nat worker_pool" where
  "example_stopping = drain_begin 0 (fst (try_submit 7 (pool_start (new_pool 1 4))))"

lemma example_stopping_eq:
  "example_stopping = \<lparr>thread_count = 1, max_pending = 4, queue = [7], accepting = False, stopping = True,
      threads = [Waiting], completed = 0, stopper_at = Stop_joining\<rparr>"
  by (simp add: example_stopping_def drain_begin_def try_submit_def pool_start_def new_pool_def sz_def)

theorem pool_shutdown_terminates_witness:
  "length (filter is_step [] :: nat pool_event list) \<le> steps_left example_stopping
    \<and> (\<exists>ev p. is_step ev \<and> pool_step example_stopping ev p)"
  using pool_shutdown_terminates [OF _ _ _ run_nil, of example_stopping]
  by (simp add: pool_inv_def example_stopping_eq)

lemma pool_step_stopping:
  "pool_step p ev p' \<Longrightarrow> pool_inv p \<Longrightarrow> stopping p \<Longrightarrow> stopping p' \<and> submitted [ev] = [] \<and> discarded [ev] = []"
  by (induction rule: pool_step.induct)
    (auto simp: pool_sections pool_inv_def split: if_splits list.splits worker.splits)

lemma pool_run_stopping:
  "pool_run p evs p' \<Longrightarrow> pool_inv p \<Longrightarrow> stopping p \<Longrightarrow> stopping p' \<and> submitted evs = [] \<and> discarded evs = []"
proof (induction rule: pool_run.induct)
  case (run_snoc p evs p' ev p'')
  from pool_step_stopping [OF run_snoc(2) pool_run_inv [OF run_snoc(1,4)]] run_snoc.IH run_snoc.prems
  show ?case by simp
qed simp

text \<open>
  C32. A shutdown with timeout zero, which is what both destructors ask for, discards nothing: every job
  queued when it begins is still run by the workers before it returns.
\<close>

theorem zero_timeout_runs_all:
  assumes "pool_inv p" "stopper_at p = Stop_none" "threads p \<noteq> []" "timeout \<le> 0"
    and "pool_run (drain_begin timeout p) evs p'" "stopper_at p' = Stop_returned"
  shows "discarded evs = [] \<and> taken evs = queue p
    \<and> mset (finished evs) = mset (running (threads p)) + mset (queue p)"
proof -
  let ?d = "drain_begin timeout p"
  have d: "pool_inv ?d" "stopping ?d" "\<not> accepting ?d" "threads ?d = threads p" "queue ?d = queue p"
    using assms(1,2,4) by (auto simp: drain_begin_def pool_inv_def Let_def)
  have r: "threads p' = [] \<and> queue p' = []"
    using pool_joined [OF assms(5) d(1,3)] pool_run_inv [OF assms(5) d(1)] assms(3,6) d(4)
    by (auto simp: pool_inv_def)
  show ?thesis
    using pool_run_stopping [OF assms(5) d(1,2)] pool_run_accounts [OF assms(5) d(1)] r d(4,5)
    by (simp add: accounts_def)
qed

lemma example_stopping_run:
  "pool_run example_stopping [Taken 7, Finished 7, Left, Joined]
     \<lparr>thread_count = 1, max_pending = 4, queue = [], accepting = False, stopping = True,
      threads = [], completed = 1, stopper_at = Stop_returned\<rparr>"
proof -
  let ?p = "\<lambda>q ws n st. \<lparr>thread_count = 1, max_pending = 4, queue = q, accepting = False, stopping = True,
    threads = ws, completed = n, stopper_at = st\<rparr> :: nat worker_pool"
  have 1: "pool_step (?p [7] [Waiting] 0 Stop_joining) (Taken 7) (?p [] [Running 7] 0 Stop_joining)"
    by (rule pool_step.take [of 0]) (simp_all add: worker_take_def)
  have 2: "pool_step (?p [] [Running 7] 0 Stop_joining) (Finished 7) (?p [] [Waiting] 1 Stop_joining)"
    by (rule pool_step.finish [of 0]) (simp_all add: worker_finish_def)
  have 3: "pool_step (?p [] [Waiting] 1 Stop_joining) Left (?p [] [Exited] 1 Stop_joining)"
    by (rule pool_step.leave [of 0]) (simp_all add: worker_take_def)
  have 4: "pool_step (?p [] [Exited] 1 Stop_joining) Joined (?p [] [] 1 Stop_returned)"
    by (rule pool_step.join) (simp add: drain_join_def)
  show ?thesis unfolding example_stopping_eq
    using run_snoc [OF run_snoc [OF run_snoc [OF run_snoc [OF run_nil 1] 2] 3] 4] by simp
qed

theorem zero_timeout_runs_all_witness:
  "taken [Taken 7, Finished 7, Left, Joined] = queue (fst (try_submit (7 :: nat) (pool_start (new_pool 1 4))))"
proof -
  let ?p = "fst (try_submit (7 :: nat) (pool_start (new_pool 1 4)))"
  have "pool_inv ?p" "stopper_at ?p = Stop_none" "threads ?p \<noteq> []"
    by (simp_all add: pool_inv_def try_submit_def pool_start_def new_pool_def sz_def)
  from zero_timeout_runs_all [OF this _ example_stopping_run [unfolded example_stopping_def]]
  show ?thesis by simp
qed

end
