(* ===== verification/Config.thy ===== *)
theory Config
  imports LruCache Printing
begin

text \<open>
  The server configuration (\<^verbatim>\<open>include/cache/config.h\<close>, \<^verbatim>\<open>src/config.cpp\<close>): the record with its defaults,
  parsing of sizes with binary suffixes at 64 bits, range checks, the printed texts, and the command line. The command
  line is \<open>argv\<close> after the program name; a \<^verbatim>\<open>char\<close> comparison reads the character as its code.
  \<open>sizeof_sun_path\<close> is the size of the \<^verbatim>\<open>sun_path\<close> array of Linux.
\<close>

section \<open>Configuration\<close>

record server_config =
  socket_path :: string
  max_entries :: u64
  max_cache_bytes :: u64
  cfg_max_value_bytes :: u64
  cfg_max_key_bytes :: u64
  worker_threads :: u64
  max_pending_requests :: u64
  max_connections :: u64
  max_conn_output_bytes :: u64
  max_inflight_per_conn :: u64
  accept_backlog :: int
  shutdown_drain_ms :: int
  verbose :: bool

definition default_config :: server_config where
  "default_config = \<lparr>socket_path = ''/tmp/local_cache.sock'', max_entries = 100000,
     max_cache_bytes = 256 * 1024 * 1024, cfg_max_value_bytes = 1 * 1024 * 1024, cfg_max_key_bytes = 1024,
     worker_threads = 4, max_pending_requests = 65536, max_connections = 4096,
     max_conn_output_bytes = 8 * 1024 * 1024, max_inflight_per_conn = 512, accept_backlog = 512,
     shutdown_drain_ms = 2000, verbose = False\<rparr>"

definition config_cache_limits :: "server_config \<Rightarrow> cache_limits" where
  "config_cache_limits c = \<lparr>lim_max_entries = max_entries c, lim_max_bytes = max_cache_bytes c,
     lim_max_value_bytes = cfg_max_value_bytes c\<rparr>"

record config_parse_result =
  cpr_config :: "server_config option"
  cpr_error :: string
  cpr_help_requested :: bool

definition kMaxKeyBytesHardLimit :: u64 where "kMaxKeyBytesHardLimit = 64 * 1024"
definition kMaxValueBytesHardLimit :: u64 where "kMaxValueBytesHardLimit = 64 * 1024 * 1024"
definition kMaxWorkerThreads :: u64 where "kMaxWorkerThreads = 1024"
definition sizeof_sun_path :: nat where "sizeof_sun_path = 108"

section \<open>Sizes\<close>

definition size_max :: u64 where "size_max = 0xFFFFFFFFFFFFFFFF"

definition char_code :: "char \<Rightarrow> nat" where
  "char_code c = of_char c"

definition suffix_multiplier :: "char \<Rightarrow> u64 option" where
  "suffix_multiplier c =
     (if c = CHR ''k'' \<or> c = CHR ''K'' then Some 1024
      else if c = CHR ''m'' \<or> c = CHR ''M'' then Some (1024 * 1024)
      else if c = CHR ''g'' \<or> c = CHR ''G'' then Some (1024 * 1024 * 1024)
      else None)"

fun parse_digits :: "u64 \<Rightarrow> string \<Rightarrow> u64 option" where
  "parse_digits value [] = Some value"
| "parse_digits value (c # text) =
     (if char_code c < char_code CHR ''0'' \<or> char_code c > char_code CHR ''9'' then None
      else let digit = of_nat (char_code c - char_code CHR ''0'') in
        if value > (size_max - digit) div 10 then None
        else parse_digits (value * 10 + digit) text)"

definition parse_size :: "string \<Rightarrow> u64 option" where
  "parse_size text =
     (if text = [] then None
      else let (multiplier, text) =
             (case suffix_multiplier (last text) of
                Some m \<Rightarrow> (m, butlast text)
              | None \<Rightarrow> (1, text)) in
      if text = [] then None
      else case parse_digits 0 text of
        None \<Rightarrow> None
      | Some value \<Rightarrow>
          if multiplier > 1 \<and> value > size_max div multiplier then None
          else Some (value * multiplier))"

text \<open>A size for a reader.\<close>

definition human_bytes :: "u64 \<Rightarrow> string" where
  "human_bytes bytes =
     (if bytes \<ge> 1024 * 1024 * 1024
      then printf_fixed 2 (double_div (double_of_u64 bytes) (double_of_u64 (1024 * 1024 * 1024))) @ '' GiB''
      else if bytes \<ge> 1024 * 1024
      then printf_fixed 0 (double_div (double_of_u64 bytes) (double_of_u64 (1024 * 1024))) @ '' MiB''
      else if bytes \<ge> 1024 then printf_fixed 0 (double_div (double_of_u64 bytes) (double_of_u64 1024)) @ '' KiB''
      else to_string (unat bytes) @ '' B'')"

section \<open>Range checks\<close>

definition validate :: "server_config \<Rightarrow> string option" where
  "validate c =
     (if socket_path c = [] then Some ''socket path must not be empty''
      else if length (socket_path c) \<ge> sizeof_sun_path
      then Some (''socket path exceeds '' @ to_string (sizeof_sun_path - 1) @ '' bytes (AF_UNIX sun_path limit)'')
      else if max_entries c = 0 then Some ''--max-entries must be at least 1''
      else if cfg_max_value_bytes c = 0 \<or> cfg_max_value_bytes c > kMaxValueBytesHardLimit
      then Some (''--max-value-bytes must be in [1, '' @ to_string (unat kMaxValueBytesHardLimit) @ '']'')
      else if cfg_max_key_bytes c = 0 \<or> cfg_max_key_bytes c > kMaxKeyBytesHardLimit
      then Some (''--max-key-bytes must be in [1, '' @ to_string (unat kMaxKeyBytesHardLimit) @ '']'')
      else if max_cache_bytes c < cfg_max_value_bytes c + cfg_max_key_bytes c + kEntryOverheadBytes
      then Some ''--max-cache-bytes is too small to hold a single maximum-sized entry''
      else if worker_threads c = 0 \<or> worker_threads c > kMaxWorkerThreads
      then Some (''--workers must be in [1, '' @ to_string (unat kMaxWorkerThreads) @ '']'')
      else if max_pending_requests c = 0 then Some ''--max-pending must be at least 1''
      else if max_connections c = 0 then Some ''--max-connections must be at least 1''
      else if max_inflight_per_conn c = 0 then Some ''--max-inflight-per-conn must be at least 1''
      else if max_conn_output_bytes c < cfg_max_value_bytes c
      then Some ''--max-conn-output-bytes must be at least --max-value-bytes''
      else if accept_backlog c \<le> 0 then Some ''--backlog must be positive''
      else if shutdown_drain_ms c < 0 then Some ''--shutdown-drain-ms must not be negative''
      else None)"

section \<open>Texts\<close>

definition print_startup_banner :: "server_config \<Rightarrow> string" where
  "print_startup_banner c =
     ''Local Cache Service'' @ nl
     @ ''  socket:          '' @ socket_path c @ nl
     @ ''  workers:         '' @ to_string (unat (worker_threads c)) @ nl
     @ ''  max entries:     '' @ to_string (unat (max_entries c)) @ nl
     @ ''  cache capacity:  '' @ human_bytes (max_cache_bytes c) @ nl
     @ ''  max value:       '' @ human_bytes (cfg_max_value_bytes c) @ nl
     @ ''  max key:         '' @ human_bytes (cfg_max_key_bytes c) @ nl
     @ ''  max pending:     '' @ to_string (unat (max_pending_requests c)) @ nl
     @ ''  max connections: '' @ to_string (unat (max_connections c)) @ nl"

definition print_server_usage :: "string \<Rightarrow> string" where
  "print_server_usage program =
     ''Usage: '' @ program @ '' [options]'' @ nl
     @ nl
     @ ''  --socket PATH                 Unix domain socket path (default /tmp/local_cache.sock)'' @ nl
     @ ''  --max-entries N               Maximum number of cache entries'' @ nl
     @ ''  --max-cache-bytes N[k|m|g]    Maximum accounted cache bytes'' @ nl
     @ ''  --max-value-bytes N[k|m|g]    Maximum size of a single value'' @ nl
     @ ''  --max-key-bytes N             Maximum size of a single key'' @ nl
     @ ''  --workers N                   Worker threads handling cache operations'' @ nl
     @ ''  --max-pending N               Bounded work-queue depth (overflow -> SERVER_BUSY)'' @ nl
     @ ''  --max-connections N           Maximum simultaneous client connections'' @ nl
     @ ''  --max-conn-output-bytes N     Per-connection output backlog before read backpressure'' @ nl
     @ ''  --max-inflight-per-conn N     Maximum unanswered requests per connection'' @ nl
     @ ''  --backlog N                   listen() backlog'' @ nl
     @ ''  --shutdown-drain-ms N         Time allowed to drain in-flight work on shutdown'' @ nl
     @ ''  --verbose                     Enable debug logging'' @ nl
     @ ''  --help                        Show this message'' @ nl"

section \<open>Command line\<close>

definition size_option :: "string \<Rightarrow> (u64 \<Rightarrow> server_config \<Rightarrow> server_config) \<Rightarrow> server_config \<Rightarrow> bool \<times> server_config" where
  "size_option value store config =
     (case parse_size value of None \<Rightarrow> (False, config) | Some n \<Rightarrow> (True, store n config))"

text \<open>One option: the \<^verbatim>\<open>ok\<close> flag and the configuration, or \<open>None\<close> for an unknown name.\<close>

definition set_option :: "string \<Rightarrow> string \<Rightarrow> server_config \<Rightarrow> (bool \<times> server_config) option" where
  "set_option name value config =
     (if name = ''--socket'' then Some (True, config\<lparr>socket_path := value\<rparr>)
      else if name = ''--max-entries'' then Some (size_option value (\<lambda>n. max_entries_update (\<lambda>_. n)) config)
      else if name = ''--max-cache-bytes''
      then Some (size_option value (\<lambda>n. max_cache_bytes_update (\<lambda>_. n)) config)
      else if name = ''--max-value-bytes''
      then Some (size_option value (\<lambda>n. cfg_max_value_bytes_update (\<lambda>_. n)) config)
      else if name = ''--max-key-bytes''
      then Some (size_option value (\<lambda>n. cfg_max_key_bytes_update (\<lambda>_. n)) config)
      else if name = ''--workers'' then Some (size_option value (\<lambda>n. worker_threads_update (\<lambda>_. n)) config)
      else if name = ''--max-pending''
      then Some (size_option value (\<lambda>n. max_pending_requests_update (\<lambda>_. n)) config)
      else if name = ''--max-connections''
      then Some (size_option value (\<lambda>n. max_connections_update (\<lambda>_. n)) config)
      else if name = ''--max-conn-output-bytes''
      then Some (size_option value (\<lambda>n. max_conn_output_bytes_update (\<lambda>_. n)) config)
      else if name = ''--max-inflight-per-conn''
      then Some (size_option value (\<lambda>n. max_inflight_per_conn_update (\<lambda>_. n)) config)
      else if name = ''--backlog''
      then (case parse_size value of
              Some backlog \<Rightarrow>
                if backlog \<le> 65535 then Some (True, config\<lparr>accept_backlog := uint backlog\<rparr>)
                else Some (False, config)
            | None \<Rightarrow> Some (False, config))
      else if name = ''--shutdown-drain-ms''
      then (case parse_size value of
              Some drain \<Rightarrow>
                if drain \<le> 600000 then Some (True, config\<lparr>shutdown_drain_ms := uint drain\<rparr>)
                else Some (False, config)
            | None \<Rightarrow> Some (False, config))
      else None)"

text \<open>How the option loop ends: \<^verbatim>\<open>--help\<close>, a failure message, or all arguments read.\<close>

datatype args_outcome = Args_help | Args_fail string | Args_done server_config

definition split_eq :: "string \<Rightarrow> (string \<times> string) option" where
  "split_eq arg =
     (if CHR ''='' \<in> set arg
      then Some (takeWhile (\<lambda>c. c \<noteq> CHR ''='') arg, tl (dropWhile (\<lambda>c. c \<noteq> CHR ''='') arg))
      else None)"

text \<open>Name, value and remaining arguments of \<^verbatim>\<open>--opt=value\<close> or \<^verbatim>\<open>--opt value\<close>.\<close>

definition option_value :: "string \<Rightarrow> string list \<Rightarrow> (string \<times> string \<times> string list) option" where
  "option_value arg rest =
     (case split_eq arg of
        Some (name, value) \<Rightarrow> Some (name, value, rest)
      | None \<Rightarrow> (case rest of [] \<Rightarrow> None | value # rest' \<Rightarrow> Some (arg, value, rest')))"

lemma option_value_shorter:
  "option_value arg rest = Some (name, value, rest') \<Longrightarrow> length rest' \<le> length rest"
  by (auto simp: option_value_def split: option.splits list.splits)

function parse_args_loop :: "server_config \<Rightarrow> string list \<Rightarrow> args_outcome" where
  "parse_args_loop config [] = Args_done config"
| "parse_args_loop config (arg # rest) =
     (if arg = ''--help'' \<or> arg = ''-h'' then Args_help
      else if arg = ''--verbose'' then parse_args_loop (config\<lparr>verbose := True\<rparr>) rest
      else case option_value arg rest of
        None \<Rightarrow> Args_fail (''missing value for option '' @ arg)
      | Some (name, value, rest') \<Rightarrow>
          (case set_option name value config of
             None \<Rightarrow> Args_fail (''unknown option '' @ name)
           | Some (ok, config') \<Rightarrow>
               if \<not> ok then Args_fail (''invalid value for '' @ name @ '': '' @ value)
               else parse_args_loop config' rest'))"
  by pat_completeness auto
termination
  by (relation "measure (\<lambda>(config, args). length args)") (auto dest: option_value_shorter)

definition parse_server_args :: "string list \<Rightarrow> config_parse_result" where
  "parse_server_args args =
     (case parse_args_loop default_config args of
        Args_help \<Rightarrow> \<lparr>cpr_config = None, cpr_error = [], cpr_help_requested = True\<rparr>
      | Args_fail message \<Rightarrow> \<lparr>cpr_config = None, cpr_error = message, cpr_help_requested = False\<rparr>
      | Args_done config \<Rightarrow>
          (case validate config of
             Some message \<Rightarrow> \<lparr>cpr_config = None, cpr_error = message, cpr_help_requested = False\<rparr>
           | None \<Rightarrow> \<lparr>cpr_config = Some config, cpr_error = [], cpr_help_requested = False\<rparr>))"

section \<open>Sizes are exact\<close>


definition digits_value :: "nat \<Rightarrow> string \<Rightarrow> nat" where
  "digits_value n ds = foldl (\<lambda>n c. 10 * n + (char_code c - char_code CHR ''0'')) n ds"


lemma digits_value_simps [simp]:
  "digits_value n [] = n"
  "digits_value n (c # ds) = digits_value (10 * n + (char_code c - char_code CHR ''0'')) ds"
  by (simp_all add: digits_value_def)


lemma unat_size_max [simp]: "unat size_max = 2 ^ 64 - 1"
  by (simp add: size_max_def)



section \<open>What the range checks guarantee\<close>

definition config_ok :: "server_config \<Rightarrow> bool" where
  "config_ok c \<longleftrightarrow>
     0 < length (socket_path c) \<and> length (socket_path c) < sizeof_sun_path
   \<and> 0 < unat (max_entries c)
   \<and> 0 < unat (cfg_max_value_bytes c) \<and> unat (cfg_max_value_bytes c) \<le> 64 * 1024 * 1024
   \<and> 0 < unat (cfg_max_key_bytes c) \<and> unat (cfg_max_key_bytes c) \<le> 64 * 1024
   \<and> unat (cfg_max_value_bytes c) + unat (cfg_max_key_bytes c) + 128 \<le> unat (max_cache_bytes c)
   \<and> 0 < unat (worker_threads c) \<and> unat (worker_threads c) \<le> 1024
   \<and> 0 < unat (max_pending_requests c) \<and> 0 < unat (max_connections c)
   \<and> 0 < unat (max_inflight_per_conn c) \<and> unat (cfg_max_value_bytes c) \<le> unat (max_conn_output_bytes c)
   \<and> 0 < accept_backlog c \<and> 0 \<le> shutdown_drain_ms c"

lemma entry_sum_exact:
  assumes "unat v \<le> 67108864" "unat k \<le> 65536"
  shows "unat (v + k + kEntryOverheadBytes) = unat v + unat k + 128"
  using assms by (simp add: unat_word_ariths kEntryOverheadBytes_def)

lemma validate_iff: "validate c = None \<longleftrightarrow> config_ok c"
proof (cases "unat (cfg_max_value_bytes c) \<le> 67108864 \<and> unat (cfg_max_key_bytes c) \<le> 65536")
  case True
  then show ?thesis
    using entry_sum_exact [of "cfg_max_value_bytes c" "cfg_max_key_bytes c"]
    by (auto simp: validate_def config_ok_def word_less_nat_alt word_le_nat_alt unat_gt_0
        kMaxValueBytesHardLimit_def kMaxKeyBytesHardLimit_def kMaxWorkerThreads_def)
next
  case False
  then show ?thesis
    by (auto simp: validate_def config_ok_def word_less_nat_alt
        kMaxValueBytesHardLimit_def kMaxKeyBytesHardLimit_def)
qed

lemma validate_message: "validate c \<noteq> Some []"
  by (simp add: validate_def)

lemma parse_args_message: "parse_args_loop config args \<noteq> Args_fail []"
  by (induction config args rule: parse_args_loop.induct) (auto split: option.splits if_splits)

lemma set_option_bounds:
  assumes "set_option name value config = Some (ok, c)"
    and "accept_backlog config \<le> 65535" "shutdown_drain_ms config \<le> 600000"
  shows "accept_backlog c \<le> 65535 \<and> shutdown_drain_ms c \<le> 600000"
  using assms by (auto simp: set_option_def size_option_def word_le_def split: if_splits option.splits)

lemma parse_args_bounds:
  "parse_args_loop config args = Args_done c \<Longrightarrow> accept_backlog config \<le> 65535 \<Longrightarrow>
     shutdown_drain_ms config \<le> 600000 \<Longrightarrow> accept_backlog c \<le> 65535 \<and> shutdown_drain_ms c \<le> 600000"
proof (induction config args rule: parse_args_loop.induct)
  case (2 config arg rest)
  then show ?case
    by (fastforce dest: set_option_bounds split: if_splits option.splits)
qed simp

lemma split_eq_inline:
  "CHR ''='' \<notin> set name \<Longrightarrow> split_eq (name @ CHR ''='' # value) = Some (name, value)"
  "CHR ''='' \<notin> set name \<Longrightarrow> split_eq name = None"
  by (auto simp: split_eq_def takeWhile_append dropWhile_append)

text \<open>Units: the largest size below a GiB is rounded up to 1024 MiB.\<close>

lemma human_bytes_rounds_up: "human_bytes (1024 * 1024 * 1024 - 1) = ''1024 MiB''"
  by (simp add: human_bytes_def printing_eval)

lemma human_bytes_gib: "human_bytes 1610612736 = ''1.50 GiB''"
  by (simp add: human_bytes_def printing_eval)

section \<open>Properties\<close>


text \<open>
  C30. The command line yields exactly one of a configuration, a non-empty error message and a request
  for help, and a configuration it yields satisfies every range the server relies on: limits that are
  not zero, sizes within the protocol ceilings, and a cache that holds any entry of maximal size.
\<close>

theorem parse_server_args_sound:
  shows "(\<forall>c. cpr_config (parse_server_args args) = Some c \<longrightarrow>
      config_ok c \<and> accept_backlog c \<le> 65535 \<and> shutdown_drain_ms c \<le> 600000)
    \<and> (cpr_config (parse_server_args args) = None \<longleftrightarrow>
        (cpr_error (parse_server_args args) \<noteq> [] \<longleftrightarrow> \<not> cpr_help_requested (parse_server_args args)))
    \<and> \<not> (cpr_error (parse_server_args args) \<noteq> [] \<and> cpr_help_requested (parse_server_args args))"
proof (cases "parse_args_loop default_config args")
  case (Args_fail message)
  with parse_args_message [of default_config args] show ?thesis by (auto simp: parse_server_args_def)
next
  case (Args_done c)
  have "accept_backlog c \<le> 65535 \<and> shutdown_drain_ms c \<le> 600000"
    by (rule parse_args_bounds [OF Args_done]) (simp_all add: default_config_def)
  with Args_done validate_iff [of c] validate_message [of c] show ?thesis
    by (auto simp: parse_server_args_def split: option.splits)
qed (simp add: parse_server_args_def)

definition example_args :: "string list" where
  "example_args = [''--workers=8'', ''--max-cache-bytes'', ''16m'', ''--verbose'']"

theorem parse_server_args_sound_witness:
  "\<exists>c. cpr_config (parse_server_args example_args) = Some c \<and> config_ok c
    \<and> worker_threads c = 8 \<and> max_cache_bytes c = 16777216 \<and> accept_backlog c \<le> 65535"
proof -
  have "parse_server_args example_args = \<lparr>cpr_config = Some (default_config
      \<lparr>worker_threads := 8, max_cache_bytes := 16777216, verbose := True\<rparr>), cpr_error = [],
      cpr_help_requested = False\<rparr>" by code_simp
  with parse_server_args_sound [of example_args] show ?thesis by simp
qed

text \<open>
  \<^verbatim>\<open>--opt=value\<close> and \<^verbatim>\<open>--opt value\<close> mean the same at every point of the command line, for every
  option that takes a value.
\<close>

theorem inline_value_equivalent:
  assumes "CHR ''='' \<notin> set name" "name \<notin> {''--help'', ''-h'', ''--verbose''}"
  shows "parse_args_loop config ((name @ CHR ''='' # value) # rest) = parse_args_loop config (name # value # rest)"
proof -
  have eq: "CHR ''='' \<in> set arg" if "name @ CHR ''='' # value = arg" for arg
    using that by auto
  have "name @ CHR ''='' # value \<notin> {''--help'', ''-h'', ''--verbose''}"
    using eq [of "''--help''"] eq [of "''-h''"] eq [of "''--verbose''"] by auto
  then show ?thesis using assms by (simp add: option_value_def split_eq_inline)
qed

theorem inline_value_equivalent_witness:
  "parse_args_loop default_config [''--workers=8''] = parse_args_loop default_config [''--workers'', ''8'']"
  using inline_value_equivalent [of "''--workers''" default_config "''8''" "[]"] by simp

end
