(* ===== verification/Server.thy ===== *)
theory Server
  imports Connection ThreadPool Config
begin

text \<open>
  The event loop and the request handlers (\<^verbatim>\<open>include/cache/server.h\<close>, \<^verbatim>\<open>src/server.cpp\<close>), after a
  successful \<^verbatim>\<open>start\<close>. A \<^verbatim>\<open>shared_ptr<Connection>\<close> is an index into \<open>srv_heap\<close>, so the map of open
  connections, the queued jobs and the ready list share the connections they name. Handlers take the
  server and return it; \<open>None\<close> is an execution that does not go on: the kernel's answers run out, or the
  code would dereference a null pool or an invalid cache iterator.

  The kernel is part of the state: the answers it will give, in order, the interest set of the epoll
  instance, the two eventfd counters, the clock, what was written to each connection, and the files with
  whether removing one is permitted. The lines the server logs are left out; the log is the
  theory \<open>Logging\<close>.
\<close>

section \<open>State\<close>

datatype accept_outcome = Accepted int | Accept_failed errno | Accept_aborted

text \<open>A file: something else, or a socket with whether a server listens on it and its permission bits.\<close>

datatype dir_entry = Other_file | Socket_file bool u32

record kernel =
  k_recv :: "recv_outcome list"
  k_send :: "send_outcome list"
  k_ctl :: "bool list"
  k_accept :: "accept_outcome list"
  k_interest :: "int \<Rightarrow> u32 option"
  k_completion :: u64
  k_shutdown :: u64
  k_now_ms :: int
  k_uptime_ms :: u64
  k_sent :: "(nat \<times> bytes) list"
  k_files :: "string \<Rightarrow> dir_entry option"
  k_unlink_ok :: bool

record job =
  job_connection :: nat
  job_request :: request

record server =
  srv_config :: server_config
  srv_cache :: lru_cache
  srv_stats :: server_stats
  srv_pool :: "job worker_pool option"
  epoll_fd :: int
  listen_fd :: int
  shutdown_fd :: int
  completion_fd :: int
  signal_fd :: int
  connections :: "(int \<times> nat) list"
  next_connection_id :: u64
  bound_socket_path :: string
  ready_connections :: "nat list"
  srv_running :: bool
  srv_draining :: bool
  drain_deadline :: int
  srv_heap :: "connection list"
  srv_kernel :: kernel

abbreviation conn :: "server \<Rightarrow> nat \<Rightarrow> connection" where
  "conn s p \<equiv> srv_heap s ! p"

definition put_conn :: "nat \<Rightarrow> connection \<Rightarrow> server \<Rightarrow> server" where
  "put_conn p c s = s\<lparr>srv_heap := (srv_heap s)[p := c]\<rparr>"

definition upd_stats :: "(server_stats \<Rightarrow> server_stats) \<Rightarrow> server \<Rightarrow> server" where
  "upd_stats f s = s\<lparr>srv_stats := f (srv_stats s)\<rparr>"

definition upd_kernel :: "(kernel \<Rightarrow> kernel) \<Rightarrow> server \<Rightarrow> server" where
  "upd_kernel f s = s\<lparr>srv_kernel := f (srv_kernel s)\<rparr>"

definition EPOLLIN :: u32 where "EPOLLIN = 0x001"
definition EPOLLOUT :: u32 where "EPOLLOUT = 0x004"
definition EPOLLERR :: u32 where "EPOLLERR = 0x008"
definition EPOLLHUP :: u32 where "EPOLLHUP = 0x010"
definition EPOLLRDHUP :: u32 where "EPOLLRDHUP = 0x2000"

definition kBaseConnectionEvents :: u32 where "kBaseConnectionEvents = EPOLLRDHUP"
definition kDrainPollMs :: int where "kDrainPollMs = 20"

text \<open>An eventfd counter grows by one per write until it is saturated.\<close>

definition eventfd_write :: "u64 \<Rightarrow> u64" where
  "eventfd_write n = (if n \<ge> 0xFFFFFFFFFFFFFFFE then n else n + 1)"

section \<open>System calls on connections\<close>

definition flush_conn :: "nat \<Rightarrow> server \<Rightarrow> (server \<times> io_result) option" where
  "flush_conn p s =
     (case flush_output (k_send (srv_kernel s)) (conn s p) of
        None \<Rightarrow> None
      | Some (c, sent, r, rest) \<Rightarrow>
          Some (upd_kernel (\<lambda>k. k\<lparr>k_send := rest, k_sent := k_sent k @ [(p, sent)]\<rparr>) (put_conn p c s), r))"

definition read_conn :: "nat \<Rightarrow> server \<Rightarrow> (server \<times> io_result) option" where
  "read_conn p s =
     (case k_recv (srv_kernel s) of
        [] \<Rightarrow> None
      | answer # rest \<Rightarrow>
          (case read_some answer (conn s p) of (c, r) \<Rightarrow>
             Some (upd_kernel (\<lambda>k. k\<lparr>k_recv := rest\<rparr>) (put_conn p c s), r)))"

text \<open>\<^verbatim>\<open>epoll_ctl\<close> with \<^verbatim>\<open>ADD\<close> or \<^verbatim>\<open>MOD\<close>.\<close>

definition epoll_set :: "int \<Rightarrow> u32 \<Rightarrow> server \<Rightarrow> (server \<times> bool) option" where
  "epoll_set fd events s =
     (case k_ctl (srv_kernel s) of
        [] \<Rightarrow> None
      | ok # rest \<Rightarrow>
          Some (upd_kernel (\<lambda>k. k\<lparr>k_ctl := rest,
            k_interest := if ok then (k_interest k)(fd := Some events) else k_interest k\<rparr>) s, ok))"

section \<open>Closing and interest\<close>

definition close_connection :: "nat \<Rightarrow> server \<Rightarrow> server" where
  "close_connection p s =
     (if conn_closed (conn s p) then s
      else let fd = conn_fd (conn s p);
               s = (if fd \<ge> 0 \<and> epoll_fd s \<ge> 0
                    then upd_kernel (\<lambda>k. k\<lparr>k_interest := (k_interest k)(fd := None)\<rparr>) s else s);
               s = put_conn p (mark_closed (conn s p)) s;
               s = s\<lparr>connections := filter (\<lambda>e. fst e \<noteq> fd) (connections s)\<rparr>
           in upd_stats connection_closed s)"

definition wanted_events :: "bool \<Rightarrow> connection \<Rightarrow> u32" where
  "wanted_events draining c =
     (let events = kBaseConnectionEvents;
          events = (if \<not> draining \<and> \<not> read_paused c \<and> \<not> close_after_flush c then or events EPOLLIN else events)
      in if has_pending_output c then or events EPOLLOUT else events)"

definition update_interest :: "nat \<Rightarrow> server \<Rightarrow> server option" where
  "update_interest p s =
     (let events = wanted_events (srv_draining s) (conn s p) in
      if events = registered_events (conn s p) then Some s
      else case epoll_set (conn_fd (conn s p)) events s of
        None \<Rightarrow> None
      | Some (s, ok) \<Rightarrow>
          if \<not> ok then Some (close_connection p s)
          else Some (put_conn p (set_registered_events events (conn s p)) s))"

section \<open>Requests\<close>

definition send_immediate :: "nat \<Rightarrow> opcode \<Rightarrow> u64 \<Rightarrow> status \<Rightarrow> server \<Rightarrow> server" where
  "send_immediate p opcode request_id status s =
     (let frame = serialize_response \<lparr>resp_opcode = opcode, resp_status = status,
                    resp_request_id = request_id, resp_value = []\<rparr>;
          (c, ok) = enqueue_response frame False (conn s p);
          s = put_conn p c s
      in if \<not> ok then close_connection p s else s)"

definition malformed_status :: "parse_error \<Rightarrow> status" where
  "malformed_status error =
     (if error = ParseError_kValueTooLarge then Status_kValueTooLarge
      else if error = ParseError_kUnsupportedVersion then Status_kUnsupportedVersion
      else Status_kInvalidRequest)"

text \<open>The branch of \<^verbatim>\<open>process_input\<close> for a malformed frame.\<close>

definition reject_malformed :: "nat \<Rightarrow> parse_error \<Rightarrow> server \<Rightarrow> server" where
  "reject_malformed p error s =
     (let s = upd_stats record_protocol_error s;
          s = (case peek_request_header (conn s p) of
                 Some (request_id, request_opcode) \<Rightarrow>
                   send_immediate p request_opcode request_id (malformed_status error) s
               | None \<Rightarrow> s)
      in put_conn p (mark_close_after_flush (conn s p)) s)"

definition busy_frame :: "request \<Rightarrow> bytes" where
  "busy_frame request = serialize_response \<lparr>resp_opcode = req_opcode request, resp_status = Status_kServerBusy,
     resp_request_id = req_request_id request, resp_value = []\<rparr>"

lemma next_request_shorter:
  assumes "next_request c out = (c', r, req)" "pr_status r = ParseStatus_kComplete"
  shows "length (in_buf c') - in_pos c' < length (in_buf c) - in_pos c"
proof -
  obtain n where p: "deserialize_request (drop (in_pos c) (in_buf c)) (protocol_limits (conn_limits c)) out
      = (pr_complete n, req)" "r = pr_complete n"
    using assms deserialize_request_outcome [of "drop (in_pos c) (in_buf c)" "protocol_limits (conn_limits c)" out]
    by (auto simp: next_request_def Let_def split: if_splits prod.splits)
  note s = deserialize_request_sound [OF p(1)]
  have "length (take n (drop (in_pos c) (in_buf c))) \<ge> 24"
    using s by (simp only: length_serialize_request kHeaderSize_def)
  then have "0 < n" by (cases n) simp_all
  then have n: "0 < n" "n \<le> length (in_buf c) - in_pos c" using s by auto
  have "c' = (if in_pos c + n \<ge> kCompactThresholdBytes then compact_input (c\<lparr>in_pos := in_pos c + n\<rparr>)
      else c\<lparr>in_pos := in_pos c + n\<rparr>)"
    using assms(1) p by (auto simp: next_request_def Let_def)
  then show ?thesis using n by (auto simp: compact_input_def)
qed

lemma enqueue_response_input:
  "enqueue_response f b c = (c', ok) \<Longrightarrow> in_buf c' = in_buf c \<and> in_pos c' = in_pos c"
  by (auto simp: enqueue_response_def Let_def split: if_splits)

text \<open>
  The end of the loop body of \<^verbatim>\<open>process_input\<close>: the request goes to the pool, or is answered with
  \<^verbatim>\<open>kServerBusy\<close>. The flag is false when the connection was closed.
\<close>

definition submit_request :: "nat \<Rightarrow> request \<Rightarrow> server \<Rightarrow> (server \<times> bool) option" where
  "submit_request p request s =
     (let s = upd_stats record_request s;
          s = put_conn p (note_request_submitted (conn s p)) s
      in case srv_pool s of
           None \<Rightarrow> None
         | Some pool \<Rightarrow>
             (let (pool, accepted) = try_submit \<lparr>job_connection = p, job_request = request\<rparr> pool;
                  s = s\<lparr>srv_pool := Some pool\<rparr>
              in if accepted then Some (s, True)
                 else let s = upd_stats record_rejected s;
                          (c, ok) = enqueue_response (busy_frame request) True (conn s p);
                          s = put_conn p c s
                      in if \<not> ok then Some (close_connection p s, False) else Some (s, True)))"

lemma submit_request_input:
  assumes "submit_request p request s = Some (s', True)" "p < length (srv_heap s)"
  shows "in_buf (conn s' p) = in_buf (conn s p)" "in_pos (conn s' p) = in_pos (conn s p)"
  using assms
  by (auto simp: submit_request_def Let_def put_conn_def upd_stats_def note_request_submitted_def
      dest!: enqueue_response_input split: option.splits prod.splits if_splits)

lemma process_step_shorter:
  assumes "next_request (conn s p) default_request = (c, r, q)" "p < length (srv_heap s)"
    and "pr_status r \<noteq> ParseStatus_kNeedMoreData" "pr_status r \<noteq> ParseStatus_kMalformed"
    and "submit_request p q (put_conn p c s) = Some (s', True)"
  shows "length (in_buf (conn s' p)) - in_pos (conn s' p) < length (in_buf (conn s p)) - in_pos (conn s p)"
proof -
  have "pr_status r = ParseStatus_kComplete" using assms(3,4) by (cases "pr_status r") auto
  with next_request_shorter [OF assms(1)] submit_request_input [OF assms(5)] assms(2)
  show ?thesis by (simp add: put_conn_def)
qed

function process_input :: "nat \<Rightarrow> server \<Rightarrow> (server \<times> bool) option" where
  "process_input p s =
     (if \<not> p < length (srv_heap s) then None
      else if inflight_limit_reached (conn s p) then Some (s, True)
      else case next_request (conn s p) default_request of (c, result, request) \<Rightarrow>
        if pr_status result = ParseStatus_kNeedMoreData then Some (put_conn p c s, True)
        else if pr_status result = ParseStatus_kMalformed
        then Some (reject_malformed p (pr_error result) (put_conn p c s), True)
        else case submit_request p request (put_conn p c s) of
          None \<Rightarrow> None
        | Some (s', open) \<Rightarrow> if open then process_input p s' else Some (s', False))"
  by pat_completeness auto
termination
  by (relation "measure (\<lambda>(p, s). length (in_buf (conn s p)) - in_pos (conn s p))")
    (auto intro: process_step_shorter [OF sym])

declare process_input.simps [simp del]

section \<open>Jobs\<close>

definition server_stats_snapshot :: "server \<Rightarrow> stats_snapshot" where
  "server_stats_snapshot s =
     (let snapshot = stats_snapshot_at (k_uptime_ms (srv_kernel s)) (srv_stats s);
          cache_state = lru_snapshot (srv_cache s)
      in snapshot\<lparr>current_entries := snap_entries cache_state,
                  current_cache_bytes := snap_bytes cache_state,
                  current_payload_bytes := snap_payload_bytes cache_state,
                  evictions := snap_evictions cache_state\<rparr>)"

text \<open>The switch of \<^verbatim>\<open>handle_job\<close>: the cache operation, its counter and the response.\<close>

definition execute_request :: "request \<Rightarrow> server \<Rightarrow> (server \<times> response) option" where
  "execute_request request s =
     (let response = \<lparr>resp_opcode = req_opcode request, resp_status = Status_kOk,
                      resp_request_id = req_request_id request, resp_value = []\<rparr>
      in case req_opcode request of
           Opcode_kGet \<Rightarrow>
             do { (cache, hit, value) \<leftarrow> lru_get_into (srv_cache s) (req_key request) (resp_value response);
                  let s = s\<lparr>srv_cache := cache\<rparr>;
                  if hit then Some (upd_stats record_hit s, response\<lparr>resp_value := value\<rparr>)
                  else Some (upd_stats record_miss s,
                             response\<lparr>resp_status := Status_kNotFound, resp_value := []\<rparr>) }
         | Opcode_kPut \<Rightarrow>
             do { (cache, put_result) \<leftarrow> lru_put (srv_cache s) (req_key request) (req_value request);
                  let s = s\<lparr>srv_cache := cache\<rparr>;
                  (case put_result of
                     PutStatus_kStored \<Rightarrow> Some (upd_stats record_put s, response)
                   | PutStatus_kValueTooLarge \<Rightarrow> Some (s, response\<lparr>resp_status := Status_kValueTooLarge\<rparr>)
                   | PutStatus_kEntryTooLarge \<Rightarrow> Some (s, response\<lparr>resp_status := Status_kValueTooLarge\<rparr>)) }
         | Opcode_kDelete \<Rightarrow>
             do { (cache, erased) \<leftarrow> lru_erase (srv_cache s) (req_key request);
                  let s = s\<lparr>srv_cache := cache\<rparr>;
                  if erased then Some (upd_stats record_delete s, response)
                  else Some (s, response\<lparr>resp_status := Status_kNotFound\<rparr>) }
         | Opcode_kPing \<Rightarrow> Some (s, response)
         | Opcode_kStats \<Rightarrow>
             Some (s, response\<lparr>resp_value := serialize_stats (server_stats_snapshot s)\<rparr>)
         | Opcode_kClear \<Rightarrow> Some (s\<lparr>srv_cache := lru_clear (srv_cache s)\<rparr>, response))"

text \<open>
  \<^verbatim>\<open>complete_job\<close> in the four parts between which other threads can run: staging the response, the
  exchange of the notification flag, the push onto the ready list and the write to the eventfd.
\<close>

definition complete_stage :: "nat \<Rightarrow> bytes \<Rightarrow> server \<Rightarrow> server" where
  "complete_stage p frame s =
     (let (c, healthy) = enqueue_response frame True (conn s p)
      in put_conn p (if \<not> healthy then mark_close_after_flush c else c) s)"

definition complete_mark :: "nat \<Rightarrow> server \<Rightarrow> server \<times> bool" where
  "complete_mark p s = (let (c, first) = try_mark_notified (conn s p) in (put_conn p c s, first))"

definition complete_push :: "nat \<Rightarrow> server \<Rightarrow> server" where
  "complete_push p s = s\<lparr>ready_connections := ready_connections s @ [p]\<rparr>"

definition complete_wake :: "server \<Rightarrow> server" where
  "complete_wake s = upd_kernel (\<lambda>k. k\<lparr>k_completion := eventfd_write (k_completion k)\<rparr>) s"

definition complete_job :: "nat \<Rightarrow> bytes \<Rightarrow> server \<Rightarrow> server" where
  "complete_job p frame s =
     (let s = complete_stage p frame s;
          (s, first) = complete_mark p s
      in if \<not> first then s else complete_wake (complete_push p s))"

definition handle_job :: "job \<Rightarrow> server \<Rightarrow> server option" where
  "handle_job job s =
     do { (s, response) \<leftarrow> execute_request (job_request job) s;
          let frame = serialize_response_into response [];
          Some (complete_job (job_connection job) frame s) }"

section \<open>Completions\<close>

definition drain_read :: "server \<Rightarrow> server" where
  "drain_read s = upd_kernel (\<lambda>k. k\<lparr>k_completion := 0\<rparr>) s"

definition drain_swap :: "server \<Rightarrow> server \<times> nat list" where
  "drain_swap s = (s\<lparr>ready_connections := []\<rparr>, ready_connections s)"

definition drain_clear :: "nat \<Rightarrow> server \<Rightarrow> server" where
  "drain_clear p s = put_conn p (clear_notified (conn s p)) s"

text \<open>The end of both event handlers: close a finished connection, or renew its interest.\<close>

definition settle :: "nat \<Rightarrow> server \<Rightarrow> server option" where
  "settle p s =
     (if close_after_flush (conn s p) \<and> \<not> has_pending_output (conn s p) then Some (close_connection p s)
      else update_interest p s)"

definition flush_and_settle :: "nat \<Rightarrow> server \<Rightarrow> server option" where
  "flush_and_settle p s =
     (case flush_conn p s of
        None \<Rightarrow> None
      | Some (s, r) \<Rightarrow> if r = IoResult_kError then Some (close_connection p s) else settle p s)"

definition drain_flush :: "nat \<Rightarrow> server \<Rightarrow> server option" where
  "drain_flush p s = (if conn_closed (conn s p) then Some s else flush_and_settle p s)"

fun drain_ready :: "nat list \<Rightarrow> server \<Rightarrow> server option" where
  "drain_ready [] s = Some s"
| "drain_ready (p # ready) s =
     (case drain_flush p (drain_clear p s) of None \<Rightarrow> None | Some s \<Rightarrow> drain_ready ready s)"

definition drain_completions :: "server \<Rightarrow> server option" where
  "drain_completions s = (let (s, ready) = drain_swap (drain_read s) in drain_ready ready s)"

section \<open>Events of a connection\<close>

definition has_event :: "u32 \<Rightarrow> u32 \<Rightarrow> bool" where
  "has_event events wanted \<longleftrightarrow> and events wanted \<noteq> 0"

text \<open>
  The parts of \<^verbatim>\<open>handle_connection_event\<close> for a writable socket and for readable data; the flag is false
  when the handler returns.
\<close>

definition handle_writable :: "nat \<Rightarrow> u32 \<Rightarrow> server \<Rightarrow> (server \<times> bool) option" where
  "handle_writable p events s =
     (if has_event events EPOLLOUT
      then (case flush_conn p s of
              None \<Rightarrow> None
            | Some (s, r) \<Rightarrow> if r = IoResult_kError then Some (close_connection p s, False) else Some (s, True))
      else Some (s, True))"

definition handle_readable :: "nat \<Rightarrow> u32 \<Rightarrow> server \<Rightarrow> (server \<times> bool) option" where
  "handle_readable p events s =
     (if \<not> srv_draining s \<and> has_event events (or EPOLLIN EPOLLRDHUP)
      then (case read_conn p s of
              None \<Rightarrow> None
            | Some (s, r) \<Rightarrow>
                if r = IoResult_kClosed \<or> r = IoResult_kError then Some (close_connection p s, False)
                else if r = IoResult_kOk then process_input p s
                else Some (s, True))
      else Some (s, True))"

definition handle_connection_event :: "nat \<Rightarrow> u32 \<Rightarrow> server \<Rightarrow> server option" where
  "handle_connection_event p events s =
     (if has_event events (or EPOLLERR EPOLLHUP) then Some (close_connection p s)
      else if srv_draining s \<and> has_event events EPOLLRDHUP then Some (close_connection p s)
      else case handle_writable p events s of
        None \<Rightarrow> None
      | Some (s, go_on) \<Rightarrow>
          if \<not> go_on then Some s
          else (case handle_readable p events s of
                  None \<Rightarrow> None
                | Some (s, go_on) \<Rightarrow> if \<not> go_on then Some s else flush_and_settle p s))"

section \<open>New connections\<close>

definition connection_limits_of :: "server_config \<Rightarrow> connection_limits" where
  "connection_limits_of config = \<lparr>protocol_limits = \<lparr>max_key_bytes = ucast (cfg_max_key_bytes config),
       max_value_bytes = ucast (cfg_max_value_bytes config)\<rparr>,
     max_output_bytes = max_conn_output_bytes config, max_inflight = max_inflight_per_conn config\<rparr>"

definition emplace :: "int \<Rightarrow> nat \<Rightarrow> (int \<times> nat) list \<Rightarrow> (int \<times> nat) list" where
  "emplace fd p m = (if map_of m fd = None then m @ [(fd, p)] else m)"

text \<open>One accepted descriptor: rejected, dropped because epoll refuses it, or registered.\<close>

definition accept_client :: "int \<Rightarrow> server \<Rightarrow> server option" where
  "accept_client fd s =
     (if sz (connections s) \<ge> max_connections (srv_config s) then Some (upd_stats record_rejected s)
      else let c = new_connection fd (next_connection_id s) (connection_limits_of (srv_config s));
               s = s\<lparr>next_connection_id := next_connection_id s + 1\<rparr>;
               events = or EPOLLIN kBaseConnectionEvents
           in case epoll_set fd events s of
                None \<Rightarrow> None
              | Some (s, ok) \<Rightarrow>
                  if \<not> ok then Some s
                  else let p = length (srv_heap s);
                           s = s\<lparr>srv_heap := srv_heap s @ [set_registered_events events c]\<rparr>;
                           s = s\<lparr>connections := emplace fd p (connections s)\<rparr>
                       in Some (upd_stats connection_opened s))"

fun accept_loop :: "accept_outcome list \<Rightarrow> server \<Rightarrow> server option" where
  "accept_loop [] s = None"
| "accept_loop (Accept_failed EAGAIN # answers) s = Some (upd_kernel (\<lambda>k. k\<lparr>k_accept := answers\<rparr>) s)"
| "accept_loop (Accept_failed EINTR # answers) s = accept_loop answers s"
| "accept_loop (Accept_aborted # answers) s = accept_loop answers s"
| "accept_loop (Accept_failed EOTHER # answers) s = Some (upd_kernel (\<lambda>k. k\<lparr>k_accept := answers\<rparr>) s)"
| "accept_loop (Accepted fd # answers) s =
     (case accept_client fd s of None \<Rightarrow> None | Some s \<Rightarrow> accept_loop answers s)"

definition handle_listen_ready :: "server \<Rightarrow> server option" where
  "handle_listen_ready s = accept_loop (k_accept (srv_kernel s)) s"

section \<open>The loop\<close>

definition request_shutdown :: "server \<Rightarrow> server" where
  "request_shutdown s =
     (if shutdown_fd s < 0 then s
      else upd_kernel (\<lambda>k. k\<lparr>k_shutdown := eventfd_write (k_shutdown k)\<rparr>) s)"

text \<open>Closing the listening descriptor, and \<^verbatim>\<open>unlink\<close>, which reports an error only to the log.\<close>

definition unlisten :: "string \<Rightarrow> kernel \<Rightarrow> kernel" where
  "unlisten path k =
     (case k_files k path of
        Some (Socket_file _ mode) \<Rightarrow> k\<lparr>k_files := (k_files k)(path := Some (Socket_file False mode))\<rparr>
      | _ \<Rightarrow> k)"

definition unlink_file :: "string \<Rightarrow> kernel \<Rightarrow> kernel" where
  "unlink_file path k = (if k_unlink_ok k then k\<lparr>k_files := (k_files k)(path := None)\<rparr> else k)"

definition stop_listening :: "server \<Rightarrow> server" where
  "stop_listening s =
     (let s = (if listen_fd s \<ge> 0
               then let fd = listen_fd s;
                        s = (if epoll_fd s \<ge> 0
                             then upd_kernel (\<lambda>k. k\<lparr>k_interest := (k_interest k)(fd := None)\<rparr>) s else s);
                        s = (if bound_socket_path s \<noteq> [] then upd_kernel (unlisten (bound_socket_path s)) s else s)
                    in s\<lparr>listen_fd := - 1\<rparr>
               else s)
      in if bound_socket_path s \<noteq> []
         then (upd_kernel (unlink_file (bound_socket_path s)) s)\<lparr>bound_socket_path := []\<rparr> else s)"

definition drain_complete :: "server \<Rightarrow> bool" where
  "drain_complete s \<longleftrightarrow>
     \<not> (case srv_pool s of Some pool \<Rightarrow> pool_pending pool > 0 | None \<Rightarrow> False)
   \<and> list_all (\<lambda>(fd, p). \<not> (inflight (conn s p) > 0 \<or> has_pending_output (conn s p))) (connections s)"

fun update_all_interest :: "nat list \<Rightarrow> server \<Rightarrow> server option" where
  "update_all_interest [] s = Some s"
| "update_all_interest (p # ps) s =
     (case update_interest p s of None \<Rightarrow> None | Some s \<Rightarrow> update_all_interest ps s)"

definition handle_shutdown :: "server \<Rightarrow> server option" where
  "handle_shutdown s =
     (let s = upd_kernel (\<lambda>k. k\<lparr>k_shutdown := 0\<rparr>) s in
      if srv_draining s then Some s
      else let s = s\<lparr>srv_draining := True,
                     drain_deadline := k_now_ms (srv_kernel s) + shutdown_drain_ms (srv_config s)\<rparr>;
               s = stop_listening s
           in update_all_interest (map snd (connections s)) s)"

definition dispatch :: "int \<times> u32 \<Rightarrow> server \<Rightarrow> server option" where
  "dispatch ev s =
     (let (fd, events) = ev in
      if fd = listen_fd s \<and> listen_fd s \<ge> 0 then handle_listen_ready s
      else if fd = completion_fd s then drain_completions s
      else if fd = shutdown_fd s then handle_shutdown s
      else if signal_fd s \<ge> 0 \<and> fd = signal_fd s then Some (request_shutdown s)
      else case map_of (connections s) fd of
        Some p \<Rightarrow> handle_connection_event p events s
      | None \<Rightarrow> Some s)"

fun dispatch_all :: "(int \<times> u32) list \<Rightarrow> server \<Rightarrow> server option" where
  "dispatch_all [] s = Some s"
| "dispatch_all (ev # evs) s = (case dispatch ev s of None \<Rightarrow> None | Some s \<Rightarrow> dispatch_all evs s)"

text \<open>The answer of \<^verbatim>\<open>epoll_wait\<close>, and one iteration of \<^verbatim>\<open>run\<close>; the flag is false when the loop breaks.\<close>

datatype wait_outcome = Ready "(int \<times> u32) list" | Wait_failed errno

definition wait_timeout :: "server \<Rightarrow> int" where
  "wait_timeout s = (if srv_draining s then kDrainPollMs else - 1)"

definition run_iteration :: "wait_outcome \<Rightarrow> server \<Rightarrow> (server \<times> bool) option" where
  "run_iteration answer s =
     (case answer of
        Wait_failed EINTR \<Rightarrow> Some (s, True)
      | Wait_failed _ \<Rightarrow> Some (s, False)
      | Ready events \<Rightarrow>
          (case dispatch_all events s of
             None \<Rightarrow> None
           | Some s \<Rightarrow>
               Some (if srv_draining s \<and> (drain_complete s \<or> k_now_ms (srv_kernel s) \<ge> drain_deadline s)
                     then s\<lparr>srv_running := False\<rparr> else s, True)))"

text \<open>The end of \<^verbatim>\<open>run\<close>, after the pool has been stopped.\<close>

definition close_all :: "(int \<times> nat) list \<Rightarrow> server \<Rightarrow> server" where
  "close_all cs s = fold (\<lambda>(fd, p) s. upd_stats connection_closed (put_conn p (mark_closed (conn s p)) s)) cs s"

definition run_finish :: "server \<Rightarrow> server option" where
  "run_finish s =
     (case drain_completions s of
        None \<Rightarrow> None
      | Some s \<Rightarrow>
          let s = close_all (connections s) s
          in Some (s\<lparr>connections := []\<rparr>))"

end
