(* ===== verification/ConnectionStreams.thy ===== *)
theory ConnectionStreams
  imports Connection
begin

text \<open>
  What a connection does to byte streams, over any interleaving of its operations: the requests taken
  out are the frames of the bytes received, in order; the bytes sent are the responses staged, in order,
  and whatever the kernel accepts per call. The output side is the interface \<open>byte_pipe\<close>, a queue of
  bytes with a partial drain, with the connection as its instance.
\<close>

section \<open>Byte pipes\<close>

datatype 'k pipe_op = Push bytes | Pull 'k

fun pipe_run ::
  "(bytes \<Rightarrow> 'c \<Rightarrow> 'c) \<Rightarrow> ('k \<Rightarrow> 'c \<Rightarrow> ('c \<times> bytes) option) \<Rightarrow> 'c \<Rightarrow> 'k pipe_op list \<Rightarrow> ('c \<times> bytes) option" where
  "pipe_run push pull c [] = Some (c, [])"
| "pipe_run push pull c (Push f # ops) = pipe_run push pull (push f c) ops"
| "pipe_run push pull c (Pull k # ops) =
     (case pull k c of
        None \<Rightarrow> None
      | Some (c', sent) \<Rightarrow>
          (case pipe_run push pull c' ops of None \<Rightarrow> None | Some (c'', sent') \<Rightarrow> Some (c'', sent @ sent')))"

fun pushed :: "'k pipe_op list \<Rightarrow> bytes list" where
  "pushed [] = []"
| "pushed (Push f # ops) = f # pushed ops"
| "pushed (Pull k # ops) = pushed ops"

locale byte_pipe =
  fixes inv :: "'c \<Rightarrow> bool"
    and buffered :: "'c \<Rightarrow> bytes"
    and push :: "bytes \<Rightarrow> 'c \<Rightarrow> 'c"
    and pull :: "'k \<Rightarrow> 'c \<Rightarrow> ('c \<times> bytes) option"
  assumes push_law: "inv c \<Longrightarrow> inv (push f c) \<and> buffered (push f c) = buffered c @ f"
    and pull_law: "inv c \<Longrightarrow> pull k c = Some (c', sent) \<Longrightarrow> inv c' \<and> buffered c = sent @ buffered c'"
begin

lemma fifo:
  "inv c \<Longrightarrow> pipe_run push pull c ops = Some (c', sent) \<Longrightarrow>
     inv c' \<and> buffered c @ concat (pushed ops) = sent @ buffered c'"
proof (induction ops arbitrary: c sent)
  case Nil
  then show ?case by simp
next
  case (Cons op ops)
  show ?case
  proof (cases op)
    case (Push f)
    with Cons.prems push_law [of c f] have p: "inv (push f c)" "buffered (push f c) = buffered c @ f" by auto
    from Cons.IH [OF p(1)] Push Cons.prems p(2) show ?thesis by simp
  next
    case (Pull k)
    with Cons.prems(2) obtain d s s' where d: "pull k c = Some (d, s)"
      "pipe_run push pull d ops = Some (c', s')" "sent = s @ s'"
      by (auto split: option.splits)
    from pull_law [OF Cons.prems(1) d(1)] have p: "inv d" "buffered c = s @ buffered d" by auto
    from Cons.IH [OF p(1) d(2)] Pull p(2) d(3) show ?thesis by simp
  qed
qed

end

definition stage :: "bytes \<Rightarrow> connection \<Rightarrow> connection" where
  "stage frame c = fst (enqueue_response frame True c)"

definition flush :: "send_outcome list \<Rightarrow> connection \<Rightarrow> (connection \<times> bytes) option" where
  "flush answers c = map_option (\<lambda>(c', sent, _, _). (c', sent)) (flush_output answers c)"

interpretation out_pipe: byte_pipe "\<lambda>c. conn_inv c \<and> \<not> conn_closed c" unsent stage flush
proof
  show "(conn_inv (stage f c) \<and> \<not> conn_closed (stage f c)) \<and> unsent (stage f c) = unsent c @ f"
    if "conn_inv c \<and> \<not> conn_closed c" for c f
    using that enqueue_response_open [of c f True]
    by (cases "enqueue_response f True c") (simp add: stage_def)
  show "(conn_inv c' \<and> \<not> conn_closed c') \<and> unsent c = sent @ unsent c'"
    if "conn_inv c \<and> \<not> conn_closed c" "flush k c = Some (c', sent)" for k c c' sent
    using that flush_output_ok [of c k c' sent] same_but_output_fields [of c c']
    by (auto simp: flush_def flush_ok_def)
qed

section \<open>The request stream\<close>

datatype input_op = In_read recv_outcome | In_next

text \<open>The connection, the bytes received, the requests taken out and the parse results, oldest first.\<close>

fun input_run :: "connection \<Rightarrow> input_op list \<Rightarrow> connection \<times> bytes \<times> request list" where
  "input_run c [] = (c, [], [])"
| "input_run c (In_read a # ops) =
     (case input_run (fst (read_some a c)) ops of (c', bs, rs) \<Rightarrow>
        (c', (case a of Received chunk \<Rightarrow> take kReadChunkBytes chunk | Recv_failed _ \<Rightarrow> []) @ bs, rs))"
| "input_run c (In_next # ops) =
     (case next_request c default_request of (c', r, req) \<Rightarrow>
        (case input_run c' ops of (c'', bs, rs) \<Rightarrow>
           (c'', bs, if pr_status r = ParseStatus_kComplete then req # rs else rs)))"

lemma read_some_limits [simp]: "conn_limits (fst (read_some a c)) = conn_limits c"
  by (auto simp: read_some_def Let_def split: recv_outcome.split errno.split)

lemma next_request_frame:
  assumes "conn_inv c" "next_request c out = (c', r, req)"
  shows "if pr_status r = ParseStatus_kComplete
    then request_ok (protocol_limits (conn_limits c)) req \<and> unread c = serialize_request req @ unread c'
    else unread c' = unread c"
proof -
  note u = next_request_unread [OF assms]
  then have p: "parse_unread c out = (r, req)" by simp
  have "r = pr_need_more \<or> (\<exists>n. r = pr_complete n) \<or> (\<exists>e. r = pr_malformed e)"
    using deserialize_request_outcome [of "unread c" "protocol_limits (conn_limits c)" out] p by auto
  then show ?thesis
  proof (elim disjE exE)
    fix n
    assume r: "r = pr_complete n"
    with deserialize_request_sound p have
      "request_ok (protocol_limits (conn_limits c)) req" "take n (unread c) = serialize_request req" by blast+
    with r u show ?thesis by simp (metis append_take_drop_id)
  qed (use u in simp_all)
qed

lemma input_run_frames:
  "conn_inv c \<Longrightarrow> input_run c ops = (c', bs, rs) \<Longrightarrow>
     conn_inv c' \<and> conn_limits c' = conn_limits c
     \<and> list_all (request_ok (protocol_limits (conn_limits c))) rs
     \<and> unread c @ bs = concat (map serialize_request rs) @ unread c'"
proof (induction ops arbitrary: c bs rs)
  case Nil
  then show ?case by simp
next
  case (Cons op ops)
  show ?case
  proof (cases op)
    case (In_read a)
    note u = read_some_unread [OF Cons.prems(1), of a]
    let ?d = "fst (read_some a c)"
    obtain bs' where i: "input_run ?d ops = (c', bs', rs)"
      "unread c @ bs = unread ?d @ bs'"
      using In_read Cons.prems(2) u by (cases "input_run ?d ops") auto
    from Cons.IH [OF _ i(1)] u i(2) show ?thesis by simp
  next
    case In_next
    obtain d r req where n: "next_request c default_request = (d, r, req)"
      by (cases "next_request c default_request")
    note u = next_request_unread [OF Cons.prems(1) n] and f = next_request_frame [OF Cons.prems(1) n]
    obtain rs' where i: "input_run d ops = (c', bs, rs')"
      "rs = (if pr_status r = ParseStatus_kComplete then req # rs' else rs')"
      using In_next Cons.prems(2) n by (cases "input_run d ops") auto
    from Cons.IH [OF _ i(1)] u have "conn_inv c' \<and> conn_limits c' = conn_limits c
      \<and> list_all (request_ok (protocol_limits (conn_limits c))) rs'
      \<and> unread d @ bs = concat (map serialize_request rs') @ unread c'" by simp
    with f i(2) show ?thesis by (cases "pr_status r = ParseStatus_kComplete") simp_all
  qed
qed

section \<open>Properties\<close>

text \<open>
  C25. Whatever the sizes of the reads and wherever the parser is called between them, the requests a
  connection takes out are the frames of the bytes it received, in order and each exactly once; the
  bytes left are the rest of that stream, and less than 32 KiB of consumed bytes are kept in the buffer.
\<close>

theorem request_stream_integrity:
  assumes "input_run (new_connection fd ident lim) ops = (c, bs, rs)"
  shows "list_all (request_ok (protocol_limits lim)) rs
    \<and> bs = concat (map serialize_request rs) @ unread c
    \<and> fst (drain (\<lambda>input. deserialize_request input (protocol_limits lim) default_request) bs)
        = rs @ fst (drain (\<lambda>input. deserialize_request input (protocol_limits lim) default_request) (unread c))
    \<and> in_pos c \<le> length (in_buf c) \<and> in_pos c < kCompactThresholdBytes"
proof -
  note n = new_connection_inv [of fd ident lim]
  have l: "conn_limits (new_connection fd ident lim) = lim" by (simp add: new_connection_def)
  from input_run_frames [OF _ assms] n l have f: "list_all (request_ok (protocol_limits lim)) rs"
    "bs = concat (map serialize_request rs) @ unread c" "conn_inv c" by auto
  with req_codec.drain_frames [OF f(1), of "unread c"] show ?thesis
    by (auto simp: conn_inv_def split: prod.splits)
qed

definition example_request :: request where
  "example_request = \<lparr>req_opcode = Opcode_kGet, req_request_id = 8, req_key = [107], req_value = []\<rparr>"

definition example_reads :: "input_op list" where
  "example_reads = [In_read (Recv_failed EINTR), In_read (Received (serialize_request example_request @ [76, 67])),
     In_next]"

lemma example_request_ok: "request_ok default_limits example_request" "length (serialize_request example_request) = 25"
  by (simp_all add: request_ok_def example_request_def kHeaderSize_def unat_effective_limit default_limits_def)

lemma example_reads_run:
  "snd (input_run (new_connection 5 1 default_connection_limits) example_reads)
     = (serialize_request example_request @ [76, 67], [example_request])"
proof -
  define f where "f = serialize_request example_request"
  have l: "length f = 25" unfolding f_def by (rule example_request_ok)
  have d: "deserialize_request (f @ [76, 67]) default_limits default_request = (pr_complete 25, example_request)"
    unfolding f_def deserialize_serialize_request [OF example_request_ok(1)] example_request_ok(2) ..
  show ?thesis unfolding example_reads_def f_def [symmetric]
    by (simp add: read_some_def new_connection_def next_request_def kReadChunkBytes_def l d
        default_connection_limits_def compact_input_def kCompactThresholdBytes_def)
qed

theorem request_stream_integrity_witness:
  "\<exists>c. input_run (new_connection 5 1 default_connection_limits) example_reads
        = (c, serialize_request example_request @ [76, 67], [example_request])
    \<and> unread c = [76, 67] \<and> in_pos c < kCompactThresholdBytes"
proof -
  obtain c where r: "input_run (new_connection 5 1 default_connection_limits) example_reads
      = (c, serialize_request example_request @ [76, 67], [example_request])"
    using example_reads_run by (metis prod.collapse)
  from request_stream_integrity [OF this] r show ?thesis by simp
qed

text \<open>
  C26. Whatever the kernel accepts per call, the bytes sent followed by the bytes still held are the
  frames staged, in order; a reader of the sent bytes decodes a prefix of the responses staged.
\<close>

theorem response_stream_fifo:
  assumes "pipe_run stage flush (new_connection fd ident lim) ops = Some (c, sent)"
    and "pushed ops = map serialize_response rs" "list_all (response_ok plim) rs"
  shows "concat (map serialize_response rs) = sent @ unsent c
    \<and> (\<exists>k. fst (drain (\<lambda>input. deserialize_response input plim default_response) sent) = take k rs)"
proof -
  let ?dec = "\<lambda>input. deserialize_response input plim default_response"
  have o: "\<not> conn_closed (new_connection fd ident lim)" by (simp add: new_connection_def)
  from out_pipe.fifo [OF _ assms(1)] assms(2) new_connection_inv [of fd ident lim] o
  have s: "concat (map serialize_response rs) = sent @ unsent c" by auto
  have e: "fst (drain ?dec []) = []" by (subst resp_codec.drain_stop) (simp_all add: deserialize_response_eq kHeaderSize_def)
  obtain xs rest r ys where d: "drain ?dec sent = (xs, rest, r)" "fst (drain ?dec (rest @ unsent c)) = ys"
    by (cases "drain ?dec sent") auto
  have "rs = fst (drain ?dec (sent @ unsent c))"
    using resp_codec.drain_frames [OF assms(3), of "[]"] s e by (auto split: prod.splits)
  also have "\<dots> = xs @ ys"
    using resp_codec.drain_append [OF d(1), of "unsent c"] d(2) by (auto split: prod.splits)
  finally have "xs = take (length xs) rs" by simp
  with s d(1) show ?thesis by auto
qed

definition example_response :: response where
  "example_response = \<lparr>resp_opcode = Opcode_kPing, resp_status = Status_kOk, resp_request_id = 3, resp_value = []\<rparr>"

definition example_writes :: "send_outcome list pipe_op list" where
  "example_writes = [Push (serialize_response example_response), Pull [Sent 5, Send_failed EINTR, Send_failed EAGAIN]]"

lemma length_example_response: "length (serialize_response example_response) = 24"
  by (simp add: example_response_def kHeaderSize_def)

lemma example_writes_run:
  "map_option snd (pipe_run stage flush (new_connection 5 1 default_connection_limits) example_writes)
     = Some (take 5 (serialize_response example_response))"
proof -
  define f where "f = serialize_response example_response"
  have "length f = 24" unfolding f_def by (rule length_example_response)
  then have "f \<noteq> []" "length f = 24" by auto
  then show ?thesis unfolding example_writes_def f_def [symmetric]
    by (simp add: stage_def flush_def enqueue_response_def new_connection_def Let_def flush_output.simps
        refill_write_buf_def)
qed

theorem response_stream_fifo_witness:
  "\<exists>c. pipe_run stage flush (new_connection 5 1 default_connection_limits) example_writes
        = Some (c, take 5 (serialize_response example_response))
    \<and> unsent c = drop 5 (serialize_response example_response)"
proof -
  obtain c where r: "pipe_run stage flush (new_connection 5 1 default_connection_limits) example_writes
      = Some (c, take 5 (serialize_response example_response))"
    using example_writes_run by auto
  have p: "pushed example_writes = map serialize_response [example_response]"
    by (simp add: example_writes_def)
  have "list_all (response_ok default_limits) [example_response]"
    by (simp add: response_ok_def example_response_def)
  with response_stream_fifo [OF r p]
  have "serialize_response example_response = take 5 (serialize_response example_response) @ unsent c" by simp
  then show ?thesis using r by (metis append_take_drop_id same_append_eq)
qed

text \<open>
  C29. Flushing ends and is exact: given more answers of the kernel other than \<^verbatim>\<open>EINTR\<close> than there are
  unsent bytes, \<^verbatim>\<open>flush_output\<close> returns; it reports \<^verbatim>\<open>kOk\<close> exactly when nothing is left to send, what it
  sent is a prefix of what was to be sent, and it changes no other part of the connection.
\<close>

theorem flush_output_total:
  assumes "conn_inv c" "length (unsent c) < length (filter (\<lambda>a. a \<noteq> Send_failed EINTR) answers)"
  shows "\<exists>c' sent r rest. flush_output answers c = Some (c', sent, r, rest)
    \<and> conn_inv c' \<and> unsent c = sent @ unsent c' \<and> same_but_output c c'
    \<and> (r = IoResult_kOk \<longleftrightarrow> unsent c' = [])"
proof -
  from flush_output_returns [OF assms] obtain c' sent r rest where
    f: "flush_output answers c = Some (c', sent, r, rest)" by blast
  from flush_output_ok [OF assms(1) f] f show ?thesis
    by (auto simp: flush_ok_def)
qed

definition example_backlog :: connection where
  "example_backlog = stage [1, 2, 3] (new_connection 5 1 default_connection_limits)"

theorem flush_output_total_witness:
  "\<exists>c' sent r rest. flush_output [Sent 1, Sent 1, Sent 1, Send_failed EAGAIN] example_backlog = Some (c', sent, r, rest)
    \<and> conn_inv c' \<and> unsent example_backlog = sent @ unsent c' \<and> unsent example_backlog = [1, 2, 3]
    \<and> (r = IoResult_kOk \<longleftrightarrow> unsent c' = [])"
proof -
  have b: "unsent example_backlog = [1, 2, 3]" by code_simp
  have i: "conn_inv example_backlog"
    using out_pipe.push_law [of "new_connection 5 1 default_connection_limits" "[1, 2, 3]"]
      new_connection_inv [of 5 1 default_connection_limits]
    by (simp add: example_backlog_def) (simp add: new_connection_def)
  show ?thesis using flush_output_total [OF i, of "[Sent 1, Sent 1, Sent 1, Send_failed EAGAIN]"] b by auto
qed

text \<open>
  The doubled limit is a 64-bit number: a limit of \<open>2 ^ 63\<close> bytes, which the configuration accepts, doubles to zero,
  and then every response is over it.
\<close>

lemma output_cap_wraps:
  assumes "max_output_bytes (conn_limits c) = 2 ^ 63" "pending_output_bytes c = 0" "0 < length frame" "length frame < 2 ^ 64"
  shows "\<not> snd (enqueue_response frame b c)"
proof -
  have "(2 ^ 63 * 2 :: u64) = 0" by (simp add: word_unat_eq_iff)
  then have "max_output_bytes (conn_limits c) * 2 = 0" by (simp only: assms(1))
  moreover have "sz frame > 0" using assms(3,4) by (simp add: sz_def word_less_nat_alt unat_of_nat take_bit_nat_eq_self)
  ultimately show ?thesis using assms(2) by (simp add: enqueue_response_def Let_def)
qed

text \<open>
  Backlog accounting: on an open connection a response is always staged behind the earlier output,
  and the verdict is negative exactly when the backlog exceeds twice the configured limit, provided that
  the doubled limit fits 64 bits; on a closed connection nothing is staged and the verdict is negative.
  A completed request leaves the in-flight count in every case.
\<close>

theorem enqueue_response_backlog:
  assumes "conn_inv c" "length (unsent c) + length frame < 2 ^ 64"
    and "unat (max_output_bytes (conn_limits c)) < 2 ^ 63" "enqueue_response frame b c = (c', ok)"
  shows "conn_inv c' \<and> unsent c' = (if conn_closed c then unsent c else unsent c @ frame)
    \<and> (ok \<longleftrightarrow> \<not> conn_closed c \<and> length (unsent c') \<le> 2 * unat (max_output_bytes (conn_limits c)))
    \<and> inflight c' = (if b then inflight c - 1 else inflight c)"
proof (cases "conn_closed c")
  case True
  from enqueue_response_closed [OF this assms(4)] assms(1) True show ?thesis
    by (auto simp: conn_inv_def unsent_def)
next
  case False
  have "unat (max_output_bytes (conn_limits c) * 2) = 2 * unat (max_output_bytes (conn_limits c))"
    using assms(3) by (simp add: unat_word_ariths)
  moreover have "conn_inv c' \<Longrightarrow> unsent c' = unsent c @ frame \<Longrightarrow>
      unat (pending_output_bytes c') = length (unsent c')"
    using assms(2) unat_sz [of "unsent c'", unfolded sz_def] unfolding conn_inv_def by simp
  ultimately show ?thesis
    using enqueue_response_open [OF assms(1) False assms(4)] False by (auto simp: word_le_nat_alt)
qed

theorem enqueue_response_backlog_witness:
  "snd (enqueue_response [9] True example_backlog)
    \<and> unsent (fst (enqueue_response [9] True example_backlog)) = [1, 2, 3, 9]"
proof -
  have b: "unsent example_backlog = [1, 2, 3]" "\<not> conn_closed example_backlog"
    "max_output_bytes (conn_limits example_backlog) = 8388608" by code_simp+
  have i: "conn_inv example_backlog"
    using out_pipe.push_law [of "new_connection 5 1 default_connection_limits" "[1, 2, 3]"]
      new_connection_inv [of 5 1 default_connection_limits]
    by (simp add: example_backlog_def) (simp add: new_connection_def)
  from enqueue_response_backlog [OF i, of "[9]" True] b show ?thesis
    by (cases "enqueue_response [9] True example_backlog") simp
qed

end
