(* ===== verification/ServerFrames.thy ===== *)
theory ServerFrames
  imports Server ConnectionStreams
begin

text \<open>
  What the handlers of one connection leave alone, and the state they leave that connection in. A
  handler of connection \<open>p\<close> changes no other connection, neither the ready list nor the completion
  counter, and it ends with \<open>p\<close> closed or with its output interest registered exactly when output is
  pending.
\<close>

section \<open>Handlers of one connection\<close>

abbreviation threads_of :: "server \<Rightarrow> job worker list" where
  "threads_of s \<equiv> (case srv_pool s of Some pool \<Rightarrow> threads pool | None \<Rightarrow> [])"

abbreviation stopper_of :: "server \<Rightarrow> stopper option" where
  "stopper_of s \<equiv> map_option stopper_at (srv_pool s)"

definition touch :: "nat \<Rightarrow> server \<Rightarrow> server \<Rightarrow> bool" where
  "touch p s s' \<longleftrightarrow>
     length (srv_heap s') = length (srv_heap s)
   \<and> (\<forall>q. q \<noteq> p \<longrightarrow> conn s' q = conn s q)
   \<and> notify_pending (conn s' p) = notify_pending (conn s p)
   \<and> conn_fd (conn s' p) = conn_fd (conn s p) \<and> conn_limits (conn s' p) = conn_limits (conn s p)
   \<and> (conn_closed (conn s p) \<longrightarrow> conn_closed (conn s' p))
   \<and> srv_config s' = srv_config s \<and> srv_cache s' = srv_cache s
   \<and> ready_connections s' = ready_connections s \<and> srv_draining s' = srv_draining s
   \<and> epoll_fd s' = epoll_fd s \<and> threads_of s' = threads_of s \<and> stopper_of s' = stopper_of s
   \<and> listen_fd s' = listen_fd s \<and> bound_socket_path s' = bound_socket_path s
   \<and> k_completion (srv_kernel s') = k_completion (srv_kernel s)"

lemma touch_refl [simp]: "touch p s s"
  by (simp add: touch_def)

lemma touch_trans: "touch p s s' \<Longrightarrow> touch p s' s'' \<Longrightarrow> touch p s s''"
  by (auto simp: touch_def)

lemma touch_put_conn:
  assumes "notify_pending c = notify_pending (conn s p)" "conn_fd c = conn_fd (conn s p)"
    and "conn_limits c = conn_limits (conn s p)" "conn_closed (conn s p) \<longrightarrow> conn_closed c"
  shows "touch p s (put_conn p c s)"
  using assms by (cases "p < length (srv_heap s)") (simp_all add: touch_def put_conn_def list_update_beyond)

lemma conn_put_conn [simp]:
  "p < length (srv_heap s) \<Longrightarrow> conn (put_conn p c s) p = c"
  "q \<noteq> p \<Longrightarrow> conn (put_conn p c s) q = conn s q"
  "length (srv_heap (put_conn p c s)) = length (srv_heap s)"
  by (simp_all add: put_conn_def)

lemma put_conn_fields [simp]:
  "srv_config (put_conn p c s) = srv_config s" "srv_cache (put_conn p c s) = srv_cache s"
  "srv_stats (put_conn p c s) = srv_stats s" "srv_pool (put_conn p c s) = srv_pool s"
  "connections (put_conn p c s) = connections s" "ready_connections (put_conn p c s) = ready_connections s"
  "srv_draining (put_conn p c s) = srv_draining s" "srv_kernel (put_conn p c s) = srv_kernel s"
  "epoll_fd (put_conn p c s) = epoll_fd s" "completion_fd (put_conn p c s) = completion_fd s"
  "listen_fd (put_conn p c s) = listen_fd s" "bound_socket_path (put_conn p c s) = bound_socket_path s"
  by (simp_all add: put_conn_def)

lemma upd_fields [simp]:
  "srv_heap (upd_stats f s) = srv_heap s" "srv_config (upd_stats f s) = srv_config s"
  "srv_cache (upd_stats f s) = srv_cache s" "srv_stats (upd_stats f s) = f (srv_stats s)"
  "srv_pool (upd_stats f s) = srv_pool s" "connections (upd_stats f s) = connections s"
  "ready_connections (upd_stats f s) = ready_connections s" "srv_draining (upd_stats f s) = srv_draining s"
  "srv_kernel (upd_stats f s) = srv_kernel s" "epoll_fd (upd_stats f s) = epoll_fd s"
  "completion_fd (upd_stats f s) = completion_fd s"
  "listen_fd (upd_stats f s) = listen_fd s" "bound_socket_path (upd_stats f s) = bound_socket_path s"
  "srv_heap (upd_kernel g s) = srv_heap s" "srv_config (upd_kernel g s) = srv_config s"
  "srv_cache (upd_kernel g s) = srv_cache s" "srv_stats (upd_kernel g s) = srv_stats s"
  "srv_pool (upd_kernel g s) = srv_pool s" "connections (upd_kernel g s) = connections s"
  "ready_connections (upd_kernel g s) = ready_connections s" "srv_draining (upd_kernel g s) = srv_draining s"
  "srv_kernel (upd_kernel g s) = g (srv_kernel s)" "epoll_fd (upd_kernel g s) = epoll_fd s"
  "completion_fd (upd_kernel g s) = completion_fd s"
  "listen_fd (upd_kernel g s) = listen_fd s" "bound_socket_path (upd_kernel g s) = bound_socket_path s"
  by (simp_all add: upd_stats_def upd_kernel_def)

section \<open>Fields a connection operation keeps\<close>

lemma mark_closed_fields [simp]:
  "conn_fd (mark_closed c) = conn_fd c" "conn_limits (mark_closed c) = conn_limits c"
  "inflight (mark_closed c) = inflight c" "conn_closed (mark_closed c)"
  "notify_pending (mark_closed c) = notify_pending c"
  by (simp_all add: mark_closed_def)

lemma set_registered_events_fields [simp]:
  "conn_fd (set_registered_events e c) = conn_fd c" "conn_limits (set_registered_events e c) = conn_limits c"
  "inflight (set_registered_events e c) = inflight c" "conn_closed (set_registered_events e c) = conn_closed c"
  "notify_pending (set_registered_events e c) = notify_pending c"
  "has_pending_output (set_registered_events e c) = has_pending_output c"
  "registered_events (set_registered_events e c) = e"
  by (simp_all add: set_registered_events_def has_pending_output_def)

lemma mark_close_after_flush_fields [simp]:
  "conn_fd (mark_close_after_flush c) = conn_fd c" "conn_limits (mark_close_after_flush c) = conn_limits c"
  "inflight (mark_close_after_flush c) = inflight c" "conn_closed (mark_close_after_flush c) = conn_closed c"
  "notify_pending (mark_close_after_flush c) = notify_pending c"
  by (simp_all add: mark_close_after_flush_def)

lemma read_some_fields:
  assumes "read_some a c = (c', r)"
  shows "\<exists>b. c' = c\<lparr>in_buf := b\<rparr>"
proof -
  have "c' = c\<lparr>in_buf := in_buf c'\<rparr>"
    using assms by (auto simp: read_some_def Let_def split: recv_outcome.splits errno.splits if_splits)
  then show ?thesis by blast
qed

lemma next_request_fields:
  assumes "next_request c out = (c', r, req)"
  shows "\<exists>b n. c' = c\<lparr>in_buf := b, in_pos := n\<rparr>"
proof -
  have "c' = c\<lparr>in_buf := in_buf c', in_pos := in_pos c'\<rparr>"
    using assms by (auto simp: next_request_def compact_input_def Let_def split: prod.splits if_splits)
  then show ?thesis by blast
qed

lemma enqueue_response_fields:
  assumes "enqueue_response f b c = (c', ok)"
  shows "\<exists>st po. c' = c\<lparr>staged := st, pending_output_bytes := po, inflight := if b then inflight c - 1 else inflight c\<rparr>"
proof -
  have "c' = c\<lparr>staged := staged c', pending_output_bytes := pending_output_bytes c',
      inflight := if b then inflight c - 1 else inflight c\<rparr>"
    using assms by (auto simp: enqueue_response_def Let_def split: if_splits)
  then show ?thesis by blast
qed

lemma enqueue_response_inv:
  assumes "conn_inv c" "enqueue_response f b c = (c', ok)"
  shows "conn_inv c'"
proof (cases "conn_closed c")
  case True
  from enqueue_response_closed [OF this assms(2)] assms(1) show ?thesis
    by (auto simp: conn_inv_def unsent_def)
next
  case False
  from enqueue_response_open [OF assms(1) False assms(2)] show ?thesis by simp
qed

section \<open>Invariant of the server\<close>

text \<open>
  The connection table lists exactly the open connections under their descriptors, and the statistics
  count them.
\<close>

definition table_inv :: "server \<Rightarrow> bool" where
  "table_inv s \<longleftrightarrow>
     distinct (map fst (connections s))
   \<and> (\<forall>fd p. (fd, p) \<in> set (connections s) \<longleftrightarrow>
        p < length (srv_heap s) \<and> conn_fd (conn s p) = fd \<and> \<not> conn_closed (conn s p))
   \<and> st_active_connections (srv_stats s) = of_nat (length (connections s))"

definition heap_inv :: "server \<Rightarrow> bool" where
  "heap_inv s \<longleftrightarrow>
     (\<forall>p < length (srv_heap s). conn_inv (conn s p) \<and> conn_limits (conn s p) = connection_limits_of (srv_config s))"

text \<open>
  The in-flight count of a connection is the number of its jobs that are queued or, as \<open>extra\<close> says,
  taken by a worker and not yet answered; it never exceeds the configured limit.
\<close>

definition queued :: "nat \<Rightarrow> server \<Rightarrow> nat" where
  "queued p s = (case srv_pool s of None \<Rightarrow> 0 | Some pool \<Rightarrow> length (filter (\<lambda>j. job_connection j = p) (queue pool)))"

definition inflight_inv :: "(nat \<Rightarrow> nat) \<Rightarrow> server \<Rightarrow> bool" where
  "inflight_inv extra s \<longleftrightarrow>
     (\<forall>p < length (srv_heap s).
        unat (inflight (conn s p)) = queued p s + extra p
      \<and> queued p s + extra p \<le> unat (max_inflight_per_conn (srv_config s)))
   \<and> (\<forall>p \<ge> length (srv_heap s). extra p = 0)"

text \<open>A job names a connection and carries a request within the limits.\<close>

definition job_ok :: "server \<Rightarrow> job \<Rightarrow> bool" where
  "job_ok s j \<longleftrightarrow>
     job_connection j < length (srv_heap s)
   \<and> request_ok (protocol_limits (connection_limits_of (srv_config s))) (job_request j)"

definition pool_ok :: "server \<Rightarrow> bool" where
  "pool_ok s \<longleftrightarrow> (\<exists>pool. srv_pool s = Some pool \<and> pool_inv pool \<and> list_all (job_ok s) (queue pool))"

lemma job_ok_cong:
  "length (srv_heap s') = length (srv_heap s) \<Longrightarrow> srv_config s' = srv_config s \<Longrightarrow> job_ok s' j = job_ok s j"
  by (simp add: job_ok_def)

lemma pool_ok_cong:
  assumes "length (srv_heap s') = length (srv_heap s)" "srv_config s' = srv_config s" "srv_pool s' = srv_pool s"
  shows "pool_ok s' = pool_ok s"
  using assms job_ok_cong [OF assms(1,2)] by (simp add: pool_ok_def list_all_iff)

definition srv_inv :: "(nat \<Rightarrow> nat) \<Rightarrow> server \<Rightarrow> bool" where
  "srv_inv extra s \<longleftrightarrow> table_inv s \<and> heap_inv s \<and> inflight_inv extra s \<and> pool_ok s"

lemma queued_put_conn [simp]: "queued q (put_conn p c s) = queued q s"
  by (simp add: queued_def)

lemma queued_upd [simp]: "queued q (upd_stats f s) = queued q s" "queued q (upd_kernel g s) = queued q s"
  by (simp_all add: queued_def)

lemma srv_inv_put_conn:
  assumes "srv_inv extra s" "conn_inv c" "conn_fd c = conn_fd (conn s p)" "conn_limits c = conn_limits (conn s p)"
    and "conn_closed c = conn_closed (conn s p)" "inflight c = inflight (conn s p)"
  shows "srv_inv extra (put_conn p c s)"
proof (cases "p < length (srv_heap s)")
  case True
  have k: "conn (put_conn p c s) q = (if q = p then c else conn s q)" for q using True by simp
  show ?thesis
    using assms pool_ok_cong [of "put_conn p c s" s]
    by (simp add: srv_inv_def table_inv_def heap_inv_def inflight_inv_def k)
next
  case False
  then have "put_conn p c s = s" by (simp add: put_conn_def list_update_beyond)
  with assms(1) show ?thesis by simp
qed

lemma srv_inv_cong:
  assumes "srv_heap s' = srv_heap s" "connections s' = connections s" "srv_pool s' = srv_pool s"
    and "srv_config s' = srv_config s"
    and "st_active_connections (srv_stats s') = st_active_connections (srv_stats s)"
  shows "srv_inv extra s' = srv_inv extra s"
  using assms pool_ok_cong [of s' s]
  by (simp add: srv_inv_def table_inv_def heap_inv_def inflight_inv_def queued_def)

lemma srv_inv_upd_kernel [simp]: "srv_inv extra (upd_kernel g s) = srv_inv extra s"
  by (rule srv_inv_cong) simp_all

lemma srv_inv_upd_stats:
  assumes "\<And>st. st_active_connections (f st) = st_active_connections st"
  shows "srv_inv extra (upd_stats f s) = srv_inv extra s"
  using assms by (intro srv_inv_cong) simp_all

lemma srv_inv_conn: "srv_inv extra s \<Longrightarrow> p < length (srv_heap s) \<Longrightarrow> conn_inv (conn s p)"
  by (simp add: srv_inv_def heap_inv_def)

section \<open>Closing a connection\<close>

lemma length_filter_key:
  assumes "distinct (map fst xs)" "(k, v) \<in> set xs"
  shows "Suc (length (filter (\<lambda>e. fst e \<noteq> k) xs)) = length xs"
  using assms
proof (induction xs)
  case (Cons x xs)
  show ?case
  proof (cases "fst x = k")
    case True
    with Cons.prems(1) have "\<forall>e \<in> set xs. fst e \<noteq> k" by auto (metis fst_conv imageI)
    with True show ?thesis by simp
  next
    case False
    with Cons show ?thesis by auto
  qed
qed simp

lemma distinct_filter_key: "distinct (map fst xs) \<Longrightarrow> distinct (map fst (filter P xs))"
  by (induction xs) auto

lemma table_inv_close:
  assumes "table_inv s" "p < length (srv_heap s)" "\<not> conn_closed (conn s p)"
    and "srv_heap s' = (srv_heap s)[p := mark_closed (conn s p)]"
    and "connections s' = filter (\<lambda>e. fst e \<noteq> conn_fd (conn s p)) (connections s)"
    and "st_active_connections (srv_stats s') = st_active_connections (srv_stats s) - 1"
  shows "table_inv s'"
proof -
  let ?fd = "conn_fd (conn s p)"
  have t: "distinct (map fst (connections s))"
    "\<And>fd q. (fd, q) \<in> set (connections s) \<longleftrightarrow>
        q < length (srv_heap s) \<and> conn_fd (conn s q) = fd \<and> \<not> conn_closed (conn s q)"
    "st_active_connections (srv_stats s) = of_nat (length (connections s))"
    using assms(1) by (auto simp: table_inv_def)
  have e: "(?fd, p) \<in> set (connections s)" using t(2) assms(2,3) by simp
  have u: "q = p" if "(?fd, q) \<in> set (connections s)" for q
    using that e t(1) by (metis eq_key_imp_eq_value)
  have "of_nat (length (connections s')) = st_active_connections (srv_stats s) - 1"
    using length_filter_key [OF t(1) e] t(3) assms(5) by (metis add_diff_cancel_left' of_nat_Suc)
  moreover have "(fd, q) \<in> set (connections s') \<longleftrightarrow>
      q < length (srv_heap s') \<and> conn_fd (conn s' q) = fd \<and> \<not> conn_closed (conn s' q)" for fd q
  proof (cases "q = p")
    case True
    then show ?thesis using assms(2,4,5) t(2) [of fd p] by (auto simp: mark_closed_def)
  next
    case False
    then show ?thesis using assms(4,5) t(2) [of fd q] u by (auto simp: nth_list_update)
  qed
  ultimately show ?thesis
    using distinct_filter_key [OF t(1)] assms(5,6) by (simp add: table_inv_def)
qed

lemma close_connection_ok:
  assumes "srv_inv extra s" "p < length (srv_heap s)"
  shows "srv_inv extra (close_connection p s)" "touch p s (close_connection p s)"
    "conn_closed (conn (close_connection p s) p)"
proof -
  let ?s = "close_connection p s"
  have c: "srv_heap ?s = (srv_heap s)[p := mark_closed (conn s p)]"
    "connections ?s = filter (\<lambda>e. fst e \<noteq> conn_fd (conn s p)) (connections s)"
    "st_active_connections (srv_stats ?s) = st_active_connections (srv_stats s) - 1"
    if "\<not> conn_closed (conn s p)"
    using that by (simp_all add: close_connection_def Let_def connection_closed_def put_conn_def upd_stats_def)
  have k: "srv_pool ?s = srv_pool s" "srv_config ?s = srv_config s" "srv_cache ?s = srv_cache s"
    "ready_connections ?s = ready_connections s" "srv_draining ?s = srv_draining s" "epoll_fd ?s = epoll_fd s"
    "k_completion (srv_kernel ?s) = k_completion (srv_kernel s)" "listen_fd ?s = listen_fd s" "bound_socket_path ?s = bound_socket_path s"
    by (simp_all add: close_connection_def Let_def)
  show "conn_closed (conn ?s p)"
    using c(1) assms(2) by (cases "conn_closed (conn s p)") (simp_all add: close_connection_def mark_closed_def)
  show "touch p s ?s"
    using c(1) k assms(2) by (cases "conn_closed (conn s p)")
      (simp_all add: close_connection_def touch_def mark_closed_def)
  show "srv_inv extra ?s"
  proof (cases "conn_closed (conn s p)")
    case True
    then show ?thesis using assms(1) by (simp add: close_connection_def)
  next
    case False
    have "conn ?s q = (if q = p then mark_closed (conn s p) else conn s q)" for q
      using c(1) [OF False] assms(2) by simp
    moreover have "length (srv_heap ?s) = length (srv_heap s)" using c(1) [OF False] by simp
    moreover have "table_inv ?s"
      using assms(1) by (intro table_inv_close [OF _ assms(2) False c [OF False]]) (simp add: srv_inv_def)
    ultimately show ?thesis
      using assms(1) k pool_ok_cong [of ?s s]
      by (simp add: srv_inv_def heap_inv_def inflight_inv_def queued_def)
  qed
qed

section \<open>Handlers keep the invariant\<close>

definition handled :: "(nat \<Rightarrow> nat) \<Rightarrow> nat \<Rightarrow> server \<Rightarrow> server \<Rightarrow> bool" where
  "handled extra p s s' \<longleftrightarrow> srv_inv extra s' \<and> touch p s s'"

text \<open>Closed, or interested in output whenever output is pending.\<close>

definition quiet :: "nat \<Rightarrow> server \<Rightarrow> bool" where
  "quiet p s \<longleftrightarrow>
     conn_closed (conn s p) \<or> (has_pending_output (conn s p) \<longrightarrow> has_event (registered_events (conn s p)) EPOLLOUT)"

lemma handled_refl: "srv_inv extra s \<Longrightarrow> handled extra p s s"
  by (simp add: handled_def)

lemma handled_trans: "handled extra p s s' \<Longrightarrow> handled extra p s' s'' \<Longrightarrow> handled extra p s s''"
  using touch_trans by (auto simp: handled_def)

lemma handled_length: "handled extra p s s' \<Longrightarrow> length (srv_heap s') = length (srv_heap s)"
  by (simp add: handled_def touch_def)

lemma handled_close:
  assumes "srv_inv extra s" "p < length (srv_heap s)"
  shows "handled extra p s (close_connection p s)" "quiet p (close_connection p s)"
  using close_connection_ok [OF assms] by (simp_all add: handled_def quiet_def)

lemma handled_put_conn:
  assumes "srv_inv extra s" "conn_inv c" "conn_fd c = conn_fd (conn s p)" "conn_limits c = conn_limits (conn s p)"
    and "conn_closed c = conn_closed (conn s p)" "inflight c = inflight (conn s p)"
    and "notify_pending c = notify_pending (conn s p)"
  shows "handled extra p s (put_conn p c s)"
  using srv_inv_put_conn [OF assms(1-6)] touch_put_conn [of c s p] assms by (simp add: handled_def)

lemma handled_upd_kernel:
  assumes "srv_inv extra s" "k_completion (g (srv_kernel s)) = k_completion (srv_kernel s)"
  shows "handled extra p s (upd_kernel g s)"
  using assms by (simp add: handled_def touch_def)

lemma handled_upd_stats:
  assumes "srv_inv extra s" "\<And>st. st_active_connections (f st) = st_active_connections st"
  shows "handled extra p s (upd_stats f s)"
  using assms by (simp add: handled_def touch_def srv_inv_upd_stats)

lemma wanted_events_out: "has_event (wanted_events d c) EPOLLOUT \<longleftrightarrow> has_pending_output c"
  by (simp add: wanted_events_def has_event_def EPOLLOUT_def EPOLLIN_def EPOLLRDHUP_def
      kBaseConnectionEvents_def Let_def)

lemma wanted_events_in:
  "has_event (wanted_events d c) EPOLLIN \<longleftrightarrow> \<not> d \<and> \<not> read_paused c \<and> \<not> close_after_flush c"
  by (simp add: wanted_events_def has_event_def EPOLLOUT_def EPOLLIN_def EPOLLRDHUP_def
      kBaseConnectionEvents_def Let_def)

lemma flush_conn_ok:
  assumes "srv_inv extra s" "p < length (srv_heap s)" "flush_conn p s = Some (s', r)"
  shows "handled extra p s s'" "same_but_output (conn s p) (conn s' p)"
proof -
  note i = srv_inv_conn [OF assms(1,2)]
  from assms(3) obtain c sent rest where f: "flush_output (k_send (srv_kernel s)) (conn s p) = Some (c, sent, r, rest)"
    and s': "s' = upd_kernel (\<lambda>k. k\<lparr>k_send := rest, k_sent := k_sent k @ [(p, sent)]\<rparr>) (put_conn p c s)"
    by (auto simp: flush_conn_def split: option.splits)
  from flush_output_ok [OF i f] have c: "conn_inv c" "same_but_output (conn s p) c" by (simp_all add: flush_ok_def)
  have "handled extra p s (put_conn p c s)"
    using assms(1) c same_but_output_fields [OF c(2)] by (intro handled_put_conn) simp_all
  then show "handled extra p s s'"
    unfolding s' by (rule handled_trans) (rule handled_upd_kernel; use \<open>handled extra p s (put_conn p c s)\<close> in \<open>simp add: handled_def\<close>)
  show "same_but_output (conn s p) (conn s' p)" using c(2) assms(2) by (simp add: s')
qed

lemma read_conn_ok:
  assumes "srv_inv extra s" "p < length (srv_heap s)" "read_conn p s = Some (s', r)"
  shows "handled extra p s s'"
proof -
  from assms(3) obtain a rest c where r: "read_some a (conn s p) = (c, r)"
    and s': "s' = upd_kernel (\<lambda>k. k\<lparr>k_recv := rest\<rparr>) (put_conn p c s)"
    by (auto simp: read_conn_def split: list.splits prod.splits)
  have "conn_inv c" using read_some_unread [OF srv_inv_conn [OF assms(1,2)], of a] r by simp
  with read_some_fields [OF r] have "handled extra p s (put_conn p c s)"
    using assms(1) by (intro handled_put_conn) auto
  then show ?thesis
    unfolding s' by (rule handled_trans) (rule handled_upd_kernel; use \<open>handled extra p s (put_conn p c s)\<close> in \<open>simp add: handled_def\<close>)
qed

lemma epoll_set_kernel:
  assumes "epoll_set fd events s = Some (s', ok)"
  obtains g where "s' = upd_kernel g s" "k_completion (g (srv_kernel s)) = k_completion (srv_kernel s)"
  using assms that by (fastforce simp: epoll_set_def split: list.splits)

lemma update_interest_ok:
  assumes "srv_inv extra s" "p < length (srv_heap s)" "update_interest p s = Some s'"
  shows "handled extra p s s'" "quiet p s'"
proof -
  let ?w = "wanted_events (srv_draining s) (conn s p)"
  have "handled extra p s s' \<and> quiet p s'"
  proof (cases "?w = registered_events (conn s p)")
    case True
    with assms(3) have "s' = s" by (simp add: update_interest_def)
    moreover have "quiet p s" using wanted_events_out [of "srv_draining s" "conn s p"] True by (simp add: quiet_def)
    ultimately show ?thesis using handled_refl [OF assms(1)] by simp
  next
    case False
    with assms(3) obtain t ok where t: "epoll_set (conn_fd (conn s p)) ?w s = Some (t, ok)"
      "s' = (if ok then put_conn p (set_registered_events ?w (conn t p)) t else close_connection p t)"
      by (auto simp: update_interest_def Let_def split: option.splits if_splits)
    obtain g where g: "t = upd_kernel g s" and k: "k_completion (g (srv_kernel s)) = k_completion (srv_kernel s)"
      using epoll_set_kernel [OF t(1)] .
    have s': "s' = (if ok then put_conn p (set_registered_events ?w (conn s p)) (upd_kernel g s)
        else close_connection p (upd_kernel g s))" using t(2) g by simp
    have h: "handled extra p s (upd_kernel g s)" using assms(1) k by (rule handled_upd_kernel)
    then have i: "srv_inv extra (upd_kernel g s)" by (simp add: handled_def)
    have "handled extra p (upd_kernel g s) (put_conn p (set_registered_events ?w (conn s p)) (upd_kernel g s))"
      using i srv_inv_conn [OF assms(1,2)] by (intro handled_put_conn) simp_all
    then show ?thesis
      using handled_trans [OF h] handled_close [OF i] assms(2) s' wanted_events_out [of "srv_draining s" "conn s p"]
      by (auto simp: quiet_def)
  qed
  then show "handled extra p s s'" "quiet p s'" by auto
qed

lemma settle_ok:
  assumes "srv_inv extra s" "p < length (srv_heap s)" "settle p s = Some s'"
  shows "handled extra p s s'" "quiet p s'"
  using assms update_interest_ok [OF assms(1,2), of s'] handled_close [OF assms(1,2)]
  by (auto simp: settle_def split: if_splits)

lemma flush_and_settle_ok:
  assumes "srv_inv extra s" "p < length (srv_heap s)" "flush_and_settle p s = Some s'"
  shows "handled extra p s s'" "quiet p s'"
proof -
  from assms(3) obtain t r where t: "flush_conn p s = Some (t, r)"
    "if r = IoResult_kError then s' = close_connection p t else settle p t = Some s'"
    by (auto simp: flush_and_settle_def split: option.splits if_splits)
  note h = flush_conn_ok(1) [OF assms(1,2) t(1)]
  then have i: "srv_inv extra t" "p < length (srv_heap t)" using assms(2) by (simp_all add: handled_def touch_def)
  show "handled extra p s s'"
    using handled_trans [OF h] t(2) settle_ok [OF i, of s'] handled_close [OF i] by (auto split: if_splits)
  show "quiet p s'" using t(2) settle_ok [OF i, of s'] handled_close [OF i] by (auto split: if_splits)
qed

lemma send_immediate_ok:
  assumes "srv_inv extra s" "p < length (srv_heap s)"
  shows "handled extra p s (send_immediate p opcode rid st s)"
proof -
  obtain c ok where e: "enqueue_response (serialize_response \<lparr>resp_opcode = opcode, resp_status = st,
      resp_request_id = rid, resp_value = []\<rparr>) False (conn s p) = (c, ok)" by fastforce
  have h: "handled extra p s (put_conn p c s)"
    using assms(1) enqueue_response_inv [OF srv_inv_conn [OF assms] e] enqueue_response_fields [OF e]
    by (intro handled_put_conn) auto
  then have "srv_inv extra (put_conn p c s)" by (simp add: handled_def)
  with handled_close(1) [of extra "put_conn p c s" p] assms(2) handled_trans [OF h] show ?thesis
    by (simp add: send_immediate_def e h Let_def)
qed

lemma reject_malformed_ok:
  assumes "srv_inv extra s" "p < length (srv_heap s)"
  shows "handled extra p s (reject_malformed p e s)"
proof -
  let ?a = "upd_stats record_protocol_error s"
  define t where "t = (case peek_request_header (conn ?a p) of
      Some (request_id, request_opcode) \<Rightarrow> send_immediate p request_opcode request_id (malformed_status e) ?a
    | None \<Rightarrow> ?a)"
  have a: "handled extra p s ?a"
    using assms(1) by (rule handled_upd_stats) (simp add: record_protocol_error_def)
  then have i: "srv_inv extra ?a" by (simp add: handled_def)
  have "handled extra p ?a t"
    using send_immediate_ok [OF i] assms(2) handled_refl [OF i] by (auto simp: t_def split: option.split)
  then have h: "handled extra p s t" using a handled_trans by blast
  then have "srv_inv extra t" "p < length (srv_heap t)" using assms(2) by (simp_all add: handled_def touch_def)
  then have "handled extra p t (put_conn p (mark_close_after_flush (conn t p)) t)"
    by (intro handled_put_conn) (simp_all add: srv_inv_conn)
  then show ?thesis using handled_trans [OF h] by (simp add: reject_malformed_def t_def Let_def)
qed

lemma max_inflight_eq:
  "srv_inv extra s \<Longrightarrow> p < length (srv_heap s) \<Longrightarrow>
     max_inflight (conn_limits (conn s p)) = max_inflight_per_conn (srv_config s)"
  by (simp add: srv_inv_def heap_inv_def connection_limits_of_def)

lemma submit_accepted:
  assumes "srv_inv extra s" "p < length (srv_heap s)" "\<not> inflight_limit_reached (conn s p)"
    and "request_ok (protocol_limits (connection_limits_of (srv_config s))) r"
    and "srv_pool s = Some pool" "try_submit \<lparr>job_connection = p, job_request = r\<rparr> pool = (pool', True)"
  shows "handled extra p s ((put_conn p (note_request_submitted (conn s p)) (upd_stats record_request s))
    \<lparr>srv_pool := Some pool'\<rparr>)"
proof -
  let ?c = "note_request_submitted (conn s p)"
  define t where "t = (put_conn p ?c (upd_stats record_request s))\<lparr>srv_pool := Some pool'\<rparr>"
  have k: "conn t q = (if q = p then ?c else conn s q)" for q
    using assms(2) by (simp add: t_def put_conn_def)
  have kf: "length (srv_heap t) = length (srv_heap s)" "srv_pool t = Some pool'" "connections t = connections s"
    "srv_config t = srv_config s" "srv_stats t = record_request (srv_stats s)" "srv_cache t = srv_cache s"
    "ready_connections t = ready_connections s" "srv_draining t = srv_draining s" "epoll_fd t = epoll_fd s"
    "srv_kernel t = srv_kernel s" "listen_fd t = listen_fd s" "bound_socket_path t = bound_socket_path s"
    by (simp_all add: t_def)
  have q: "queue pool' = queue pool @ [\<lparr>job_connection = p, job_request = r\<rparr>]" "threads pool' = threads pool" "stopper_at pool' = stopper_at pool"
    using assms(6) by (auto simp: try_submit_def split: if_splits)
  then have c: "queued q t = queued q s + (if q = p then 1 else 0)" for q
    using assms(5) by (simp add: queued_def kf)
  have lt: "unat (inflight (conn s p)) < unat (max_inflight_per_conn (srv_config s))"
    using assms(3) max_inflight_eq [OF assms(1,2)] by (simp add: inflight_limit_reached_def word_le_nat_alt)
  then have "unat (inflight (conn s p)) + 1 < 2 ^ 64"
    using unsigned_less [of "max_inflight_per_conn (srv_config s)", where 'a = nat] by simp
  then have u: "unat (inflight ?c) = unat (inflight (conn s p)) + 1"
    by (simp add: note_request_submitted_def unat_add_exact)
  have f: "conn_fd ?c = conn_fd (conn s p)" "conn_limits ?c = conn_limits (conn s p)"
    "conn_closed ?c = conn_closed (conn s p)" "notify_pending ?c = notify_pending (conn s p)"
    by (simp_all add: note_request_submitted_def)
  have "srv_inv extra t"
    unfolding srv_inv_def
  proof (intro conjI)
    show "table_inv t" using assms(1) f by (simp add: srv_inv_def table_inv_def k kf record_request_def)
    show "heap_inv t" using assms(1) f by (simp add: srv_inv_def heap_inv_def k kf)
    show "inflight_inv extra t"
      using assms(1,2) u lt by (auto simp: srv_inv_def inflight_inv_def k kf c)
    show "pool_ok t"
      using assms(1,2,4,5) try_submit_inv [OF _ assms(6)] q
      by (auto simp: srv_inv_def pool_ok_def job_ok_def list_all_iff kf)
  qed
  moreover have "touch p s t" using assms(2,5) f q by (simp add: touch_def k kf)
  ultimately show ?thesis by (simp add: handled_def t_def)
qed

lemma submit_request_ok:
  assumes "srv_inv extra s" "p < length (srv_heap s)" "\<not> inflight_limit_reached (conn s p)"
    and "request_ok (protocol_limits (connection_limits_of (srv_config s))) r"
    and "submit_request p r s = Some (s', b)"
  shows "handled extra p s s'" "\<not> b \<Longrightarrow> conn_closed (conn s' p)"
proof -
  let ?n = "note_request_submitted (conn s p)"
  obtain pool where pool: "srv_pool s = Some pool" using assms(1) by (auto simp: srv_inv_def pool_ok_def)
  obtain pool' acc where sub: "try_submit \<lparr>job_connection = p, job_request = r\<rparr> pool = (pool', acc)" by fastforce
  have "handled extra p s s' \<and> (\<not> b \<longrightarrow> conn_closed (conn s' p))"
  proof (cases acc)
    case True
    with submit_accepted [OF assms(1-4) pool] sub assms(2,5) show ?thesis
      by (auto simp: submit_request_def Let_def pool)
  next
    case False
    then have pool': "pool' = pool" using sub by (auto simp: try_submit_def split: if_splits)
    obtain c ok where e: "enqueue_response (busy_frame r) True ?n = (c, ok)" by fastforce
    let ?a = "upd_stats record_rejected (upd_stats record_request s)"
    have a: "handled extra p s ?a"
      using handled_trans [OF handled_upd_stats handled_upd_stats] assms(1)
      by (simp add: handled_def touch_def srv_inv_upd_stats record_rejected_def record_request_def)
    have "conn_inv c" using enqueue_response_inv [OF _ e] srv_inv_conn [OF assms(1,2)] by simp
    with enqueue_response_fields [OF e] a have h: "handled extra p ?a (put_conn p c ?a)"
      by (intro handled_put_conn) (auto simp: handled_def note_request_submitted_def)
    then have i: "srv_inv extra (put_conn p c ?a)" by (simp add: handled_def)
    have "s' = (if ok then put_conn p c ?a else close_connection p (put_conn p c ?a))" "b = ok"
      using assms(2,5) sub False pool pool' e
      by (auto simp: submit_request_def Let_def put_conn_def upd_stats_def
          intro!: arg_cong [where f = "close_connection p"] split: if_splits)
    with handled_trans [OF a h] handled_trans [OF handled_trans [OF a h] handled_close(1) [OF i]]
      close_connection_ok(3) [OF i] assms(2) show ?thesis by auto
  qed
  then show "handled extra p s s'" "\<not> b \<Longrightarrow> conn_closed (conn s' p)" by auto
qed

lemma next_request_handled:
  assumes "srv_inv extra s" "p < length (srv_heap s)" "next_request (conn s p) out = (c, r, q)"
  shows "handled extra p s (put_conn p c s)"
proof -
  have "conn_inv c" using next_request_unread [OF srv_inv_conn [OF assms(1,2)] assms(3)] by simp
  with next_request_fields [OF assms(3)] assms(1) show ?thesis by (intro handled_put_conn) auto
qed

lemma process_input_ok:
  "srv_inv extra s \<Longrightarrow> process_input p s = Some (s', b) \<Longrightarrow>
     handled extra p s s' \<and> (\<not> b \<longrightarrow> conn_closed (conn s' p))"
proof (induction p s arbitrary: s' b rule: process_input.induct)
  case (1 p s)
  note ind = 1(1) and inv = 1(2) and run = 1(3) [unfolded process_input.simps [of p s]]
  obtain c r q where n: "next_request (conn s p) default_request = (c, r, q)"
    by (cases "next_request (conn s p) default_request")
  show ?case
  proof (cases "p < length (srv_heap s) \<and> \<not> inflight_limit_reached (conn s p)")
    case False
    with run handled_refl [OF inv] show ?thesis by (auto split: if_splits)
  next
    case True
    then have p: "p < length (srv_heap s)" and lim: "\<not> inflight_limit_reached (conn s p)" by auto
    note h = next_request_handled [OF inv p n]
    let ?s = "put_conn p c s"
    have i: "srv_inv extra ?s" using h by (simp add: handled_def)
    consider (more) "pr_status r = ParseStatus_kNeedMoreData" | (bad) "pr_status r = ParseStatus_kMalformed"
      | (good) "pr_status r = ParseStatus_kComplete" by (cases "pr_status r")
    then show ?thesis
    proof cases
      case more
      with run True n h show ?thesis by auto
    next
      case bad
      with run True n have "s' = reject_malformed p (pr_error r) ?s" b by auto
      with handled_trans [OF h reject_malformed_ok [OF i]] p show ?thesis by simp
    next
      case good
      with run True n obtain t open' where t: "submit_request p q ?s = Some (t, open')"
        "if open' then process_input p t = Some (s', b) else s' = t \<and> \<not> b"
        by (auto split: option.splits if_splits)
      from next_request_fields [OF n] lim p have "\<not> inflight_limit_reached (conn ?s p)"
        by (auto simp: inflight_limit_reached_def)
      moreover have "request_ok (protocol_limits (connection_limits_of (srv_config ?s))) q"
        using next_request_frame [OF srv_inv_conn [OF inv p] n] good inv p
        by (simp add: srv_inv_def heap_inv_def)
      ultimately have o: "handled extra p ?s t" "\<not> open' \<Longrightarrow> conn_closed (conn t p)"
        using submit_request_ok [OF i _ _ _ t(1)] p by simp_all
      have ht: "handled extra p s t" using handled_trans [OF h o(1)] .
      show ?thesis
      proof (cases open')
        case False
        with t(2) o(2) p ht show ?thesis by auto
      next
        case open': True
        have "handled extra p t s' \<and> (\<not> b \<longrightarrow> conn_closed (conn s' p))"
          using ind [OF _ _ n [symmetric] refl _ _ t(1) refl open', of s' b] True good t(2) open' ht
          by (auto simp: handled_def)
        with handled_trans [OF ht] show ?thesis by blast
      qed
    qed
  qed
qed

lemma handle_writable_ok:
  assumes "srv_inv extra s" "p < length (srv_heap s)" "handle_writable p ev s = Some (s', b)"
  shows "handled extra p s s'" "\<not> b \<Longrightarrow> conn_closed (conn s' p)"
proof -
  have "handled extra p s s' \<and> (\<not> b \<longrightarrow> conn_closed (conn s' p))"
  proof (cases "has_event ev EPOLLOUT")
    case True
    with assms(3) obtain t r where t: "flush_conn p s = Some (t, r)"
      "if r = IoResult_kError then s' = close_connection p t \<and> \<not> b else s' = t \<and> b"
      by (auto simp: handle_writable_def split: option.splits if_splits)
    note h = flush_conn_ok(1) [OF assms(1,2) t(1)]
    then have i: "srv_inv extra t" "p < length (srv_heap t)" using assms(2) by (simp_all add: handled_def touch_def)
    from t(2) close_connection_ok(3) [OF i] handled_trans [OF h handled_close(1) [OF i]] h show ?thesis
      by (auto split: if_splits)
  next
    case False
    with assms(3) handled_refl [OF assms(1)] show ?thesis by (simp add: handle_writable_def)
  qed
  then show "handled extra p s s'" "\<not> b \<Longrightarrow> conn_closed (conn s' p)" by auto
qed

lemma handle_readable_ok:
  assumes "srv_inv extra s" "p < length (srv_heap s)" "handle_readable p ev s = Some (s', b)"
  shows "handled extra p s s'" "\<not> b \<Longrightarrow> conn_closed (conn s' p)"
proof -
  have "handled extra p s s' \<and> (\<not> b \<longrightarrow> conn_closed (conn s' p))"
  proof (cases "\<not> srv_draining s \<and> has_event ev (or EPOLLIN EPOLLRDHUP)")
    case True
    with assms(3) obtain t r where t: "read_conn p s = Some (t, r)"
      "if r = IoResult_kClosed \<or> r = IoResult_kError then s' = close_connection p t \<and> \<not> b
       else if r = IoResult_kOk then process_input p t = Some (s', b) else s' = t \<and> b"
      by (auto simp: handle_readable_def split: option.splits if_splits)
    note h = read_conn_ok [OF assms(1,2) t(1)]
    then have i: "srv_inv extra t" "p < length (srv_heap t)" using assms(2) by (simp_all add: handled_def touch_def)
    have "handled extra p t s' \<and> (\<not> b \<longrightarrow> conn_closed (conn s' p))"
      using t(2) process_input_ok [OF i(1), of p s' b] close_connection_ok(3) [OF i] handled_close [OF i]
        handled_refl [OF i(1)] by (auto split: if_splits)
    then show ?thesis using handled_trans [OF h] by blast
  next
    case False
    with assms(3) handled_refl [OF assms(1)] show ?thesis by (auto simp: handle_readable_def)
  qed
  then show "handled extra p s s'" "\<not> b \<Longrightarrow> conn_closed (conn s' p)" by auto
qed

lemma handle_connection_event_ok:
  assumes "srv_inv extra s" "p < length (srv_heap s)" "handle_connection_event p ev s = Some s'"
  shows "handled extra p s s'" "quiet p s'"
proof -
  have "handled extra p s s' \<and> quiet p s'"
  proof (cases "has_event ev (or EPOLLERR EPOLLHUP) \<or> srv_draining s \<and> has_event ev EPOLLRDHUP")
    case True
    with assms(3) have "s' = close_connection p s" by (auto simp: handle_connection_event_def split: if_splits)
    with handled_close [OF assms(1,2)] show ?thesis by simp
  next
    case False
    with assms(3) obtain t go where t: "handle_writable p ev s = Some (t, go)"
      and rest: "if go then \<exists>u go'. handle_readable p ev t = Some (u, go')
          \<and> (if go' then flush_and_settle p u = Some s' else s' = u) else s' = t"
      by (auto simp: handle_connection_event_def split: option.splits if_splits)
    note w = handle_writable_ok [OF assms(1,2) t]
    have i: "srv_inv extra t" "p < length (srv_heap t)" using w(1) assms(2) by (simp_all add: handled_def touch_def)
    show ?thesis
    proof (cases go)
      case True
      with rest obtain u go' where u: "handle_readable p ev t = Some (u, go')"
        "if go' then flush_and_settle p u = Some s' else s' = u" by auto
      note r = handle_readable_ok [OF i u(1)]
      have j: "srv_inv extra u" "p < length (srv_heap u)" using r(1) i(2) by (simp_all add: handled_def touch_def)
      note su = handled_trans [OF w(1) r(1)]
      show ?thesis
      proof (cases go')
        case True
        with u(2) have f: "flush_and_settle p u = Some s'" by simp
        from flush_and_settle_ok [OF j f] handled_trans [OF su] show ?thesis by simp
      qed (use u(2) r(2) su in \<open>simp add: quiet_def\<close>)
    qed (use rest w in \<open>simp add: quiet_def\<close>)
  qed
  then show "handled extra p s s'" "quiet p s'" by auto
qed

section \<open>Loop events\<close>

text \<open>
  What an event of the loop may do to the connections as far as output is concerned: leave one alone, or
  leave it quiet; the notification flags, the ready list and the completion counter stay.
\<close>

definition calm :: "server \<Rightarrow> server \<Rightarrow> bool" where
  "calm s s' \<longleftrightarrow>
     length (srv_heap s) \<le> length (srv_heap s')
   \<and> (\<forall>q < length (srv_heap s'). (q < length (srv_heap s) \<and> conn s' q = conn s q) \<or> quiet q s')
   \<and> (\<forall>q < length (srv_heap s'). notify_pending (conn s' q) \<longrightarrow> q < length (srv_heap s) \<and> notify_pending (conn s q))
   \<and> ready_connections s' = ready_connections s
   \<and> k_completion (srv_kernel s') = k_completion (srv_kernel s)
   \<and> srv_cache s' = srv_cache s \<and> srv_config s' = srv_config s \<and> threads_of s' = threads_of s
   \<and> stopper_of s' = stopper_of s"

lemma calm_refl: "calm s s"
  by (simp add: calm_def)

lemma calm_trans:
  assumes "calm s s'" "calm s' s''"
  shows "calm s s''"
proof -
  have "(q < length (srv_heap s) \<and> conn s'' q = conn s q) \<or> quiet q s''" if "q < length (srv_heap s'')" for q
    using assms that unfolding calm_def quiet_def by metis
  with assms show ?thesis by (auto simp: calm_def)
qed

lemma touch_calm:
  assumes "touch p s s'" "quiet p s'"
  shows "calm s s'"
proof -
  have k: "q = p \<or> conn s' q = conn s q" for q using assms(1) by (auto simp: touch_def)
  have n: "notify_pending (conn s' q) = notify_pending (conn s q)" for q
    using k [of q] assms(1) by (auto simp: touch_def)
  have "q < length (srv_heap s) \<and> conn s' q = conn s q \<or> quiet q s'" if "q < length (srv_heap s')" for q
    using k [of q] that assms by (auto simp: touch_def)
  with n assms(1) show ?thesis by (simp add: calm_def touch_def)
qed

lemma table_inv_add:
  assumes "table_inv s" "fd \<notin> fst ` set (connections s)" "conn_fd c = fd" "\<not> conn_closed c"
    and "srv_heap s' = srv_heap s @ [c]" "connections s' = connections s @ [(fd, length (srv_heap s))]"
    and "st_active_connections (srv_stats s') = st_active_connections (srv_stats s) + 1"
  shows "table_inv s'"
proof -
  have "(f, q) \<in> set (connections s') \<longleftrightarrow>
      q < length (srv_heap s') \<and> conn_fd (conn s' q) = f \<and> \<not> conn_closed (conn s' q)" for f q
    using assms by (auto simp: table_inv_def nth_append less_Suc_eq)
  with assms show ?thesis by (auto simp: table_inv_def)
qed

lemma registered_ok:
  assumes "srv_inv extra s" "fd \<notin> fst ` set (connections s)"
    and "srv_heap s' = srv_heap s @ [c]" "connections s' = connections s @ [(fd, length (srv_heap s))]"
    and "c = set_registered_events ev (new_connection fd ident (connection_limits_of (srv_config s)))"
    and "st_active_connections (srv_stats s') = st_active_connections (srv_stats s) + 1"
    and "srv_pool s' = srv_pool s" "srv_config s' = srv_config s" "srv_cache s' = srv_cache s"
    and "ready_connections s' = ready_connections s" "k_completion (srv_kernel s') = k_completion (srv_kernel s)"
  shows "srv_inv extra s' \<and> calm s s'"
proof -
  have c: "conn_inv c" "conn_fd c = fd" "\<not> conn_closed c" "inflight c = 0" "\<not> notify_pending c"
    "conn_limits c = connection_limits_of (srv_config s)" "\<not> has_pending_output c"
    using new_connection_inv [of fd ident "connection_limits_of (srv_config s)"]
    by (simp_all add: assms(5)) (simp_all add: new_connection_def has_pending_output_def)
  have k: "conn s' q = (if q < length (srv_heap s) then conn s q else c)" if "q < length (srv_heap s')" for q
    using that assms(3) by (auto simp: nth_append less_Suc_eq)
  have l: "length (srv_heap s') = Suc (length (srv_heap s))" using assms(3) by simp
  have new: "queued (length (srv_heap s)) s = 0"
    using assms(1)
    by (fastforce simp: queued_def srv_inv_def pool_ok_def job_ok_def list_all_iff filter_empty_conv)
  have "srv_inv extra s'"
    unfolding srv_inv_def
  proof (intro conjI)
    show "table_inv s'"
      using assms(1) by (intro table_inv_add [OF _ assms(2) c(2,3) assms(3,4,6)]) (simp add: srv_inv_def)
    show "heap_inv s'" using assms(1,8) c l k by (auto simp: srv_inv_def heap_inv_def less_Suc_eq)
    show "inflight_inv extra s'"
      using assms(1,7,8) c l k new by (auto simp: srv_inv_def inflight_inv_def queued_def less_Suc_eq)
    show "pool_ok s'"
      using assms(1,7,8) l by (auto simp: srv_inv_def pool_ok_def job_ok_def list_all_iff less_Suc_eq)
  qed
  moreover have "calm s s'"
    using assms(7-11) c l k by (auto simp: calm_def quiet_def less_Suc_eq)
  ultimately show ?thesis by simp
qed

lemma accept_client_ok:
  assumes "srv_inv extra s" "fd \<notin> fst ` set (connections s)" "accept_client fd s = Some s'"
  shows "srv_inv extra s' \<and> calm s s' \<and> fst ` set (connections s') \<subseteq> insert fd (fst ` set (connections s))"
proof (cases "sz (connections s) \<ge> max_connections (srv_config s)")
  case True
  with assms(3) have s': "s' = upd_stats record_rejected s" by (simp add: accept_client_def)
  have "srv_inv extra s'" using assms(1) by (subst srv_inv_cong) (simp_all add: s' record_rejected_def)
  then show ?thesis by (auto simp: s' calm_def quiet_def)
next
  case False
  let ?ev = "or EPOLLIN kBaseConnectionEvents"
  let ?c = "set_registered_events ?ev (new_connection fd (next_connection_id s) (connection_limits_of (srv_config s)))"
  let ?s = "s\<lparr>next_connection_id := next_connection_id s + 1\<rparr>"
  obtain t ok where t: "epoll_set fd ?ev ?s = Some (t, ok)"
    and s': "s' = (if ok then upd_stats connection_opened (t\<lparr>srv_heap := srv_heap t @ [?c],
      connections := emplace fd (length (srv_heap t)) (connections t)\<rparr>) else t)"
    using False assms(3) by (auto simp: accept_client_def Let_def split: option.splits if_splits)
  obtain g where g: "t = upd_kernel g ?s" "k_completion (g (srv_kernel ?s)) = k_completion (srv_kernel ?s)"
    using epoll_set_kernel [OF t] .
  show ?thesis
  proof (cases ok)
    case True
    have e: "emplace fd p (connections s) = connections s @ [(fd, p)]" for p
      using assms(2) by (simp add: emplace_def map_of_eq_None_iff)
    have "srv_inv extra s' \<and> calm s s'"
      by (rule registered_ok [OF assms(1,2), of _ ?c ?ev "next_connection_id s"])
        (use True g in \<open>simp_all add: s' e connection_opened_def\<close>)
    with True g show ?thesis by (auto simp: s' e)
  next
    case False
    have "srv_inv extra s'" using assms(1) by (subst srv_inv_cong [of _ s]) (simp_all add: s' False g)
    then show ?thesis using False g by (auto simp: s' calm_def quiet_def)
  qed
qed

fun accepted_fds :: "accept_outcome list \<Rightarrow> int list" where
  "accepted_fds [] = []"
| "accepted_fds (Accepted fd # answers) = fd # accepted_fds answers"
| "accepted_fds (_ # answers) = accepted_fds answers"

text \<open>The kernel gives a new connection a descriptor that no open connection has.\<close>

definition fresh_fds :: "server \<Rightarrow> bool" where
  "fresh_fds s \<longleftrightarrow>
     distinct (accepted_fds (k_accept (srv_kernel s)))
   \<and> set (accepted_fds (k_accept (srv_kernel s))) \<inter> fst ` set (connections s) = {}"

lemma accept_loop_ok:
  "srv_inv extra s \<Longrightarrow> distinct (accepted_fds answers) \<Longrightarrow>
     set (accepted_fds answers) \<inter> fst ` set (connections s) = {} \<Longrightarrow> accept_loop answers s = Some s' \<Longrightarrow>
     srv_inv extra s' \<and> calm s s'"
proof (induction answers s arbitrary: s' rule: accept_loop.induct)
  case (6 fd answers s)
  from 6(5) obtain t where t: "accept_client fd s = Some t" "accept_loop answers t = Some s'"
    by (auto split: option.splits)
  have "fd \<notin> fst ` set (connections s)" using 6(4) by auto
  note a = accept_client_ok [OF 6(2) this t(1)]
  from 6(3,4) have "fd \<notin> set (accepted_fds answers)"
    "set (accepted_fds answers) \<inter> fst ` set (connections s) = {}" by auto
  with a have "set (accepted_fds answers) \<inter> fst ` set (connections t) = {}" by blast
  with 6(1) [OF t(1) _ _ _ t(2)] a 6(3) show ?case using calm_trans by auto
qed (auto simp: calm_def quiet_def)

lemma handle_listen_ready_ok:
  "srv_inv extra s \<Longrightarrow> fresh_fds s \<Longrightarrow> handle_listen_ready s = Some s' \<Longrightarrow> srv_inv extra s' \<and> calm s s'"
  using accept_loop_ok by (auto simp: handle_listen_ready_def fresh_fds_def)

lemma update_all_interest_ok:
  "srv_inv extra s \<Longrightarrow> \<forall>p \<in> set ps. p < length (srv_heap s) \<Longrightarrow> update_all_interest ps s = Some s' \<Longrightarrow>
     srv_inv extra s' \<and> calm s s'"
proof (induction ps arbitrary: s)
  case Nil
  then show ?case by (simp add: calm_refl)
next
  case (Cons p ps)
  from Cons.prems(3) obtain t where t: "update_interest p s = Some t" "update_all_interest ps t = Some s'"
    by (auto split: option.splits)
  note u = update_interest_ok [OF Cons.prems(1) _ t(1)]
  have h: "srv_inv extra t" "touch p s t" "quiet p t" using u Cons.prems(2) by (simp_all add: handled_def)
  have "\<forall>p \<in> set ps. p < length (srv_heap t)" using h(2) Cons.prems(2) by (simp add: touch_def)
  from Cons.IH [OF h(1) this t(2)] calm_trans [OF touch_calm [OF h(2,3)]] show ?case by blast
qed

lemma file_ops_fields [simp]:
  "k_completion (unlisten path k) = k_completion k" "k_completion (unlink_file path k) = k_completion k"
  by (simp_all add: unlisten_def unlink_file_def split: option.split dir_entry.split)

lemma stop_listening_fields [simp]:
  "srv_heap (stop_listening s) = srv_heap s" "connections (stop_listening s) = connections s"
  "srv_pool (stop_listening s) = srv_pool s" "srv_config (stop_listening s) = srv_config s"
  "srv_stats (stop_listening s) = srv_stats s" "srv_cache (stop_listening s) = srv_cache s"
  "ready_connections (stop_listening s) = ready_connections s" "srv_draining (stop_listening s) = srv_draining s"
  "k_completion (srv_kernel (stop_listening s)) = k_completion (srv_kernel s)"
  by (simp_all add: stop_listening_def Let_def)

lemma table_inv_valid: "table_inv s \<Longrightarrow> (fd, p) \<in> set (connections s) \<Longrightarrow> p < length (srv_heap s)"
  by (simp add: table_inv_def)

lemma handle_shutdown_ok:
  assumes "srv_inv extra s" "handle_shutdown s = Some s'"
  shows "srv_inv extra s' \<and> calm s s'"
proof (cases "srv_draining s")
  case True
  with assms have "s' = upd_kernel (\<lambda>k. k\<lparr>k_shutdown := 0\<rparr>) s" by (simp add: handle_shutdown_def Let_def)
  with assms(1) show ?thesis by (simp add: calm_def)
next
  case False
  define t where "t = stop_listening ((upd_kernel (\<lambda>k. k\<lparr>k_shutdown := 0\<rparr>) s)\<lparr>srv_draining := True,
      drain_deadline := k_now_ms (srv_kernel s) + shutdown_drain_ms (srv_config s)\<rparr>)"
  have u: "update_all_interest (map snd (connections t)) t = Some s'"
    using False assms(2) by (simp add: handle_shutdown_def t_def Let_def)
  have i: "srv_inv extra t" using assms(1) by (subst srv_inv_cong [of _ s]) (simp_all add: t_def)
  have "\<forall>p \<in> set (map snd (connections t)). p < length (srv_heap t)"
    using i by (auto simp: srv_inv_def dest: table_inv_valid)
  from update_all_interest_ok [OF i this u] have r: "srv_inv extra s'" "calm t s'" by auto
  have "calm s t" by (simp add: calm_def t_def)
  with r calm_trans show ?thesis by blast
qed

lemma dispatch_ok:
  assumes "srv_inv extra s" "fresh_fds s" "fst ev \<noteq> completion_fd s" "dispatch ev s = Some s'"
  shows "srv_inv extra s' \<and> calm s s'"
proof -
  obtain fd events where ev: "ev = (fd, events)" by fastforce
  note d = assms(4) [unfolded dispatch_def ev Let_def prod.case]
  show ?thesis
  proof (cases "fd = listen_fd s \<and> listen_fd s \<ge> 0")
    case True
    with d show ?thesis by (intro handle_listen_ready_ok [OF assms(1,2)]) simp
  next
    case no_listen: False
    show ?thesis
    proof (cases "fd = shutdown_fd s")
      case True
      with d no_listen assms(3) ev show ?thesis by (intro handle_shutdown_ok [OF assms(1)]) (simp split: if_splits)
    next
      case no_shutdown: False
      show ?thesis
      proof (cases "signal_fd s \<ge> 0 \<and> fd = signal_fd s")
        case True
        with d no_listen no_shutdown assms(3) ev have "s' = request_shutdown s" by (simp split: if_splits)
        then show ?thesis using assms(1) by (simp add: request_shutdown_def calm_def)
      next
        case False
        with d no_listen no_shutdown assms(3) ev
        have c: "(case map_of (connections s) fd of Some p \<Rightarrow> handle_connection_event p events s | None \<Rightarrow> Some s) = Some s'"
          by (simp split: if_splits)
        show ?thesis
        proof (cases "map_of (connections s) fd")
          case None
          with c assms(1) show ?thesis by (simp add: calm_refl)
        next
          case (Some p)
          then have "p < length (srv_heap s)"
            using assms(1) by (auto simp: srv_inv_def dest: map_of_SomeD table_inv_valid)
          from handle_connection_event_ok [OF assms(1) this, of events s'] c Some show ?thesis
            by (auto simp: handled_def intro: touch_calm)
        qed
      qed
    qed
  qed
qed

end
