(* ===== verification/ServerJobs.thy ===== *)
theory ServerJobs
  imports Server LruSpec
begin

text \<open>
  What a worker computes for a request: \<open>execute_request\<close>, the switch of \<^verbatim>\<open>Server::handle_job\<close>, refines a
  specification on the abstract recency list. For every request within the limits it is defined, keeps
  the cache invariant, answers with the opcode and the identifier of the request, and counts the
  operation once.
\<close>

definition cache_ok :: "server \<Rightarrow> bool" where
  "cache_ok s \<longleftrightarrow> lru_inv (srv_cache s) \<and> lru_limits (srv_cache s) = config_cache_limits (srv_config s)"

text \<open>The specification: contents, status and value after a request, given the statistics payload.\<close>

definition answer :: "cache_limits \<Rightarrow> kvs \<Rightarrow> bytes \<Rightarrow> request \<Rightarrow> kvs \<times> status \<times> bytes" where
  "answer lim xs stats r =
     (case req_opcode r of
        Opcode_kGet \<Rightarrow>
          (case map_of xs (req_key r) of
             Some v \<Rightarrow> (fst (spec_get xs (req_key r)), Status_kOk, v)
           | None \<Rightarrow> (xs, Status_kNotFound, []))
      | Opcode_kPut \<Rightarrow>
          (case spec_put lim xs (req_key r) (req_value r) of (ys, st) \<Rightarrow>
             (ys, if st = PutStatus_kStored then Status_kOk else Status_kValueTooLarge, []))
      | Opcode_kDelete \<Rightarrow>
          (del (req_key r) xs, if map_of xs (req_key r) \<noteq> None then Status_kOk else Status_kNotFound, [])
      | Opcode_kPing \<Rightarrow> (xs, Status_kOk, [])
      | Opcode_kStats \<Rightarrow> (xs, Status_kOk, stats)
      | Opcode_kClear \<Rightarrow> ([], Status_kOk, []))"

text \<open>The counter a request with the given status bumps.\<close>

definition count_request :: "request \<Rightarrow> status \<Rightarrow> server_stats \<Rightarrow> server_stats" where
  "count_request r st =
     (case (req_opcode r, st) of
        (Opcode_kGet, Status_kOk) \<Rightarrow> record_hit
      | (Opcode_kGet, _) \<Rightarrow> record_miss
      | (Opcode_kPut, Status_kOk) \<Rightarrow> record_put
      | (Opcode_kDelete, Status_kOk) \<Rightarrow> record_delete
      | _ \<Rightarrow> id)"

definition request_fits :: "request \<Rightarrow> bool" where
  "request_fits r \<longleftrightarrow> kv_cost (req_key r, req_value r) < 2 ^ 64"

lemma request_ok_fits: "request_ok lim r \<Longrightarrow> request_fits r"
  by (auto simp: request_ok_def request_fits_def kv_cost_def kv_payload_def unat_effective_limit)

definition executed :: "request \<Rightarrow> kvs \<times> status \<times> bytes \<Rightarrow> server \<Rightarrow> server \<Rightarrow> response \<Rightarrow> bool" where
  "executed r a s s' resp \<longleftrightarrow>
     (\<exists>c. s' = s\<lparr>srv_cache := c, srv_stats := count_request r (fst (snd a)) (srv_stats s)\<rparr>
        \<and> lru_inv c \<and> lru_limits c = lru_limits (srv_cache s) \<and> lru_abs c = fst a)
   \<and> resp = \<lparr>resp_opcode = req_opcode r, resp_status = fst (snd a), resp_request_id = req_request_id r,
            resp_value = snd (snd a)\<rparr>"

lemma execute_request_ok:
  assumes "lru_inv (srv_cache s)" "request_fits r"
  shows "\<exists>s' resp. execute_request r s = Some (s', resp)
    \<and> executed r (answer (lru_limits (srv_cache s)) (lru_abs (srv_cache s))
        (serialize_stats (server_stats_snapshot s)) r) s s' resp"
proof (cases "req_opcode r")
  case Opcode_kGet
  with lru_get_into_ok [OF assms(1), of "req_key r" "[]"] show ?thesis
    by (cases "map_of (lru_abs (srv_cache s)) (req_key r)")
      (auto simp: execute_request_def answer_def count_request_def executed_def spec_get_def upd_stats_def)
next
  case Opcode_kPut
  obtain ys st where sp: "spec_put (lru_limits (srv_cache s)) (lru_abs (srv_cache s)) (req_key r) (req_value r) = (ys, st)"
    by fastforce
  with lru_put_ok [OF assms(1), of "req_key r" "req_value r"] assms(2) obtain c where
    c: "lru_put (srv_cache s) (req_key r) (req_value r) = Some (c, st)" "lru_inv c" "lru_abs c = ys"
      "lru_limits c = lru_limits (srv_cache s)" by (auto simp: request_fits_def)
  show ?thesis using Opcode_kPut sp c
    by (cases st) (auto simp: execute_request_def answer_def count_request_def executed_def upd_stats_def)
next
  case Opcode_kDelete
  with lru_erase_ok [OF assms(1), of "req_key r"] show ?thesis
    by (cases "map_of (lru_abs (srv_cache s)) (req_key r)")
      (auto simp: execute_request_def answer_def count_request_def executed_def spec_erase_def upd_stats_def)
next
  case Opcode_kPing
  with assms(1) show ?thesis
    by (simp add: execute_request_def answer_def count_request_def executed_def)
      (rule exI [of _ "srv_cache s"], simp)
next
  case Opcode_kStats
  with assms(1) show ?thesis
    by (simp add: execute_request_def answer_def count_request_def executed_def)
      (rule exI [of _ "srv_cache s"], simp)
next
  case Opcode_kClear
  with lru_clear_ok [OF assms(1)] show ?thesis
    by (simp add: execute_request_def answer_def count_request_def executed_def)
      (rule exI [of _ "lru_clear (srv_cache s)"], simp)
qed

section \<open>Requests in sequence\<close>

text \<open>One request after another on the recency list; the payload of statistics is free.\<close>

fun sequential :: "cache_limits \<Rightarrow> kvs \<Rightarrow> (request \<times> response) list \<Rightarrow> kvs option" where
  "sequential lim xs [] = Some xs"
| "sequential lim xs ((r, resp) # log) =
     (case answer lim xs (resp_value resp) r of (ys, st, v) \<Rightarrow>
        if resp = \<lparr>resp_opcode = req_opcode r, resp_status = st, resp_request_id = req_request_id r, resp_value = v\<rparr>
        then sequential lim ys log else None)"

lemma sequential_append:
  "sequential lim xs (log @ log') = (case sequential lim xs log of None \<Rightarrow> None | Some ys \<Rightarrow> sequential lim ys log')"
  by (induction lim xs log rule: sequential.induct) (auto split: prod.split option.split)

lemma answer_stats: "answer lim xs stats r = (ys, st, v) \<Longrightarrow> answer lim xs v r = (ys, st, v)"
  by (cases "req_opcode r") (auto simp: answer_def split: option.splits prod.splits)

lemma execute_request_sequential:
  assumes "lru_inv (srv_cache s)" "request_fits r"
  shows "\<exists>c stats resp. execute_request r s = Some (s\<lparr>srv_cache := c, srv_stats := stats\<rparr>, resp)
    \<and> lru_inv c \<and> lru_limits c = lru_limits (srv_cache s)
    \<and> sequential (lru_limits (srv_cache s)) (lru_abs (srv_cache s)) [(r, resp)] = Some (lru_abs c)
    \<and> (req_opcode r = Opcode_kStats \<longrightarrow> resp_value resp = serialize_stats (server_stats_snapshot s))"
proof -
  obtain ys st v where a: "answer (lru_limits (srv_cache s)) (lru_abs (srv_cache s)) (serialize_stats (server_stats_snapshot s)) r
      = (ys, st, v)" by (rule prod_cases3)
  from execute_request_ok [OF assms] obtain s' resp where e: "execute_request r s = Some (s', resp)"
    and x: "executed r (ys, st, v) s s' resp" using a by auto
  from x obtain c where "s' = s\<lparr>srv_cache := c, srv_stats := count_request r st (srv_stats s)\<rparr>" "lru_inv c"
    "lru_limits c = lru_limits (srv_cache s)" "lru_abs c = ys"
    "resp = \<lparr>resp_opcode = req_opcode r, resp_status = st, resp_request_id = req_request_id r, resp_value = v\<rparr>"
    by (auto simp: executed_def)
  moreover have "v = serialize_stats (server_stats_snapshot s)" if "req_opcode r = Opcode_kStats"
    using a that by (simp add: answer_def)
  ultimately show ?thesis using e answer_stats [OF a] by auto
qed

end
