(* ===== verification/ServerConcurrency.thy ===== *)
theory ServerConcurrency
  imports ServerFrames ServerJobs
begin

text \<open>
  The server with its threads: the event loop and the workers interleave at the points where they share
  state. A worker takes a job, executes it on the cache, stages the response, exchanges the notification flag, pushes the connection onto the ready list, writes the eventfd and goes back to the
  pool. The loop handles one event at a time; for a completion event it reads the eventfd, swaps the
  ready list, and then clears the flag of each connection before flushing it. The environment may change
  the answers of the kernel between steps. When the loop ends, because \<^verbatim>\<open>epoll_wait\<close> fails or the shutdown has
  drained or timed out, it closes the listening socket, stops the pool (which may discard queued jobs), joins
  the workers, drains the last completions and closes the connections.
\<close>

section \<open>Threads and steps\<close>

datatype worker_pc = At_pool | Computed bytes | Staged nat | Marked nat | Pushed | Done

datatype loop_pc =
  Loop_idle | Loop_swap | Loop_drain "nat list" | Loop_flush nat "nat list"
| Loop_leave | Loop_unlistened | Loop_stopping "job list" | Loop_stopped "job list" | Loop_exited "job list"

text \<open>The jobs the shutdown of the pool has discarded.\<close>

fun lost_jobs :: "loop_pc \<Rightarrow> job list" where
  "lost_jobs (Loop_stopping js) = js"
| "lost_jobs (Loop_stopped js) = js"
| "lost_jobs (Loop_exited js) = js"
| "lost_jobs _ = []"

record system =
  sys_server :: server
  sys_pcs :: "worker_pc list"
  sys_loop :: loop_pc

definition set_pool :: "job worker_pool \<Rightarrow> server \<Rightarrow> server" where
  "set_pool pool s = s\<lparr>srv_pool := Some pool\<rparr>"

text \<open>What the environment may change: the answers to come and the clock.\<close>

definition kernel_env :: "kernel \<Rightarrow> kernel \<Rightarrow> bool" where
  "kernel_env k k' \<longleftrightarrow>
     k_completion k' = k_completion k \<and> k_interest k' = k_interest k \<and> k_sent k' = k_sent k \<and> k_files k' = k_files k"

text \<open>A step; one that executes a request is labelled with the request and its response.\<close>

inductive sys_step :: "system \<Rightarrow> (request \<times> response) option \<Rightarrow> system \<Rightarrow> bool" where
  take_job: "srv_pool s = Some pool \<Longrightarrow> i < length pcs \<Longrightarrow> pcs ! i = At_pool \<Longrightarrow> worker_take i pool = Some pool' \<Longrightarrow>
    sys_step \<lparr>sys_server = s, sys_pcs = pcs, sys_loop = l\<rparr> None
      \<lparr>sys_server = set_pool pool' s, sys_pcs = pcs, sys_loop = l\<rparr>"
| execute: "i < length pcs \<Longrightarrow> pcs ! i = At_pool \<Longrightarrow> i < length (threads_of s) \<Longrightarrow> threads_of s ! i = Running job \<Longrightarrow>
    execute_request (job_request job) s = Some (s', response) \<Longrightarrow>
    sys_step \<lparr>sys_server = s, sys_pcs = pcs, sys_loop = l\<rparr> (Some (job_request job, response))
      \<lparr>sys_server = s', sys_pcs = pcs[i := Computed (serialize_response_into response [])], sys_loop = l\<rparr>"
| stage: "i < length pcs \<Longrightarrow> pcs ! i = Computed frame \<Longrightarrow> i < length (threads_of s) \<Longrightarrow> threads_of s ! i = Running job \<Longrightarrow>
    sys_step \<lparr>sys_server = s, sys_pcs = pcs, sys_loop = l\<rparr> None
      \<lparr>sys_server = complete_stage (job_connection job) frame s,
       sys_pcs = pcs[i := Staged (job_connection job)], sys_loop = l\<rparr>"
| mark: "i < length pcs \<Longrightarrow> pcs ! i = Staged p \<Longrightarrow> complete_mark p s = (s', first) \<Longrightarrow>
    sys_step \<lparr>sys_server = s, sys_pcs = pcs, sys_loop = l\<rparr> None
      \<lparr>sys_server = s', sys_pcs = pcs[i := if first then Marked p else Done], sys_loop = l\<rparr>"
| push: "i < length pcs \<Longrightarrow> pcs ! i = Marked p \<Longrightarrow>
    sys_step \<lparr>sys_server = s, sys_pcs = pcs, sys_loop = l\<rparr> None
      \<lparr>sys_server = complete_push p s, sys_pcs = pcs[i := Pushed], sys_loop = l\<rparr>"
| wake: "i < length pcs \<Longrightarrow> pcs ! i = Pushed \<Longrightarrow>
    sys_step \<lparr>sys_server = s, sys_pcs = pcs, sys_loop = l\<rparr> None
      \<lparr>sys_server = complete_wake s, sys_pcs = pcs[i := Done], sys_loop = l\<rparr>"
| finish: "srv_pool s = Some pool \<Longrightarrow> i < length pcs \<Longrightarrow> pcs ! i = Done \<Longrightarrow> worker_finish i pool = Some pool' \<Longrightarrow>
    sys_step \<lparr>sys_server = s, sys_pcs = pcs, sys_loop = l\<rparr> None
      \<lparr>sys_server = set_pool pool' s, sys_pcs = pcs[i := At_pool], sys_loop = l\<rparr>"
| environment: "kernel_env (srv_kernel s) (g (srv_kernel s)) \<Longrightarrow>
    sys_step \<lparr>sys_server = s, sys_pcs = pcs, sys_loop = l\<rparr> None
      \<lparr>sys_server = upd_kernel g s, sys_pcs = pcs, sys_loop = l\<rparr>"
| event: "fst ev \<noteq> completion_fd s \<Longrightarrow> fresh_fds s \<Longrightarrow> dispatch ev s = Some s' \<Longrightarrow>
    sys_step \<lparr>sys_server = s, sys_pcs = pcs, sys_loop = Loop_idle\<rparr> None
      \<lparr>sys_server = s', sys_pcs = pcs, sys_loop = Loop_idle\<rparr>"
| completion: "sys_step \<lparr>sys_server = s, sys_pcs = pcs, sys_loop = Loop_idle\<rparr> None
      \<lparr>sys_server = drain_read s, sys_pcs = pcs, sys_loop = Loop_swap\<rparr>"
| swap: "drain_swap s = (s', ready) \<Longrightarrow>
    sys_step \<lparr>sys_server = s, sys_pcs = pcs, sys_loop = Loop_swap\<rparr> None
      \<lparr>sys_server = s', sys_pcs = pcs, sys_loop = Loop_drain ready\<rparr>"
| clear: "sys_step \<lparr>sys_server = s, sys_pcs = pcs, sys_loop = Loop_drain (p # ps)\<rparr> None
      \<lparr>sys_server = drain_clear p s, sys_pcs = pcs, sys_loop = Loop_flush p ps\<rparr>"
| flush: "drain_flush p s = Some s' \<Longrightarrow>
    sys_step \<lparr>sys_server = s, sys_pcs = pcs, sys_loop = Loop_flush p ps\<rparr> None
      \<lparr>sys_server = s', sys_pcs = pcs, sys_loop = Loop_drain ps\<rparr>"
| drained: "sys_step \<lparr>sys_server = s, sys_pcs = pcs, sys_loop = Loop_drain []\<rparr> None
      \<lparr>sys_server = s, sys_pcs = pcs, sys_loop = Loop_idle\<rparr>"
| give_up: "sys_step \<lparr>sys_server = s, sys_pcs = pcs, sys_loop = Loop_idle\<rparr> None
      \<lparr>sys_server = s, sys_pcs = pcs, sys_loop = Loop_leave\<rparr>"
| quit: "srv_draining s \<Longrightarrow> drain_complete s \<or> k_now_ms (srv_kernel s) \<ge> drain_deadline s \<Longrightarrow>
    sys_step \<lparr>sys_server = s, sys_pcs = pcs, sys_loop = Loop_idle\<rparr> None
      \<lparr>sys_server = s\<lparr>srv_running := False\<rparr>, sys_pcs = pcs, sys_loop = Loop_leave\<rparr>"
| unlisten: "sys_step \<lparr>sys_server = s, sys_pcs = pcs, sys_loop = Loop_leave\<rparr> None
      \<lparr>sys_server = stop_listening s, sys_pcs = pcs, sys_loop = Loop_unlistened\<rparr>"
| stop: "srv_pool s = Some pool \<Longrightarrow> stopper_at pool = Stop_none \<Longrightarrow>
    sys_step \<lparr>sys_server = s, sys_pcs = pcs, sys_loop = Loop_unlistened\<rparr> None
      \<lparr>sys_server = set_pool (drain_begin (shutdown_drain_ms (srv_config s)) pool) s, sys_pcs = pcs, sys_loop = Loop_stopping []\<rparr>"
| discard: "srv_pool s = Some pool \<Longrightarrow> drain_wake timed_out pool = Some pool' \<Longrightarrow>
    sys_step \<lparr>sys_server = s, sys_pcs = pcs, sys_loop = Loop_stopping js\<rparr> None
      \<lparr>sys_server = set_pool pool' s, sys_pcs = pcs, sys_loop = Loop_stopping (js @ queue pool)\<rparr>"
| join: "srv_pool s = Some pool \<Longrightarrow> drain_join pool = Some pool' \<Longrightarrow>
    sys_step \<lparr>sys_server = s, sys_pcs = pcs, sys_loop = Loop_stopping js\<rparr> None
      \<lparr>sys_server = set_pool pool' s, sys_pcs = [], sys_loop = Loop_stopped js\<rparr>"
| exit_run: "run_finish s = Some s' \<Longrightarrow>
    sys_step \<lparr>sys_server = s, sys_pcs = pcs, sys_loop = Loop_stopped js\<rparr> None
      \<lparr>sys_server = s', sys_pcs = pcs, sys_loop = Loop_exited js\<rparr>"

text \<open>A run, with the requests executed and their responses in order.\<close>

fun performed :: "(request \<times> response) option \<Rightarrow> (request \<times> response) list" where
  "performed None = []"
| "performed (Some e) = [e]"

inductive sys_reach :: "system \<Rightarrow> (request \<times> response) list \<Rightarrow> system \<Rightarrow> bool" where
  reach_refl: "sys_reach x [] x"
| reach_step: "sys_reach x log y \<Longrightarrow> sys_step y e z \<Longrightarrow> sys_reach x (log @ performed e) z"

section \<open>Wakeups\<close>

fun loop_list :: "loop_pc \<Rightarrow> nat list" where
  "loop_list (Loop_drain ps) = ps"
| "loop_list (Loop_flush p ps) = p # ps"
| "loop_list _ = []"

fun to_clear :: "loop_pc \<Rightarrow> nat list" where
  "to_clear (Loop_drain ps) = ps"
| "to_clear (Loop_flush p ps) = ps"
| "to_clear _ = []"

text \<open>Somebody is still to flush connection \<open>p\<close>: a worker, the ready list, or the loop.\<close>

definition announced :: "nat \<Rightarrow> system \<Rightarrow> bool" where
  "announced p x \<longleftrightarrow>
     p \<in> set (ready_connections (sys_server x)) \<or> Staged p \<in> set (sys_pcs x) \<or> Marked p \<in> set (sys_pcs x)
   \<or> p \<in> set (loop_list (sys_loop x))"

definition wake_inv :: "system \<Rightarrow> bool" where
  "wake_inv x \<longleftrightarrow>
     (\<forall>p < length (srv_heap (sys_server x)). quiet p (sys_server x) \<or> announced p x)
   \<and> (\<forall>p < length (srv_heap (sys_server x)). notify_pending (conn (sys_server x) p) \<longrightarrow>
        p \<in> set (ready_connections (sys_server x)) \<or> Marked p \<in> set (sys_pcs x) \<or> p \<in> set (to_clear (sys_loop x)))
   \<and> (ready_connections (sys_server x) \<noteq> [] \<longrightarrow>
        k_completion (srv_kernel (sys_server x)) > 0 \<or> Pushed \<in> set (sys_pcs x) \<or> sys_loop x = Loop_swap)"

lemma eventfd_write_pos: "eventfd_write n > 0"
proof (cases "n \<ge> 0xFFFFFFFFFFFFFFFE")
  case True
  then show ?thesis by (auto simp: eventfd_write_def word_gt_0)
next
  case False
  then have "unat n < 0xFFFFFFFFFFFFFFFE" by (simp add: word_le_nat_alt)
  then have "unat (n + 1) = unat n + 1" by (simp add: unat_add_exact)
  then show ?thesis using False by (simp add: eventfd_write_def word_gt_0 unat_eq_zero [symmetric])
qed

section \<open>Executing a job\<close>

lemma execute_request_frame:
  assumes "execute_request r s = Some (s', resp)" "cache_ok s" "request_fits r"
  shows "srv_heap s' = srv_heap s" "connections s' = connections s" "srv_pool s' = srv_pool s"
    "srv_config s' = srv_config s" "ready_connections s' = ready_connections s" "srv_kernel s' = srv_kernel s"
    "st_active_connections (srv_stats s') = st_active_connections (srv_stats s)" "cache_ok s'"
proof -
  have c: "st_active_connections (count_request r st x) = st_active_connections x" for st x
    by (simp add: count_request_def record_hit_def record_miss_def record_put_def record_delete_def
        split: opcode.split status.split)
  from execute_request_ok [of s r] assms show "srv_heap s' = srv_heap s" "connections s' = connections s"
    "srv_pool s' = srv_pool s" "srv_config s' = srv_config s" "ready_connections s' = ready_connections s"
    "srv_kernel s' = srv_kernel s" "cache_ok s'"
    "st_active_connections (srv_stats s') = st_active_connections (srv_stats s)"
    by (auto simp: cache_ok_def executed_def c)
qed

section \<open>Invariant of the system\<close>

text \<open>A worker that has taken a job of connection \<open>p\<close> and not yet staged the response.\<close>

fun unstaged :: "worker_pc \<Rightarrow> bool" where
  "unstaged At_pool = True"
| "unstaged (Computed frame) = True"
| "unstaged _ = False"

fun busy_for :: "nat \<Rightarrow> job worker \<times> worker_pc \<Rightarrow> bool" where
  "busy_for p (Running j, pc) = (unstaged pc \<and> job_connection j = p)"
| "busy_for p _ = False"

lemma busy_for_staged [simp]: "\<not> unstaged pc \<Longrightarrow> \<not> busy_for p (w, pc)"
  by (cases w) simp_all

definition running_at :: "job worker list \<Rightarrow> worker_pc list \<Rightarrow> nat \<Rightarrow> nat" where
  "running_at ws pcs p = length (filter (busy_for p) (zip ws pcs))"

definition workers_inv :: "system \<Rightarrow> bool" where
  "workers_inv x \<longleftrightarrow>
     length (sys_pcs x) = length (threads_of (sys_server x))
   \<and> (\<forall>j. Running j \<in> set (threads_of (sys_server x)) \<longrightarrow> job_ok (sys_server x) j)
   \<and> (\<forall>i < length (sys_pcs x). sys_pcs x ! i \<noteq> At_pool \<longrightarrow> (\<exists>j. threads_of (sys_server x) ! i = Running j))
   \<and> (\<forall>p. announced p x \<longrightarrow> p < length (srv_heap (sys_server x)))"

text \<open>What the in-flight counter of connection \<open>p\<close> counts besides queued jobs.\<close>

definition outstanding :: "job worker list \<Rightarrow> worker_pc list \<Rightarrow> loop_pc \<Rightarrow> nat \<Rightarrow> nat" where
  "outstanding ws pcs l p = running_at ws pcs p + length (filter (\<lambda>j. job_connection j = p) (lost_jobs l))"

definition sys_inv :: "system \<Rightarrow> bool" where
  "sys_inv x \<longleftrightarrow>
     srv_inv (outstanding (threads_of (sys_server x)) (sys_pcs x) (sys_loop x)) (sys_server x)
   \<and> workers_inv x \<and> cache_ok (sys_server x) \<and> wake_inv x"

lemma length_filter_update:
  assumes "i < length xs"
  shows "length (filter P (xs[i := y])) + (if P (xs ! i) then 1 else 0)
    = length (filter P xs) + (if P y then 1 else 0)"
proof -
  have split: "length (filter P (as @ b # cs)) = length (filter P as) + (if P b then 1 else 0) + length (filter P cs)"
    for as b cs by simp
  note r = arg_cong [OF id_take_nth_drop [OF assms], of "\<lambda>xs. length (filter P xs)", unfolded split]
  show ?thesis unfolding upd_conv_take_nth_drop [OF assms] split using r by simp
qed

lemma running_at_update:
  assumes "i < length ws" "length pcs = length ws"
  shows "running_at (ws[i := w]) (pcs[i := pc]) p + (if busy_for p (ws ! i, pcs ! i) then 1 else 0)
    = running_at ws pcs p + (if busy_for p (w, pc) then 1 else 0)"
  using length_filter_update [of i "zip ws pcs" "busy_for p" "(w, pc)"] assms
  by (simp add: running_at_def zip_update [symmetric])

lemma running_at_pc:
  assumes "i < length ws" "length pcs = length ws"
  shows "running_at ws (pcs[i := pc]) p + (if busy_for p (ws ! i, pcs ! i) then 1 else 0)
    = running_at ws pcs p + (if busy_for p (ws ! i, pc) then 1 else 0)"
  using running_at_update [OF assms, of "ws ! i" pc p] by simp

lemma srv_inv_set_pool:
  assumes "srv_inv extra s" "srv_pool s = Some pool" "pool_inv pool'" "list_all (job_ok s) (queue pool')"
    and "\<And>p. length (filter (\<lambda>j. job_connection j = p) (queue pool')) + extra' p
      = length (filter (\<lambda>j. job_connection j = p) (queue pool)) + extra p"
    and "\<And>p. length (srv_heap s) \<le> p \<Longrightarrow> extra' p = 0"
  shows "srv_inv extra' (set_pool pool' s)"
  unfolding srv_inv_def
proof (intro conjI)
  have q: "queued p (set_pool pool' s) + extra' p = queued p s + extra p" for p
    using assms(2,5) by (simp add: queued_def set_pool_def)
  show "inflight_inv extra' (set_pool pool' s)"
    using assms(1,6) by (simp add: srv_inv_def inflight_inv_def q) (simp add: set_pool_def)
  show "pool_ok (set_pool pool' s)"
    using assms(3,4) by (simp add: pool_ok_def set_pool_def job_ok_def list_all_iff)
qed (use assms(1) in \<open>simp_all add: srv_inv_def table_inv_def heap_inv_def set_pool_def\<close>)

lemma set_pool_fields [simp]:
  "srv_heap (set_pool pool s) = srv_heap s" "srv_pool (set_pool pool s) = Some pool"
  "srv_config (set_pool pool s) = srv_config s" "srv_cache (set_pool pool s) = srv_cache s"
  "ready_connections (set_pool pool s) = ready_connections s" "srv_kernel (set_pool pool s) = srv_kernel s"
  "job_ok (set_pool pool s) = job_ok s" "quiet p (set_pool pool s) = quiet p s"
  "cache_ok (set_pool pool s) = cache_ok s"
  by (simp_all add: set_pool_def job_ok_def fun_eq_iff quiet_def cache_ok_def)

lemma wake_inv_cong:
  assumes "srv_heap s' = srv_heap s" "ready_connections s' = ready_connections s"
    and "k_completion (srv_kernel s') = k_completion (srv_kernel s)"
  shows "wake_inv \<lparr>sys_server = s', sys_pcs = pcs, sys_loop = l\<rparr>
    = wake_inv \<lparr>sys_server = s, sys_pcs = pcs, sys_loop = l\<rparr>"
  using assms by (simp add: wake_inv_def announced_def quiet_def)

lemma take_job_inv:
  assumes "sys_inv \<lparr>sys_server = s, sys_pcs = pcs, sys_loop = l\<rparr>" "srv_pool s = Some pool"
    and "i < length pcs" "pcs ! i = At_pool" "worker_take i pool = Some pool'"
  shows "sys_inv \<lparr>sys_server = set_pool pool' s, sys_pcs = pcs, sys_loop = l\<rparr>"
proof -
  let ?ws = "threads pool"
  have i: "srv_inv (outstanding ?ws pcs l) s" "workers_inv \<lparr>sys_server = s, sys_pcs = pcs, sys_loop = l\<rparr>"
    "cache_ok s" "wake_inv \<lparr>sys_server = s, sys_pcs = pcs, sys_loop = l\<rparr>"
    using assms(1,2) by (simp_all add: sys_inv_def)
  have len: "length pcs = length ?ws" using i(2) assms(2) by (simp add: workers_inv_def)
  have pool: "pool_inv pool" "list_all (job_ok s) (queue pool)"
    using i(1) assms(2) by (auto simp: srv_inv_def pool_ok_def)
  have ex: "length (srv_heap s) \<le> p \<Longrightarrow> outstanding ?ws pcs l p = 0" for p
    using i(1) by (simp add: srv_inv_def inflight_inv_def)
  have inv': "pool_inv pool'"
  proof (cases "queue pool")
    case Nil
    from pool_step_inv [OF pool_step.leave [OF assms(5) Nil] pool(1)] show ?thesis .
  next
    case (Cons j q)
    from pool_step_inv [OF pool_step.take [OF assms(5) Cons] pool(1)] show ?thesis .
  qed
  have wk: "wake_inv \<lparr>sys_server = set_pool pool' s, sys_pcs = pcs, sys_loop = l\<rparr>"
    using i(4) by (subst wake_inv_cong [of _ s]) simp_all
  from assms(5) show ?thesis
  proof (cases rule: worker_take_cases)
    case left
    note u = running_at_update [OF left(3) len, of Exited At_pool]
    have "outstanding (?ws[i := Exited]) pcs l p = outstanding ?ws pcs l p" for p
      using u [of p] left(4) assms(4) by (simp add: outstanding_def list_update_same_conv [THEN iffD2] assms(3))
    then have "srv_inv (outstanding (threads pool') pcs l) (set_pool pool' s)"
      using left ex pool(2) by (intro srv_inv_set_pool [OF i(1) assms(2) inv']) simp_all
    moreover have "workers_inv \<lparr>sys_server = set_pool pool' s, sys_pcs = pcs, sys_loop = l\<rparr>"
      using i(2) assms(2,4) left
      by (auto simp: workers_inv_def announced_def nth_list_update dest: in_set_update)
    ultimately show ?thesis using i(3) wk by (simp add: sys_inv_def)
  next
    case (took job rest)
    note u = running_at_update [OF took(2) len, of "Running job" At_pool]
    have "outstanding (?ws[i := Running job]) pcs l p = outstanding ?ws pcs l p + (if job_connection job = p then 1 else 0)" for p
      using u [of p] took(3) assms(4) by (simp add: outstanding_def list_update_same_conv [THEN iffD2] assms(3))
    moreover have "job_ok s job" "list_all (job_ok s) rest" using pool(2) took(1) by simp_all
    ultimately have "srv_inv (outstanding (threads pool') pcs l) (set_pool pool' s)"
      using took ex by (intro srv_inv_set_pool [OF i(1) assms(2) inv']) (auto simp: job_ok_def)
    moreover have "workers_inv \<lparr>sys_server = set_pool pool' s, sys_pcs = pcs, sys_loop = l\<rparr>"
      using i(2) assms(2,4) took \<open>job_ok s job\<close>
      by (auto simp: workers_inv_def announced_def nth_list_update dest: in_set_update)
    ultimately show ?thesis using i(3) wk by (simp add: sys_inv_def)
  qed
qed

lemma to_clear_subset: "set (to_clear l) \<subseteq> set (loop_list l)"
  by (cases l) auto

lemma mem_update:
  "i < length xs \<Longrightarrow> xs ! i \<noteq> x \<Longrightarrow> x \<in> set (xs[i := y]) \<longleftrightarrow> x = y \<or> x \<in> set xs"
  by (induction xs arbitrary: i) (auto split: nat.splits)

lemma sys_inv_simps:
  "sys_inv \<lparr>sys_server = s, sys_pcs = pcs, sys_loop = l\<rparr> \<longleftrightarrow>
     srv_inv (outstanding (threads_of s) pcs l) s \<and> workers_inv \<lparr>sys_server = s, sys_pcs = pcs, sys_loop = l\<rparr>
     \<and> cache_ok s \<and> wake_inv \<lparr>sys_server = s, sys_pcs = pcs, sys_loop = l\<rparr>"
  by (simp add: sys_inv_def)

lemma finish_inv:
  assumes "sys_inv \<lparr>sys_server = s, sys_pcs = pcs, sys_loop = l\<rparr>" "srv_pool s = Some pool"
    and "i < length pcs" "pcs ! i = Done" "worker_finish i pool = Some pool'"
  shows "sys_inv \<lparr>sys_server = set_pool pool' s, sys_pcs = pcs[i := At_pool], sys_loop = l\<rparr>"
proof -
  note i = assms(1) [unfolded sys_inv_simps]
  from assms(5) obtain job where f: "i < length (threads pool)" "threads pool ! i = Running job"
    "pool' = pool\<lparr>threads := (threads pool)[i := Waiting], completed := completed pool + 1\<rparr>"
    by (cases rule: worker_finish_cases)
  have len: "length pcs = length (threads pool)" using i assms(2) by (simp add: workers_inv_def)
  have pool: "pool_inv pool" "list_all (job_ok s) (queue pool)"
    using i assms(2) by (auto simp: srv_inv_def pool_ok_def)
  have ra: "outstanding (threads pool') (pcs[i := At_pool]) l p = outstanding (threads pool) pcs l p" for p
    using running_at_update [OF f(1) len, of Waiting At_pool p] f assms(4) by (simp add: outstanding_def)
  have "srv_inv (outstanding (threads pool') (pcs[i := At_pool]) l) (set_pool pool' s)"
  proof (rule srv_inv_set_pool [OF _ assms(2)])
    show "srv_inv (outstanding (threads pool) pcs l) s" using i assms(2) by simp
    show "pool_inv pool'" by (rule pool_step_inv [OF pool_step.finish [OF assms(5) f(2)] pool(1)])
    show "outstanding (threads pool') (pcs[i := At_pool]) l p = 0" if "length (srv_heap s) \<le> p" for p
      using i that ra assms(2) by (simp add: srv_inv_def inflight_inv_def)
  qed (use pool f ra in simp_all)
  moreover have "workers_inv \<lparr>sys_server = set_pool pool' s, sys_pcs = pcs[i := At_pool], sys_loop = l\<rparr>"
    using i assms f by (auto simp: workers_inv_def announced_def nth_list_update mem_update dest: in_set_update)
  moreover have "wake_inv \<lparr>sys_server = set_pool pool' s, sys_pcs = pcs[i := At_pool], sys_loop = l\<rparr>"
    using i assms by (simp add: wake_inv_def announced_def mem_update)
  ultimately show ?thesis using i by (simp add: sys_inv_simps)
qed

lemma complete_stage_ok:
  assumes "srv_inv extra s" "p < length (srv_heap s)" "extra p = Suc (extra' p)" "\<And>q. q \<noteq> p \<Longrightarrow> extra' q = extra q"
  shows "srv_inv extra' (complete_stage p f s)" "touch p s (complete_stage p f s)"
    "srv_pool (complete_stage p f s) = srv_pool s" "connections (complete_stage p f s) = connections s"
proof -
  obtain c ok where e: "enqueue_response f True (conn s p) = (c, ok)" by fastforce
  define d where "d = (if \<not> ok then mark_close_after_flush c else c)"
  define t where "t = put_conn p d s"
  have ts: "complete_stage p f s = t" by (simp add: complete_stage_def e d_def t_def)
  have d: "conn_fd d = conn_fd (conn s p)" "conn_limits d = conn_limits (conn s p)"
    "conn_closed d = conn_closed (conn s p)" "notify_pending d = notify_pending (conn s p)"
    "inflight d = inflight (conn s p) - 1" "conn_inv d"
    using enqueue_response_fields [OF e] enqueue_response_inv [OF srv_inv_conn [OF assms(1,2)] e]
    by (auto simp: d_def)
  have q: "unat (inflight (conn s p)) = queued p s + Suc (extra' p)"
    "queued p s + Suc (extra' p) \<le> unat (max_inflight_per_conn (srv_config s))"
    unfolding assms(3) [symmetric] using assms(1,2) by (simp_all add: srv_inv_def inflight_inv_def)
  have u: "unat (inflight d) = queued p s + extra' p"
    using q(1) d(5) unat_sub_exact [of 1 "inflight (conn s p)"] by simp
  have k: "conn t q = (if q = p then d else conn s q)" for q using assms(2) by (simp add: t_def)
  show "srv_inv extra' (complete_stage p f s)"
    unfolding ts srv_inv_def
  proof (intro conjI)
    show "table_inv t" using assms(1) d by (simp add: srv_inv_def table_inv_def k) (simp add: t_def)
    show "heap_inv t" using assms(1) d by (simp add: srv_inv_def heap_inv_def k) (simp add: t_def)
    show "inflight_inv extra' t"
      using assms u q by (simp add: srv_inv_def inflight_inv_def k) (auto simp: t_def)
    show "pool_ok t" using assms(1) pool_ok_cong [of t s] by (simp add: srv_inv_def t_def)
  qed
  show "touch p s (complete_stage p f s)" unfolding ts t_def using d by (intro touch_put_conn) simp_all
  show "srv_pool (complete_stage p f s) = srv_pool s" "connections (complete_stage p f s) = connections s"
    unfolding ts by (simp_all add: t_def)
qed

lemma worker_job_ok:
  assumes "workers_inv \<lparr>sys_server = s, sys_pcs = pcs, sys_loop = l\<rparr>" "i < length (threads_of s)" "threads_of s ! i = Running j"
  shows "job_ok s j"
  using assms nth_mem [OF assms(2)] unfolding workers_inv_def by (metis system.select_convs(1))

lemma announced_bound:
  assumes "workers_inv \<lparr>sys_server = s, sys_pcs = pcs, sys_loop = l\<rparr>" "announced p \<lparr>sys_server = s, sys_pcs = pcs, sys_loop = l\<rparr>"
  shows "p < length (srv_heap s)"
  using assms unfolding workers_inv_def by simp

text \<open>A step of worker \<open>i\<close> between taking a job and finishing it leaves the pool alone.\<close>

lemma workers_inv_step:
  assumes "workers_inv \<lparr>sys_server = s, sys_pcs = pcs, sys_loop = l\<rparr>"
    and "threads_of t = threads_of s" "length (srv_heap t) = length (srv_heap s)" "srv_config t = srv_config s"
    and "\<exists>j. threads_of s ! i = Running j"
    and "\<And>q. announced q \<lparr>sys_server = t, sys_pcs = pcs[i := pc], sys_loop = l\<rparr> \<Longrightarrow>
      announced q \<lparr>sys_server = s, sys_pcs = pcs, sys_loop = l\<rparr> \<or> q < length (srv_heap s)"
  shows "workers_inv \<lparr>sys_server = t, sys_pcs = pcs[i := pc], sys_loop = l\<rparr>"
proof -
  note w = assms(1) [unfolded workers_inv_def, simplified]
  have "\<exists>j. threads_of s ! k = Running j" if "k < length pcs" "pcs[i := pc] ! k \<noteq> At_pool" for k
    using w that assms(5) by (cases "k = i") auto
  moreover have "job_ok t = job_ok s" using job_ok_cong [OF assms(3,4)] by (simp add: fun_eq_iff)
  ultimately show ?thesis
    using w assms(6) announced_bound [OF assms(1)] unfolding workers_inv_def by (simp add: assms(2,3)) blast
qed

text \<open>
  Steps that keep every connection and the pool: what is announced may only shift between the worker,
  the list and the loop.
\<close>

lemma sys_inv_shift:
  assumes "sys_inv \<lparr>sys_server = s, sys_pcs = pcs, sys_loop = l\<rparr>"
    and "srv_heap t = srv_heap s" "connections t = connections s" "srv_pool t = srv_pool s"
    and "srv_config t = srv_config s" "st_active_connections (srv_stats t) = st_active_connections (srv_stats s)" "cache_ok t"
    and "length pcs' = length pcs" "\<And>k. k < length pcs \<Longrightarrow> unstaged (pcs' ! k) = unstaged (pcs ! k)"
    and "\<And>k. k < length pcs \<Longrightarrow> pcs' ! k \<noteq> At_pool \<Longrightarrow> pcs ! k \<noteq> At_pool \<or> (\<exists>j. threads_of s ! k = Running j)"
    and "\<And>q. announced q \<lparr>sys_server = t, sys_pcs = pcs', sys_loop = l'\<rparr>
      = announced q \<lparr>sys_server = s, sys_pcs = pcs, sys_loop = l\<rparr>"
    and "wake_inv \<lparr>sys_server = t, sys_pcs = pcs', sys_loop = l'\<rparr>" "lost_jobs l' = lost_jobs l"
  shows "sys_inv \<lparr>sys_server = t, sys_pcs = pcs', sys_loop = l'\<rparr>"
proof -
  note i = assms(1) [unfolded sys_inv_simps]
  have len: "length pcs = length (threads_of s)" using i by (simp add: workers_inv_def)
  have b: "busy_for p (w, a) = busy_for p (w, b)" if "unstaged a = unstaged b" for p w a b
    using that by (cases w) simp_all
  have "busy_for p (zip (threads_of s) pcs' ! k) = busy_for p (zip (threads_of s) pcs ! k)" if "k < length pcs" for p k
    using that len assms(8,9) by (simp add: b [of "pcs' ! k" "pcs ! k"])
  then have "running_at (threads_of s) pcs' = running_at (threads_of s) pcs"
    unfolding running_at_def length_filter_conv_card fun_eq_iff
    using len assms(8) by (intro allI arg_cong [where f = card] Collect_cong) auto
  then have "outstanding (threads_of s) pcs' l' = outstanding (threads_of s) pcs l"
    by (simp add: outstanding_def fun_eq_iff assms(13))
  moreover have run: "\<exists>j. threads_of s ! k = Running j" if "k < length pcs" "pcs' ! k \<noteq> At_pool" for k
    using assms(10) [OF that] i that(1) by (auto simp: workers_inv_def)
  moreover have "srv_inv extra t = srv_inv extra s" for extra using assms(2-6) by (intro srv_inv_cong) simp_all
  moreover have "job_ok t = job_ok s" using assms(2,5) by (simp add: job_ok_def fun_eq_iff)
  ultimately show ?thesis
    using i run assms(2,4,5,7,8,11,12) by (simp add: sys_inv_simps workers_inv_def)
qed

lemma execute_inv:
  assumes "sys_inv \<lparr>sys_server = s, sys_pcs = pcs, sys_loop = l\<rparr>"
    and "i < length pcs" "pcs ! i = At_pool" "i < length (threads_of s)" "threads_of s ! i = Running job"
    and "execute_request (job_request job) s = Some (s', response)"
  shows "sys_inv \<lparr>sys_server = s', sys_pcs = pcs[i := Computed f], sys_loop = l\<rparr>"
proof -
  note i = assms(1) [unfolded sys_inv_simps]
  have "job_ok s job" using i assms(4,5) by (blast intro: worker_job_ok)
  then have "request_fits (job_request job)" by (auto simp: job_ok_def intro: request_ok_fits)
  note e = execute_request_frame [OF assms(6) _ this]
  have c: "cache_ok s" using i by simp
  have m: "Staged q \<in> set (pcs[i := Computed f]) \<longleftrightarrow> Staged q \<in> set pcs" "Pushed \<in> set (pcs[i := Computed f]) \<longleftrightarrow> Pushed \<in> set pcs"
    "Marked q \<in> set (pcs[i := Computed f]) \<longleftrightarrow> Marked q \<in> set pcs" for q
    using assms(2,3) by (simp_all add: mem_update)
  show ?thesis
  proof (rule sys_inv_shift [OF assms(1)])
    show a: "announced q \<lparr>sys_server = s', sys_pcs = pcs[i := Computed f], sys_loop = l\<rparr>
        = announced q \<lparr>sys_server = s, sys_pcs = pcs, sys_loop = l\<rparr>" for q
      by (simp add: announced_def m e [OF c])
    show "wake_inv \<lparr>sys_server = s', sys_pcs = pcs[i := Computed f], sys_loop = l\<rparr>"
      using i by (simp add: wake_inv_def a quiet_def m e [OF c])
  qed (use e [OF c] assms(2,3,5) in \<open>auto simp: nth_list_update split: if_splits\<close>)
qed

lemma stage_inv:
  assumes "sys_inv \<lparr>sys_server = s, sys_pcs = pcs, sys_loop = l\<rparr>"
    and "i < length pcs" "pcs ! i = Computed f" "i < length (threads_of s)" "threads_of s ! i = Running job"
  shows "sys_inv \<lparr>sys_server = complete_stage (job_connection job) f s,
    sys_pcs = pcs[i := Staged (job_connection job)], sys_loop = l\<rparr>"
proof -
  note i = assms(1) [unfolded sys_inv_simps]
  let ?p = "job_connection job" and ?pcs = "pcs[i := Staged (job_connection job)]" and ?t = "complete_stage (job_connection job) f s"
  have len: "length pcs = length (threads_of s)" using i by (simp add: workers_inv_def)
  have "job_ok s job" using i assms(4,5) by (blast intro: worker_job_ok)
  then have p: "?p < length (srv_heap s)" by (auto simp: job_ok_def)
  have "outstanding (threads_of s) pcs l q = outstanding (threads_of s) ?pcs l q + (if q = ?p then 1 else 0)" for q
    using running_at_pc [OF assms(4) len, of "Staged ?p" q] assms(3,5) by (simp add: outstanding_def split: if_splits)
  then have st: "srv_inv (outstanding (threads_of s) ?pcs l) ?t" "touch ?p s ?t" "srv_pool ?t = srv_pool s"
    using i p complete_stage_ok [of "outstanding (threads_of s) pcs l" s ?p "outstanding (threads_of s) ?pcs l" f] by simp_all
  have k: "conn ?t q = conn s q" if "q \<noteq> ?p" for q using st(2) that by (simp add: touch_def)
  have t: "length (srv_heap ?t) = length (srv_heap s)" "srv_config ?t = srv_config s" "srv_cache ?t = srv_cache s"
    "ready_connections ?t = ready_connections s" "k_completion (srv_kernel ?t) = k_completion (srv_kernel s)"
    "notify_pending (conn ?t ?p) = notify_pending (conn s ?p)"
    using st(2) by (simp_all add: touch_def)
  have "workers_inv \<lparr>sys_server = ?t, sys_pcs = ?pcs, sys_loop = l\<rparr>"
    using i p assms(2,3,5) st(3) t by (intro workers_inv_step [of s]) (auto simp: announced_def mem_update)
  moreover have "wake_inv \<lparr>sys_server = ?t, sys_pcs = ?pcs, sys_loop = l\<rparr>"
  proof -
    have n: "notify_pending (conn ?t q) = notify_pending (conn s q)" for q using k t(6) by (cases "q = ?p") simp_all
    have "quiet q ?t \<or> announced q \<lparr>sys_server = ?t, sys_pcs = ?pcs, sys_loop = l\<rparr>"
      if "q < length (srv_heap s)" for q
      using i that assms(2,3) k t by (cases "q = ?p") (auto simp: wake_inv_def announced_def quiet_def mem_update)
    with i assms(2,3) n t show ?thesis by (simp add: wake_inv_def mem_update)
  qed
  moreover have "cache_ok ?t" using i t by (simp add: cache_ok_def)
  ultimately show ?thesis using st by (simp add: sys_inv_simps)
qed

lemma mark_inv:
  assumes "sys_inv \<lparr>sys_server = s, sys_pcs = pcs, sys_loop = l\<rparr>"
    and "i < length pcs" "pcs ! i = Staged p" "complete_mark p s = (s', first)"
  shows "sys_inv \<lparr>sys_server = s', sys_pcs = pcs[i := if first then Marked p else Done], sys_loop = l\<rparr>"
proof -
  note i = assms(1) [unfolded sys_inv_simps]
  let ?pc = "if first then Marked p else Done"
  have len: "length pcs = length (threads_of s)" using i by (simp add: workers_inv_def)
  have p: "p < length (srv_heap s)"
    using i assms(2,3) nth_mem [OF assms(2)] by (intro announced_bound [of s pcs l]) (auto simp: announced_def)
  have s': "s' = put_conn p ((conn s p)\<lparr>notify_pending := True\<rparr>) s" "first = (\<not> notify_pending (conn s p))"
    using assms(4) by (auto simp: complete_mark_def try_mark_notified_def)
  have k: "conn s' q = (if q = p then (conn s p)\<lparr>notify_pending := True\<rparr> else conn s q)" for q
    using p by (simp add: s')
  have ra: "outstanding (threads_of s') (pcs[i := ?pc]) l = outstanding (threads_of s) pcs l"
    using running_at_pc [of i "threads_of s" pcs ?pc] len assms(2,3) by (auto simp: s'(1) outstanding_def fun_eq_iff)
  have "srv_inv (outstanding (threads_of s) pcs l) s'"
    unfolding s'(1) using i srv_inv_conn [OF _ p] by (intro srv_inv_put_conn) (auto simp: conn_inv_def unsent_def)
  moreover have "workers_inv \<lparr>sys_server = s', sys_pcs = pcs[i := ?pc], sys_loop = l\<rparr>"
  proof (rule workers_inv_step [of s])
    have "Staged q \<in> set (pcs[i := ?pc]) \<Longrightarrow> Staged q \<in> set pcs"
      "Marked q \<in> set (pcs[i := ?pc]) \<Longrightarrow> q = p \<or> Marked q \<in> set pcs" for q
      using set_update_subset_insert [of pcs i ?pc] by (auto split: if_splits)
    then show "announced q \<lparr>sys_server = s, sys_pcs = pcs, sys_loop = l\<rparr> \<or> q < length (srv_heap s)"
      if "announced q \<lparr>sys_server = s', sys_pcs = pcs[i := ?pc], sys_loop = l\<rparr>" for q
      using that p by (auto simp: announced_def s'(1))
  qed (use i assms(2,3) in \<open>auto simp: s'(1) workers_inv_def\<close>)
  moreover have "wake_inv \<lparr>sys_server = s', sys_pcs = pcs[i := ?pc], sys_loop = l\<rparr>"
  proof -
    have q: "quiet q s' = quiet q s" for q by (simp add: quiet_def k has_pending_output_def)
    have m: "Marked q \<in> set (pcs[i := ?pc]) \<longleftrightarrow> first \<and> q = p \<or> Marked q \<in> set pcs"
      "Pushed \<in> set (pcs[i := ?pc]) \<longleftrightarrow> Pushed \<in> set pcs"
      "q \<noteq> p \<Longrightarrow> Staged q \<in> set (pcs[i := ?pc]) \<longleftrightarrow> Staged q \<in> set pcs" for q
      using assms(2,3) by (auto simp: mem_update)
    have f: "ready_connections s' = ready_connections s" "srv_kernel s' = srv_kernel s"
      "length (srv_heap s') = length (srv_heap s)" by (simp_all add: s'(1))
    have w: "notify_pending (conn s r) \<Longrightarrow> r < length (srv_heap s) \<Longrightarrow>
      r \<in> set (ready_connections s) \<or> Marked r \<in> set pcs \<or> r \<in> set (to_clear l)"
      "r < length (srv_heap s) \<Longrightarrow> quiet r s \<or> announced r \<lparr>sys_server = s, sys_pcs = pcs, sys_loop = l\<rparr>" for r
      using i by (simp_all add: wake_inv_def)
    have n: "r \<in> set (ready_connections s) \<or> Marked r \<in> set (pcs[i := ?pc]) \<or> r \<in> set (to_clear l)"
      if "r < length (srv_heap s)" "notify_pending (conn s' r)" for r
      using w(1) [of r] that s'(2) unfolding m k by (cases "r = p") auto
    moreover have "quiet r s \<or> announced r \<lparr>sys_server = s', sys_pcs = pcs[i := ?pc], sys_loop = l\<rparr>"
      if r: "r < length (srv_heap s)" for r
    proof (cases "r = p")
      case True
      with n [of p] p to_clear_subset [of l] show ?thesis by (auto simp: announced_def k f)
    next
      case False
      then show ?thesis using w(2) [OF r] by (simp add: announced_def m f)
    qed
    ultimately show ?thesis using i by (simp add: wake_inv_def q m(2) f)
  qed
  moreover have "cache_ok s'" using i by (simp add: s'(1) cache_ok_def)
  ultimately show ?thesis by (simp add: sys_inv_simps ra)
qed

lemma push_inv:
  assumes "sys_inv \<lparr>sys_server = s, sys_pcs = pcs, sys_loop = l\<rparr>" "i < length pcs" "pcs ! i = Marked p"
  shows "sys_inv \<lparr>sys_server = complete_push p s, sys_pcs = pcs[i := Pushed], sys_loop = l\<rparr>"
proof (rule sys_inv_shift [OF assms(1)])
  note i = assms(1) [unfolded sys_inv_simps]
  have m: "Staged q \<in> set (pcs[i := Pushed]) \<longleftrightarrow> Staged q \<in> set pcs" "Pushed \<in> set (pcs[i := Pushed])"
    "q \<noteq> p \<Longrightarrow> Marked q \<in> set (pcs[i := Pushed]) \<longleftrightarrow> Marked q \<in> set pcs" "Marked p \<in> set pcs" for q
    using assms(2,3) nth_mem [OF assms(2)] by (auto simp: mem_update set_update_memI)
  let ?x = "\<lparr>sys_server = complete_push p s, sys_pcs = pcs[i := Pushed], sys_loop = l\<rparr>"
  show a: "announced q ?x = announced q \<lparr>sys_server = s, sys_pcs = pcs, sys_loop = l\<rparr>" for q
    by (cases "q = p") (auto simp: announced_def complete_push_def m)
  have n: "q \<in> set (ready_connections (complete_push p s)) \<or> Marked q \<in> set (pcs[i := Pushed]) \<longleftrightarrow>
      q \<in> set (ready_connections s) \<or> Marked q \<in> set pcs" for q
    by (cases "q = p") (auto simp: complete_push_def m)
  have h: "srv_heap (complete_push p s) = srv_heap s" by (simp add: complete_push_def)
  show "wake_inv ?x"
    using i n by (simp add: wake_inv_def a [unfolded sys_inv_simps] quiet_def h m) blast
qed (use assms in \<open>auto simp: complete_push_def nth_list_update sys_inv_simps cache_ok_def split: if_splits\<close>)

lemma wake_step_inv:
  assumes "sys_inv \<lparr>sys_server = s, sys_pcs = pcs, sys_loop = l\<rparr>" "i < length pcs" "pcs ! i = Pushed"
  shows "sys_inv \<lparr>sys_server = complete_wake s, sys_pcs = pcs[i := Done], sys_loop = l\<rparr>"
proof (rule sys_inv_shift [OF assms(1)])
  note i = assms(1) [unfolded sys_inv_simps]
  have m: "Staged q \<in> set (pcs[i := Done]) \<longleftrightarrow> Staged q \<in> set pcs"
    "Marked q \<in> set (pcs[i := Done]) \<longleftrightarrow> Marked q \<in> set pcs" for q
    using assms(2,3) by (simp_all add: mem_update)
  let ?x = "\<lparr>sys_server = complete_wake s, sys_pcs = pcs[i := Done], sys_loop = l\<rparr>"
  show a: "announced q ?x = announced q \<lparr>sys_server = s, sys_pcs = pcs, sys_loop = l\<rparr>" for q
    by (auto simp: announced_def complete_wake_def m)
  have "k_completion (srv_kernel (complete_wake s)) > 0" by (simp add: complete_wake_def eventfd_write_pos)
  then show "wake_inv ?x" using i by (simp add: wake_inv_def a quiet_def m) (simp add: complete_wake_def)
qed (use assms in \<open>auto simp: complete_wake_def nth_list_update sys_inv_simps cache_ok_def split: if_splits\<close>)

lemma loop_step_inv:
  assumes "sys_inv \<lparr>sys_server = s, sys_pcs = pcs, sys_loop = Loop_idle\<rparr>"
  shows "sys_inv \<lparr>sys_server = drain_read s, sys_pcs = pcs, sys_loop = Loop_swap\<rparr>"
  by (rule sys_inv_shift [OF assms])
    (use assms in \<open>auto simp: cache_ok_def drain_read_def announced_def sys_inv_simps wake_inv_def quiet_def\<close>)

lemma swap_inv:
  assumes "sys_inv \<lparr>sys_server = s, sys_pcs = pcs, sys_loop = Loop_swap\<rparr>" "drain_swap s = (s', ready)"
  shows "sys_inv \<lparr>sys_server = s', sys_pcs = pcs, sys_loop = Loop_drain ready\<rparr>"
  by (rule sys_inv_shift [OF assms(1)])
    (use assms in \<open>auto simp: cache_ok_def drain_swap_def announced_def sys_inv_simps wake_inv_def quiet_def\<close>)

lemma drained_inv:
  assumes "sys_inv \<lparr>sys_server = s, sys_pcs = pcs, sys_loop = Loop_drain []\<rparr>"
  shows "sys_inv \<lparr>sys_server = s, sys_pcs = pcs, sys_loop = Loop_idle\<rparr>"
  by (rule sys_inv_shift [OF assms])
    (use assms in \<open>auto simp: announced_def sys_inv_simps wake_inv_def quiet_def\<close>)

lemma environment_inv:
  assumes "sys_inv \<lparr>sys_server = s, sys_pcs = pcs, sys_loop = l\<rparr>" "kernel_env (srv_kernel s) (g (srv_kernel s))"
  shows "sys_inv \<lparr>sys_server = upd_kernel g s, sys_pcs = pcs, sys_loop = l\<rparr>"
  by (rule sys_inv_shift [OF assms(1)])
    (use assms in \<open>simp_all add: cache_ok_def announced_def sys_inv_simps kernel_env_def wake_inv_cong [of "upd_kernel g s" s]\<close>)

text \<open>A step of the loop that is calm: connections it changed are quiet afterwards.\<close>

lemma calm_inv:
  assumes "sys_inv \<lparr>sys_server = s, sys_pcs = pcs, sys_loop = l\<rparr>"
    and "srv_inv (outstanding (threads_of s) pcs l) s'" "calm s s'"
    and "\<And>q. q \<in> set (loop_list l) \<Longrightarrow> q \<in> set (loop_list l') \<or> quiet q s'"
    and "set (loop_list l') \<subseteq> set (loop_list l)" "set (to_clear l) \<subseteq> set (to_clear l')" "l \<noteq> Loop_swap"
    and "lost_jobs l' = lost_jobs l"
  shows "sys_inv \<lparr>sys_server = s', sys_pcs = pcs, sys_loop = l'\<rparr>"
proof -
  note i = assms(1) [unfolded sys_inv_simps]
  let ?x = "\<lparr>sys_server = s, sys_pcs = pcs, sys_loop = l\<rparr>" and ?y = "\<lparr>sys_server = s', sys_pcs = pcs, sys_loop = l'\<rparr>"
  have c: "length (srv_heap s) \<le> length (srv_heap s')" "ready_connections s' = ready_connections s"
    "k_completion (srv_kernel s') = k_completion (srv_kernel s)" "srv_cache s' = srv_cache s"
    "srv_config s' = srv_config s" "threads_of s' = threads_of s"
    "\<And>q. q < length (srv_heap s') \<Longrightarrow> notify_pending (conn s' q) \<Longrightarrow> q < length (srv_heap s) \<and> notify_pending (conn s q)"
    "\<And>q. q < length (srv_heap s') \<Longrightarrow> (q < length (srv_heap s) \<and> conn s' q = conn s q) \<or> quiet q s'"
    using assms(3) by (simp_all add: calm_def)
  have q: "quiet q s' \<or> announced q ?y" if "q < length (srv_heap s')" for q
  proof (cases "quiet q s'")
    case False
    with c(8) [OF that] have "q < length (srv_heap s)" "\<not> quiet q s" by (auto simp: quiet_def)
    then have "announced q ?x" using i by (auto simp: wake_inv_def)
    then show ?thesis using assms(4) False c(2) by (auto simp: announced_def)
  qed simp
  have "announced q ?x" if "announced q ?y" for q using that assms(5) c(2) by (auto simp: announced_def)
  then have "q < length (srv_heap s')" if "announced q ?y" for q
    using that announced_bound [of s pcs l q] i c(1) by fastforce
  moreover have "job_ok s j \<Longrightarrow> job_ok s' j" for j using c(1,5) by (auto simp: job_ok_def)
  ultimately have "workers_inv ?y" using i unfolding workers_inv_def by (simp add: c(6))
  moreover have "wake_inv ?y"
    unfolding wake_inv_def using q i c(7) assms(6,7) by (simp add: c(2,3) wake_inv_def) blast
  moreover have "outstanding (threads_of s) pcs l' = outstanding (threads_of s) pcs l" by (simp add: outstanding_def fun_eq_iff assms(8))
  ultimately show ?thesis using i assms(2) by (simp add: sys_inv_simps c(6)) (simp add: cache_ok_def c(4,5))
qed

lemma event_inv:
  assumes "sys_inv \<lparr>sys_server = s, sys_pcs = pcs, sys_loop = Loop_idle\<rparr>"
    and "fst ev \<noteq> completion_fd s" "fresh_fds s" "dispatch ev s = Some s'"
  shows "sys_inv \<lparr>sys_server = s', sys_pcs = pcs, sys_loop = Loop_idle\<rparr>"
  using dispatch_ok [OF _ assms(3,2,4)] assms(1)
  by (intro calm_inv [OF assms(1)]) (auto simp: sys_inv_simps)

lemma clear_inv:
  assumes "sys_inv \<lparr>sys_server = s, sys_pcs = pcs, sys_loop = Loop_drain (p # ps)\<rparr>"
  shows "sys_inv \<lparr>sys_server = drain_clear p s, sys_pcs = pcs, sys_loop = Loop_flush p ps\<rparr>"
proof -
  note i = assms [unfolded sys_inv_simps]
  let ?t = "drain_clear p s"
  have p: "p < length (srv_heap s)"
    by (rule announced_bound [OF conjunct1 [OF conjunct2 [OF i]]]) (simp add: announced_def)
  have k: "conn ?t q = (if q = p then (conn s p)\<lparr>notify_pending := False\<rparr> else conn s q)" for q
    using p by (simp add: drain_clear_def clear_notified_def)
  have f: "length (srv_heap ?t) = length (srv_heap s)" "srv_config ?t = srv_config s" "srv_pool ?t = srv_pool s"
    "ready_connections ?t = ready_connections s" "srv_kernel ?t = srv_kernel s" "srv_cache ?t = srv_cache s"
    by (simp_all add: drain_clear_def)
  have "outstanding (threads_of s) pcs (Loop_flush p ps) = outstanding (threads_of s) pcs (Loop_drain (p # ps))"
    by (simp add: outstanding_def fun_eq_iff)
  then have "srv_inv (outstanding (threads_of s) pcs (Loop_flush p ps)) ?t"
    unfolding drain_clear_def using i srv_inv_conn [OF _ p]
    by (intro srv_inv_put_conn) (auto simp: conn_inv_def unsent_def clear_notified_def)
  moreover have "job_ok ?t = job_ok s" using job_ok_cong [OF f(1,2)] by (simp add: fun_eq_iff)
  moreover have a: "announced q \<lparr>sys_server = ?t, sys_pcs = pcs, sys_loop = Loop_flush p ps\<rparr>
    = announced q \<lparr>sys_server = s, sys_pcs = pcs, sys_loop = Loop_drain (p # ps)\<rparr>" for q
    by (simp add: announced_def f)
  moreover have "quiet q ?t = quiet q s" for q by (simp add: quiet_def k has_pending_output_def)
  moreover have "notify_pending (conn ?t q) \<Longrightarrow> q \<noteq> p \<and> notify_pending (conn s q)" for q by (simp add: k split: if_splits)
  ultimately show ?thesis
    using i by (simp add: sys_inv_simps workers_inv_def wake_inv_def cache_ok_def f) blast
qed

lemma flush_inv:
  assumes "sys_inv \<lparr>sys_server = s, sys_pcs = pcs, sys_loop = Loop_flush p ps\<rparr>" "drain_flush p s = Some s'"
  shows "sys_inv \<lparr>sys_server = s', sys_pcs = pcs, sys_loop = Loop_drain ps\<rparr>"
proof -
  note i = assms(1) [unfolded sys_inv_simps]
  have p: "p < length (srv_heap s)"
    by (rule announced_bound [OF conjunct1 [OF conjunct2 [OF i]]]) (simp add: announced_def)
  have "handled (outstanding (threads_of s) pcs (Loop_flush p ps)) p s s' \<and> quiet p s'"
  proof (cases "conn_closed (conn s p)")
    case True
    with assms(2) i show ?thesis by (auto simp: drain_flush_def quiet_def intro: handled_refl)
  next
    case False
    with assms(2) i p show ?thesis by (auto simp: drain_flush_def intro: flush_and_settle_ok)
  qed
  then show ?thesis
    using touch_calm [of p s s'] by (intro calm_inv [OF assms(1)]) (auto simp: handled_def)
qed

section \<open>The teardown\<close>

text \<open>The phases of the teardown do not look at the ready list.\<close>

definition busy_elsewhere :: "loop_pc \<Rightarrow> bool" where
  "busy_elsewhere l \<longleftrightarrow> loop_list l = [] \<and> l \<noteq> Loop_swap"

lemma to_clear_elsewhere: "busy_elsewhere l \<Longrightarrow> to_clear l = []"
  by (cases l) (simp_all add: busy_elsewhere_def)

lemma phase_inv:
  assumes "sys_inv \<lparr>sys_server = s, sys_pcs = pcs, sys_loop = l\<rparr>" "busy_elsewhere l" "busy_elsewhere l'" "lost_jobs l' = lost_jobs l"
    and "srv_heap t = srv_heap s" "connections t = connections s" "srv_pool t = srv_pool s" "srv_config t = srv_config s"
    and "srv_stats t = srv_stats s" "srv_cache t = srv_cache s" "ready_connections t = ready_connections s"
    and "k_completion (srv_kernel t) = k_completion (srv_kernel s)"
  shows "sys_inv \<lparr>sys_server = t, sys_pcs = pcs, sys_loop = l'\<rparr>"
proof (rule sys_inv_shift [OF assms(1)])
  note i = assms(1) [unfolded sys_inv_simps]
  show a: "announced q \<lparr>sys_server = t, sys_pcs = pcs, sys_loop = l'\<rparr> = announced q \<lparr>sys_server = s, sys_pcs = pcs, sys_loop = l\<rparr>" for q
    using assms(2,3,11) by (simp add: announced_def busy_elsewhere_def)
  show "wake_inv \<lparr>sys_server = t, sys_pcs = pcs, sys_loop = l'\<rparr>"
    using i to_clear_elsewhere [OF assms(2)] to_clear_elsewhere [OF assms(3)] assms(2,5,11,12)
    by (auto simp: wake_inv_def a quiet_def busy_elsewhere_def)
  show "cache_ok t" using i assms(8,10) by (simp add: cache_ok_def)
qed (use assms in simp_all)

lemma pool_phase_inv:
  assumes "sys_inv \<lparr>sys_server = s, sys_pcs = pcs, sys_loop = l\<rparr>" "busy_elsewhere l" "busy_elsewhere l'" "srv_pool s = Some pool"
    and "pool_inv pool'" "list_all (job_ok s) (queue pool')" "length pcs' = length (threads pool')"
    and "\<And>p. length (filter (\<lambda>j. job_connection j = p) (queue pool')) + outstanding (threads pool') pcs' l' p
      = length (filter (\<lambda>j. job_connection j = p) (queue pool)) + outstanding (threads pool) pcs l p"
    and "\<And>j. Running j \<in> set (threads pool') \<Longrightarrow> Running j \<in> set (threads pool)"
    and "\<And>i. i < length pcs' \<Longrightarrow> pcs' ! i \<noteq> At_pool \<Longrightarrow> \<exists>j. threads pool' ! i = Running j"
    and "\<And>pc. pc \<noteq> At_pool \<Longrightarrow> pc \<in> set pcs' \<longleftrightarrow> pc \<in> set pcs"
  shows "sys_inv \<lparr>sys_server = set_pool pool' s, sys_pcs = pcs', sys_loop = l'\<rparr>"
proof -
  note i = assms(1) [unfolded sys_inv_simps]
  have m: "Staged q \<in> set pcs' \<longleftrightarrow> Staged q \<in> set pcs" "Marked q \<in> set pcs' \<longleftrightarrow> Marked q \<in> set pcs" "Pushed \<in> set pcs' \<longleftrightarrow> Pushed \<in> set pcs" for q
    using assms(11) by simp_all
  have a: "announced q \<lparr>sys_server = set_pool pool' s, sys_pcs = pcs', sys_loop = l'\<rparr> = announced q \<lparr>sys_server = s, sys_pcs = pcs, sys_loop = l\<rparr>" for q
    using assms(2,3) by (simp add: announced_def m busy_elsewhere_def)
  have q: "length (filter (\<lambda>j. job_connection j = p) (queue pool)) = queued p s" for p using assms(4) by (simp add: queued_def)
  have "outstanding (threads pool') pcs' l' p = 0" if "length (srv_heap s) \<le> p" for p
  proof -
    have "list_all (job_ok s) (queue pool)" using i assms(4) by (auto simp: srv_inv_def pool_ok_def)
    then have "filter (\<lambda>j. job_connection j = p) (queue pool) = []" using that by (auto simp: filter_empty_conv list_all_iff job_ok_def)
    moreover have "outstanding (threads pool) pcs l p = 0" using i that assms(4) by (simp add: srv_inv_def inflight_inv_def)
    ultimately show ?thesis using assms(8) [of p] by simp
  qed
  then have "srv_inv (outstanding (threads pool') pcs' l') (set_pool pool' s)"
    using i assms(4,5,6,8) by (intro srv_inv_set_pool [of "outstanding (threads pool) pcs l" s pool]) simp_all
  moreover have "workers_inv \<lparr>sys_server = set_pool pool' s, sys_pcs = pcs', sys_loop = l'\<rparr>"
    using i assms(4,7,9,10) unfolding workers_inv_def by (simp add: a)
  moreover have "wake_inv \<lparr>sys_server = set_pool pool' s, sys_pcs = pcs', sys_loop = l'\<rparr>"
    using i to_clear_elsewhere [OF assms(2)] to_clear_elsewhere [OF assms(3)] assms(2)
    by (auto simp: wake_inv_def a m busy_elsewhere_def)
  ultimately show ?thesis using i by (simp add: sys_inv_simps)
qed

lemma leave_inv:
  assumes "sys_inv \<lparr>sys_server = s, sys_pcs = pcs, sys_loop = l\<rparr>"
  shows "l = Loop_idle \<Longrightarrow> sys_inv \<lparr>sys_server = s, sys_pcs = pcs, sys_loop = Loop_leave\<rparr>"
    "l = Loop_idle \<Longrightarrow> sys_inv \<lparr>sys_server = s\<lparr>srv_running := False\<rparr>, sys_pcs = pcs, sys_loop = Loop_leave\<rparr>"
    "l = Loop_leave \<Longrightarrow> sys_inv \<lparr>sys_server = stop_listening s, sys_pcs = pcs, sys_loop = Loop_unlistened\<rparr>"
  by (rule phase_inv [OF assms]; simp add: busy_elsewhere_def)+

lemma drain_begin_fields [simp]:
  "threads (drain_begin timeout pool) = threads pool" "queue (drain_begin timeout pool) = queue pool"
  by (simp_all add: drain_begin_def Let_def)

lemma stop_inv:
  assumes "sys_inv \<lparr>sys_server = s, sys_pcs = pcs, sys_loop = Loop_unlistened\<rparr>" "srv_pool s = Some pool" "stopper_at pool = Stop_none"
  shows "sys_inv \<lparr>sys_server = set_pool (drain_begin timeout pool) s, sys_pcs = pcs, sys_loop = Loop_stopping []\<rparr>"
proof (rule pool_phase_inv [OF assms(1) _ _ assms(2)])
  note i = assms(1) [unfolded sys_inv_simps]
  have p: "pool_inv pool" "list_all (job_ok s) (queue pool)" using i assms(2) by (auto simp: srv_inv_def pool_ok_def)
  show "pool_inv (drain_begin timeout pool)" using assms(3) by (intro pool_step_inv [OF pool_step.stop p(1)]) simp_all
  show "list_all (job_ok s) (queue (drain_begin timeout pool))" using p(2) by simp
qed (use assms in \<open>simp_all add: busy_elsewhere_def sys_inv_simps workers_inv_def outstanding_def\<close>)

lemma discard_inv:
  assumes "sys_inv \<lparr>sys_server = s, sys_pcs = pcs, sys_loop = Loop_stopping js\<rparr>" "srv_pool s = Some pool"
    and "drain_wake timed_out pool = Some pool'"
  shows "sys_inv \<lparr>sys_server = set_pool pool' s, sys_pcs = pcs, sys_loop = Loop_stopping (js @ queue pool)\<rparr>"
proof (rule pool_phase_inv [OF assms(1) _ _ assms(2)])
  note i = assms(1) [unfolded sys_inv_simps]
  have "pool_inv pool" using i assms(2) by (auto simp: srv_inv_def pool_ok_def)
  from pool_step_inv [OF pool_step.wake [OF assms(3)] this] show "pool_inv pool'" .
qed (use assms in \<open>auto simp: busy_elsewhere_def drain_wake_def sys_inv_simps workers_inv_def outstanding_def split: if_splits\<close>)

lemma join_inv:
  assumes "sys_inv \<lparr>sys_server = s, sys_pcs = pcs, sys_loop = Loop_stopping js\<rparr>" "srv_pool s = Some pool"
    and "drain_join pool = Some pool'"
  shows "sys_inv \<lparr>sys_server = set_pool pool' s, sys_pcs = [], sys_loop = Loop_stopped js\<rparr>"
proof (rule pool_phase_inv [OF assms(1) _ _ assms(2)])
  note i = assms(1) [unfolded sys_inv_simps]
  have j: "list_all (\<lambda>w. w = Exited) (threads pool)" "pool' = pool\<lparr>threads := [], stopper_at := Stop_returned\<rparr>"
    using assms(3) by (auto simp: drain_join_def split: if_splits)
  have p: "pool_inv pool" "list_all (job_ok s) (queue pool)" using i assms(2) by (auto simp: srv_inv_def pool_ok_def)
  from pool_step_inv [OF pool_step.join [OF assms(3)] p(1)] show "pool_inv pool'" .
  have len: "length pcs = length (threads pool)" using i assms(2) by (simp add: workers_inv_def)
  have ex: "threads pool ! k = Exited" if "k < length pcs" for k using j(1) that len by (simp add: list_all_length)
  then have at: "pcs ! k = At_pool" if "k < length pcs" for k using i assms(2) that by (auto simp: workers_inv_def)
  show "pc \<in> set [] \<longleftrightarrow> pc \<in> set pcs" if "pc \<noteq> At_pool" for pc using at that by (auto simp: in_set_conv_nth)
  have "\<not> busy_for q b" if b: "b \<in> set (zip (threads pool) pcs)" for q b
  proof -
    obtain w pc where w: "b = (w, pc)" by (cases b)
    with b have "w \<in> set (threads pool)" by (simp add: set_zip_leftD)
    with j(1) w show ?thesis by (auto simp: list_all_iff)
  qed
  then show "length (filter (\<lambda>j. job_connection j = q) (queue pool')) + outstanding (threads pool') [] (Loop_stopped js) q
      = length (filter (\<lambda>j. job_connection j = q) (queue pool)) + outstanding (threads pool) pcs (Loop_stopping js) q" for q
    using j(2) by (simp add: outstanding_def running_at_def filter_empty_conv)
  show "list_all (job_ok s) (queue pool')" using p j by simp
qed (use assms in \<open>auto simp: busy_elsewhere_def drain_join_def split: if_splits\<close>)

text \<open>The last drain visits every announced connection, then all connections are closed.\<close>

lemma drain_one_ok:
  assumes "srv_inv extra s" "p < length (srv_heap s)" "drain_flush p (drain_clear p s) = Some s'"
  shows "srv_inv extra s'" "length (srv_heap s') = length (srv_heap s)" "srv_config s' = srv_config s" "srv_cache s' = srv_cache s"
    "ready_connections s' = ready_connections s" "threads_of s' = threads_of s" "k_completion (srv_kernel s') = k_completion (srv_kernel s)"
    "notify_pending (conn s' q) \<longrightarrow> q \<noteq> p \<and> notify_pending (conn s q)"
    "stopper_of s' = stopper_of s" "listen_fd s' = listen_fd s" "bound_socket_path s' = bound_socket_path s"
proof -
  let ?t = "drain_clear p s"
  have t: "srv_inv extra ?t" unfolding drain_clear_def using assms(1) srv_inv_conn [OF assms(1,2)]
    by (intro srv_inv_put_conn) (auto simp: conn_inv_def unsent_def clear_notified_def)
  have f: "length (srv_heap ?t) = length (srv_heap s)" "srv_config ?t = srv_config s" "srv_pool ?t = srv_pool s"
    "ready_connections ?t = ready_connections s" "srv_kernel ?t = srv_kernel s" "srv_cache ?t = srv_cache s"
    "listen_fd ?t = listen_fd s" "bound_socket_path ?t = bound_socket_path s"
    by (simp_all add: drain_clear_def)
  have "handled extra p ?t s'"
    using assms(2,3) t f(1) flush_and_settle_ok(1) [of extra ?t p s'] by (auto simp: drain_flush_def intro: handled_refl split: if_splits)
  then have h: "srv_inv extra s'" "touch p ?t s'" by (simp_all add: handled_def)
  then show "srv_inv extra s'" "length (srv_heap s') = length (srv_heap s)" "srv_config s' = srv_config s" "srv_cache s' = srv_cache s"
    "ready_connections s' = ready_connections s" "threads_of s' = threads_of s" "k_completion (srv_kernel s') = k_completion (srv_kernel s)"
    "stopper_of s' = stopper_of s" "listen_fd s' = listen_fd s" "bound_socket_path s' = bound_socket_path s"
    by (simp_all add: touch_def f)
  have "notify_pending (conn s' q) = notify_pending (conn ?t q)" using h(2) by (cases "q = p") (simp_all add: touch_def)
  then show "notify_pending (conn s' q) \<longrightarrow> q \<noteq> p \<and> notify_pending (conn s q)"
    using assms(2) by (cases "q = p") (simp_all add: drain_clear_def clear_notified_def)
qed

lemma drain_ready_ok:
  assumes "srv_inv extra s" "\<forall>p \<in> set ps. p < length (srv_heap s)" "drain_ready ps s = Some s'"
  shows "srv_inv extra s' \<and> length (srv_heap s') = length (srv_heap s) \<and> srv_config s' = srv_config s \<and> srv_cache s' = srv_cache s
    \<and> ready_connections s' = ready_connections s \<and> threads_of s' = threads_of s \<and> k_completion (srv_kernel s') = k_completion (srv_kernel s)
    \<and> (\<forall>q. notify_pending (conn s' q) \<longrightarrow> q \<notin> set ps \<and> notify_pending (conn s q))
    \<and> stopper_of s' = stopper_of s \<and> listen_fd s' = listen_fd s \<and> bound_socket_path s' = bound_socket_path s"
  using assms
proof (induction ps arbitrary: s)
  case (Cons p ps)
  from Cons.prems(3) obtain t where t: "drain_flush p (drain_clear p s) = Some t" "drain_ready ps t = Some s'"
    by (cases "drain_flush p (drain_clear p s)") simp_all
  have p: "p < length (srv_heap s)" using Cons.prems(2) by simp
  note o = drain_one_ok [OF Cons.prems(1) p t(1)]
  from Cons.IH [OF o(1) _ t(2)] Cons.prems(2) o(2) have r: "srv_inv extra s'" "length (srv_heap s') = length (srv_heap t)"
    "srv_config s' = srv_config t" "srv_cache s' = srv_cache t" "ready_connections s' = ready_connections t" "threads_of s' = threads_of t"
    "k_completion (srv_kernel s') = k_completion (srv_kernel t)" "\<And>q. notify_pending (conn s' q) \<Longrightarrow> q \<notin> set ps \<and> notify_pending (conn t q)"
    "stopper_of s' = stopper_of t" "listen_fd s' = listen_fd t" "bound_socket_path s' = bound_socket_path t"
    by auto
  have "notify_pending (conn s' q) \<longrightarrow> q \<notin> set (p # ps) \<and> notify_pending (conn s q)" for q using r(8) [of q] o(8) [of q] by auto
  with r o(2-7,9-11) show ?case by simp
qed simp

lemma close_all_simps [simp]:
  "close_all [] s = s"
  "close_all (c # cs) s = close_all cs (upd_stats connection_closed (put_conn (snd c) (mark_closed (conn s (snd c))) s))"
  by (simp_all add: close_all_def split: prod.split)

lemma close_all_fields:
  "length (srv_heap (close_all cs s)) = length (srv_heap s)" "srv_config (close_all cs s) = srv_config s"
  "srv_cache (close_all cs s) = srv_cache s" "srv_pool (close_all cs s) = srv_pool s"
  "ready_connections (close_all cs s) = ready_connections s" "srv_kernel (close_all cs s) = srv_kernel s"
  "listen_fd (close_all cs s) = listen_fd s" "bound_socket_path (close_all cs s) = bound_socket_path s"
  "st_active_connections (srv_stats (close_all cs s)) = st_active_connections (srv_stats s) - of_nat (length cs)"
  by (induction cs arbitrary: s) (simp_all add: connection_closed_def)

lemma close_all_conn:
  "q < length (srv_heap s) \<Longrightarrow> conn (close_all cs s) q = (if q \<in> snd ` set cs then mark_closed (conn s q) else conn s q)"
proof (induction cs arbitrary: s)
  case (Cons c cs)
  let ?t = "upd_stats connection_closed (put_conn (snd c) (mark_closed (conn s (snd c))) s)"
  have t: "conn ?t q = (if q = snd c then mark_closed (conn s q) else conn s q)" using Cons.prems by simp
  have again: "mark_closed (mark_closed d) = mark_closed d" for d by (simp add: mark_closed_def)
  have "conn (close_all cs ?t) q = (if q \<in> snd ` set cs then mark_closed (conn ?t q) else conn ?t q)" using Cons.prems by (intro Cons.IH) simp
  then show ?case unfolding t by (simp only: close_all_simps list.set image_insert insert_iff) (simp add: again)
qed simp

lemma close_all_inv:
  assumes "srv_inv extra s"
  shows "srv_inv extra ((close_all (connections s) s)\<lparr>connections := []\<rparr>)"
    "\<And>p. p < length (srv_heap s) \<Longrightarrow> conn_closed (conn (close_all (connections s) s) p)"
proof -
  let ?u = "close_all (connections s) s"
  have t: "table_inv s" using assms by (simp add: srv_inv_def)
  note f = close_all_fields [where cs = "connections s" and s = s]
  show c: "conn_closed (conn ?u p)" if p: "p < length (srv_heap s)" for p
  proof (cases "conn_closed (conn s p)")
    case False
    with t p have "(conn_fd (conn s p), p) \<in> set (connections s)" by (simp add: table_inv_def)
    then have "p \<in> snd ` set (connections s)" by force
    then show ?thesis using close_all_conn [OF p] by simp
  qed (use close_all_conn [OF p] in simp)
  have k: "inflight (conn ?u p) = inflight (conn s p)" "conn_limits (conn ?u p) = conn_limits (conn s p)" "conn_inv (conn ?u p) = conn_inv (conn s p)"
    if "p < length (srv_heap s)" for p using close_all_conn [OF that] by simp_all
  have "queued p (?u\<lparr>connections := []\<rparr>) = queued p s" for p by (simp add: queued_def f)
  moreover have "pool_ok (?u\<lparr>connections := []\<rparr>) = pool_ok s" by (rule pool_ok_cong) (simp_all add: f)
  moreover have "table_inv (?u\<lparr>connections := []\<rparr>)" using c t by (auto simp: table_inv_def f)
  ultimately show "srv_inv extra (?u\<lparr>connections := []\<rparr>)"
    using assms k by (simp add: srv_inv_def heap_inv_def inflight_inv_def f)
qed

lemma run_finish_drained:
  assumes "sys_inv \<lparr>sys_server = s, sys_pcs = pcs, sys_loop = Loop_stopped js\<rparr>" "run_finish s = Some s'"
  obtains u where "s' = (close_all (connections u) u)\<lparr>connections := []\<rparr>" "srv_inv (outstanding (threads_of s) pcs (Loop_stopped js)) u"
    "length (srv_heap u) = length (srv_heap s)" "srv_config u = srv_config s" "srv_cache u = srv_cache s" "ready_connections u = []"
    "threads_of u = threads_of s" "stopper_of u = stopper_of s" "listen_fd u = listen_fd s" "bound_socket_path u = bound_socket_path s"
    "\<And>q. notify_pending (conn u q) \<Longrightarrow> q \<notin> set (ready_connections s) \<and> notify_pending (conn s q)"
proof -
  note i = assms(1) [unfolded sys_inv_simps]
  define t where "t = (drain_read s)\<lparr>ready_connections := []\<rparr>"
  from assms(2) obtain u where u: "drain_ready (ready_connections s) t = Some u"
    and s': "s' = (close_all (connections u) u)\<lparr>connections := []\<rparr>"
    by (auto simp: run_finish_def drain_completions_def drain_swap_def drain_read_def t_def split: option.splits)
  have ti: "srv_inv (outstanding (threads_of s) pcs (Loop_stopped js)) t"
    using i by (subst srv_inv_cong [of _ s]) (simp_all add: t_def drain_read_def)
  have f: "srv_heap t = srv_heap s" "srv_pool t = srv_pool s" "srv_config t = srv_config s" "srv_cache t = srv_cache s" "ready_connections t = []"
    "listen_fd t = listen_fd s" "bound_socket_path t = bound_socket_path s"
    by (simp_all add: t_def drain_read_def)
  have "\<forall>p \<in> set (ready_connections s). p < length (srv_heap t)"
    unfolding f using i by (intro ballI announced_bound [of s pcs "Loop_stopped js"]) (auto simp: announced_def)
  from drain_ready_ok [OF ti this u] show thesis by (intro that [OF s']) (simp_all add: f)
qed

lemma exit_inv:
  assumes "sys_inv \<lparr>sys_server = s, sys_pcs = pcs, sys_loop = Loop_stopped js\<rparr>" "run_finish s = Some s'"
  shows "sys_inv \<lparr>sys_server = s', sys_pcs = pcs, sys_loop = Loop_exited js\<rparr>"
proof -
  note i = assms(1) [unfolded sys_inv_simps]
  from run_finish_drained [OF assms] obtain u where s': "s' = (close_all (connections u) u)\<lparr>connections := []\<rparr>"
    and d: "srv_inv (outstanding (threads_of s) pcs (Loop_stopped js)) u" "length (srv_heap u) = length (srv_heap s)" "srv_config u = srv_config s"
      "srv_cache u = srv_cache s" "ready_connections u = []" "threads_of u = threads_of s"
      "\<And>q. notify_pending (conn u q) \<Longrightarrow> q \<notin> set (ready_connections s) \<and> notify_pending (conn s q)" by blast
  note cc = close_all_conn [where cs = "connections u" and s = u]
  note cl = close_all_inv [OF d(1)] and cf = close_all_fields [where cs = "connections u" and s = u]
  have len: "length (srv_heap s') = length (srv_heap s)" "threads_of s' = threads_of s" "srv_config s' = srv_config s" "srv_cache s' = srv_cache s"
    "ready_connections s' = []" using d by (simp_all add: s' cf)
  have closed: "conn_closed (conn s' p)" if "p < length (srv_heap s')" for p using cl(2) that d(2) by (simp add: s' cf)
  have notify: "Marked p \<in> set pcs" if p: "p < length (srv_heap s')" "notify_pending (conn s' p)" for p
  proof -
    have "notify_pending (conn u p)" using p d(2) by (simp add: s' cf cc split: if_splits)
    then have "p \<notin> set (ready_connections s)" "notify_pending (conn s p)" using d(7) by auto
    with i p len(1) show ?thesis by (auto simp: wake_inv_def)
  qed
  have "outstanding (threads_of s) pcs (Loop_exited js) = outstanding (threads_of s) pcs (Loop_stopped js)" by (simp add: outstanding_def fun_eq_iff)
  then have "srv_inv (outstanding (threads_of s') pcs (Loop_exited js)) s'" using cl(1) len(2) by (simp add: s')
  moreover have "workers_inv \<lparr>sys_server = s', sys_pcs = pcs, sys_loop = Loop_exited js\<rparr>"
    using i job_ok_cong [OF len(1,3)] unfolding workers_inv_def by (auto simp: len announced_def)
  moreover have "wake_inv \<lparr>sys_server = s', sys_pcs = pcs, sys_loop = Loop_exited js\<rparr>"
    using closed notify by (simp add: wake_inv_def quiet_def len(5))
  ultimately show ?thesis using i len(3,4) by (simp add: sys_inv_simps cache_ok_def)
qed

lemma run_finish_frame:
  assumes "sys_inv \<lparr>sys_server = s, sys_pcs = pcs, sys_loop = Loop_stopped js\<rparr>" "run_finish s = Some s'"
  shows "srv_config s' = srv_config s" "srv_cache s' = srv_cache s" "listen_fd s' = listen_fd s" "bound_socket_path s' = bound_socket_path s"
    "stopper_of s' = stopper_of s" "connections s' = []"
  by (rule run_finish_drained [OF assms]; simp add: close_all_fields)+

lemma sys_step_inv:
  assumes "sys_step x e y" "sys_inv x"
  shows "sys_inv y"
  using assms
  by (cases rule: sys_step.cases)
    (blast intro: take_job_inv execute_inv stage_inv mark_inv push_inv wake_step_inv finish_inv environment_inv event_inv
      loop_step_inv swap_inv clear_inv flush_inv drained_inv leave_inv stop_inv discard_inv join_inv exit_inv)+

lemma sys_reach_inv: "sys_reach x log y \<Longrightarrow> sys_inv x \<Longrightarrow> sys_inv y"
  by (induction rule: sys_reach.induct) (auto intro: sys_step_inv)

end
