(* ===== verification/ServerPipeline.thy ===== *)
theory ServerPipeline
  imports ServerConcurrency
begin

text \<open>
  One request from its arrival to its answer: the event loop reads and submits it, a worker executes it and
  stages the response, the event loop drains the completion and sends it. Each stage is computed as an
  equation on the state of a server whose connection is at rest.
\<close>

section \<open>Parsing one request\<close>

lemma next_request_complete:
  assumes "conn_inv c" "unread c = serialize_request r @ rest" "request_ok (protocol_limits (conn_limits c)) r"
  shows "\<exists>b n m. next_request c out = (c\<lparr>in_buf := b, in_pos := n\<rparr>, pr_complete m, r) \<and> drop n b = rest"
proof -
  have d: "deserialize_request (drop (in_pos c) (in_buf c)) (protocol_limits (conn_limits c)) out
      = (pr_complete (length (serialize_request r)), r)"
    using deserialize_serialize_request [OF assms(3), of rest out] assms(2) by (simp add: unread_def)
  obtain c' res q where n: "next_request c out = (c', res, q)" by (rule prod_cases3)
  with d have rq: "res = pr_complete (length (serialize_request r))" "q = r"
    by (auto simp: next_request_def Let_def pr_complete_def)
  obtain b k where c': "c' = c\<lparr>in_buf := b, in_pos := k\<rparr>" using next_request_fields [OF n] by blast
  have "unread c' = rest" using next_request_frame [OF assms(1) n] assms(2) rq by (simp add: pr_complete_def)
  with n rq c' show ?thesis by (simp add: unread_def) blast
qed

text \<open>Bytes that begin no complete frame and are no malformed one: the parser waits for more.\<close>

definition incomplete :: "limits \<Rightarrow> bytes \<Rightarrow> bool" where
  "incomplete lim bs \<longleftrightarrow> deserialize_request bs lim default_request = (pr_need_more, default_request)"

lemma incomplete_Nil [simp]: "incomplete lim []"
  by (simp add: incomplete_def deserialize_request_eq kHeaderSize_def)

lemma next_request_incomplete:
  assumes "conn_inv c" "incomplete (protocol_limits (conn_limits c)) (unread c)"
  shows "\<exists>b n. next_request c default_request = (c\<lparr>in_buf := b, in_pos := n\<rparr>, pr_need_more, default_request) \<and> drop n b = unread c"
proof -
  have d: "deserialize_request (drop (in_pos c) (in_buf c)) (protocol_limits (conn_limits c)) default_request = (pr_need_more, default_request)"
    using assms(2) by (simp add: unread_def incomplete_def)
  obtain c' res q where n: "next_request c default_request = (c', res, q)" by (rule prod_cases3)
  with d have rq: "res = pr_need_more" "q = default_request" by (auto simp: next_request_def Let_def pr_need_more_def)
  obtain b k where c': "c' = c\<lparr>in_buf := b, in_pos := k\<rparr>" using next_request_fields [OF n] by blast
  have "unread c' = unread c" using next_request_frame [OF assms(1) n] rq by (simp add: pr_need_more_def)
  with n rq c' show ?thesis by (simp add: unread_def) blast
qed

section \<open>The request arrives\<close>

text \<open>An open connection that owes nothing, with its counters at zero and its input interest registered.\<close>

definition at_rest :: "connection \<Rightarrow> bool" where
  "at_rest c \<longleftrightarrow> \<not> conn_closed c \<and> \<not> close_after_flush c \<and> \<not> notify_pending c \<and> inflight c = 0 \<and> pending_output_bytes c = 0
     \<and> write_buf c = [] \<and> write_pos c = 0 \<and> staged c = [] \<and> registered_events c = or EPOLLIN kBaseConnectionEvents"

definition jobs_of :: "nat \<Rightarrow> request list \<Rightarrow> job list" where
  "jobs_of p rs = map (\<lambda>r. \<lparr>job_connection = p, job_request = r\<rparr>) rs"

text \<open>The server after the requests \<open>rs\<close> of connection \<open>p\<close> went to the pool and the input buffer was replaced.\<close>

definition submitted_conn :: "bytes \<Rightarrow> nat \<Rightarrow> request list \<Rightarrow> connection \<Rightarrow> connection" where
  "submitted_conn b n rs c = c\<lparr>in_buf := b, in_pos := n, inflight := inflight c + of_nat (length rs)\<rparr>"

definition submitted_server :: "nat \<Rightarrow> bytes \<Rightarrow> nat \<Rightarrow> request list \<Rightarrow> job worker_pool \<Rightarrow> server \<Rightarrow> server" where
  "submitted_server p b n rs pool s =
     (put_conn p (submitted_conn b n rs (conn s p)) (upd_stats (record_request ^^ length rs) s))
       \<lparr>srv_pool := Some (pool\<lparr>queue := queue pool @ jobs_of p rs\<rparr>)\<rparr>"

lemma submitted_conn_inv: "conn_inv (submitted_conn b n rs c) = conn_inv (c\<lparr>in_buf := b, in_pos := n\<rparr>)"
  by (simp add: submitted_conn_def conn_inv_def unsent_def)

lemma submitted_fields [simp]:
  "conn_limits (submitted_conn b n rs c) = conn_limits c" "unread (submitted_conn b n rs c) = drop n b"
  "inflight (submitted_conn b n rs c) = inflight c + of_nat (length rs)"
  "p < length (srv_heap s) \<Longrightarrow> conn (submitted_server p b n rs pool s) p = submitted_conn b n rs (conn s p)"
  "length (srv_heap (submitted_server p b n rs pool s)) = length (srv_heap s)"
  "srv_pool (submitted_server p b n rs pool s) = Some (pool\<lparr>queue := queue pool @ jobs_of p rs\<rparr>)"
  by (simp_all add: submitted_conn_def submitted_server_def unread_def)

lemma submitted_submitted:
  assumes "p < length (srv_heap s)"
  shows "submitted_server p b' n' rs (pool\<lparr>queue := queue pool @ jobs_of p [r]\<rparr>) (submitted_server p b n [r] pool s)
    = submitted_server p b' n' (r # rs) pool s"
  using assms
  by (intro server.equality)
    (simp_all add: submitted_server_def submitted_conn_def put_conn_def upd_stats_def jobs_of_def funpow_swap1 add.assoc)

lemma submitted_none:
  assumes "p < length (srv_heap s)" "srv_pool s = Some pool"
  shows "submitted_server p b n [] pool s = put_conn p ((conn s p)\<lparr>in_buf := b, in_pos := n\<rparr>) s"
  using assms by (intro server.equality) (simp_all add: submitted_server_def submitted_conn_def put_conn_def upd_stats_def jobs_of_def)

lemma process_input_step:
  assumes "p < length (srv_heap s)" "conn_inv (conn s p)" "unread (conn s p) = serialize_request r @ rest"
    and "request_ok (protocol_limits (conn_limits (conn s p))) r" "\<not> inflight_limit_reached (conn s p)"
    and "srv_pool s = Some pool" "accepting pool" "length (queue pool) < unat (max_pending pool)"
  shows "\<exists>b n. process_input p s = process_input p (submitted_server p b n [r] pool s) \<and> drop n b = rest
    \<and> conn_inv ((conn s p)\<lparr>in_buf := b, in_pos := n\<rparr>)"
proof -
  let ?c = "conn s p"
  from next_request_complete [OF assms(2-4), of default_request] obtain b n m where
    q: "next_request ?c default_request = (?c\<lparr>in_buf := b, in_pos := n\<rparr>, pr_complete m, r)" "drop n b = rest" by blast
  have ninv: "conn_inv (?c\<lparr>in_buf := b, in_pos := n\<rparr>)" using next_request_unread [OF assms(2) q(1)] by simp
  have "\<not> sz (queue pool) \<ge> max_pending pool"
    using assms(8) unsigned_less [of "max_pending pool", where 'a = nat] by (simp add: word_le_nat_alt unat_sz)
  then have t: "try_submit \<lparr>job_connection = p, job_request = r\<rparr> pool = (pool\<lparr>queue := queue pool @ jobs_of p [r]\<rparr>, True)"
    using assms(7) by (simp add: try_submit_def jobs_of_def)
  have sub: "submit_request p r (put_conn p (?c\<lparr>in_buf := b, in_pos := n\<rparr>) s) = Some (submitted_server p b n [r] pool s, True)"
    using assms(1,6) t by (simp add: submit_request_def Let_def submitted_server_def submitted_conn_def note_request_submitted_def)
      (intro server.equality; simp add: put_conn_def upd_stats_def)
  have "process_input p s = process_input p (submitted_server p b n [r] pool s)"
    using assms(1,5) q sub by (subst process_input.simps) (simp add: pr_complete_def)
  with q(2) ninv show ?thesis by blast
qed

lemma process_input_stop:
  assumes "p < length (srv_heap s)" "conn_inv (conn s p)" "srv_pool s = Some pool"
    and "inflight_limit_reached (conn s p) \<or> incomplete (protocol_limits (conn_limits (conn s p))) (unread (conn s p))"
  shows "\<exists>b n. process_input p s = Some (submitted_server p b n [] pool s, True) \<and> drop n b = unread (conn s p)
    \<and> conn_inv ((conn s p)\<lparr>in_buf := b, in_pos := n\<rparr>)"
proof (cases "inflight_limit_reached (conn s p)")
  case True
  then have "process_input p s = Some (s, True)" using assms(1) by (subst process_input.simps) simp
  moreover have "submitted_server p (in_buf (conn s p)) (in_pos (conn s p)) [] pool s = s"
    by (simp add: submitted_none [OF assms(1,3)] put_conn_def)
  ultimately show ?thesis using assms(2)
    by (intro exI [of _ "in_buf (conn s p)"] exI [of _ "in_pos (conn s p)"]) (simp add: unread_def)
next
  case False
  with assms(4) have u: "incomplete (protocol_limits (conn_limits (conn s p))) (unread (conn s p))" by simp
  from next_request_incomplete [OF assms(2) this] obtain b n where
    e: "next_request (conn s p) default_request = ((conn s p)\<lparr>in_buf := b, in_pos := n\<rparr>, pr_need_more, default_request)"
    and d: "drop n b = unread (conn s p)" by blast
  have "process_input p s = Some (put_conn p ((conn s p)\<lparr>in_buf := b, in_pos := n\<rparr>) s, True)"
    using assms(1) False e by (subst process_input.simps) (simp add: pr_need_more_def)
  with d next_request_unread [OF assms(2) e] show ?thesis by (simp add: submitted_none [OF assms(1,3)]) blast
qed

lemma not_limit_reached:
  "inflight_limit_reached c \<longleftrightarrow> unat (max_inflight (conn_limits c)) \<le> unat (inflight c)"
  by (simp add: inflight_limit_reached_def word_le_nat_alt)

lemma unat_add_small:
  "unat (x :: u64) + n \<le> unat (y :: u64) \<Longrightarrow> unat (x + of_nat n) = unat x + n"
  using unsigned_less [of y, where 'a = nat] by (subst unat_add_lem [THEN iffD1]) (simp_all add: unat_of_nat take_bit_nat_eq_self)

lemma process_input_batch:
  assumes "p < length (srv_heap s)" "conn_inv (conn s p)" "unread (conn s p) = concat (map serialize_request rs) @ rest"
    and "\<forall>r \<in> set rs. request_ok (protocol_limits (conn_limits (conn s p))) r"
    and "unat (inflight (conn s p)) + length rs \<le> unat (max_inflight (conn_limits (conn s p)))"
    and "srv_pool s = Some pool" "accepting pool" "length (queue pool) + length rs \<le> unat (max_pending pool)"
    and "unat (inflight (conn s p)) + length rs = unat (max_inflight (conn_limits (conn s p))) \<or> incomplete (protocol_limits (conn_limits (conn s p))) rest"
  shows "\<exists>b n. process_input p s = Some (submitted_server p b n rs pool s, True) \<and> drop n b = rest
    \<and> conn_inv ((conn s p)\<lparr>in_buf := b, in_pos := n\<rparr>)"
  using assms
proof (induction rs arbitrary: s pool)
  case Nil
  then have "inflight_limit_reached (conn s p) \<or> incomplete (protocol_limits (conn_limits (conn s p))) (unread (conn s p))"
    by (auto simp: not_limit_reached)
  from process_input_stop [OF Nil.prems(1,2,6) this] Nil.prems(3) show ?case by simp
next
  case (Cons r rs)
  let ?u = "concat (map serialize_request rs) @ rest"
  have lim: "\<not> inflight_limit_reached (conn s p)" using Cons.prems(5) by (auto simp: not_limit_reached)
  from process_input_step [OF Cons.prems(1,2) _ _ lim Cons.prems(6,7), of r ?u] Cons.prems(3,4,8) obtain b n where
    st: "process_input p s = process_input p (submitted_server p b n [r] pool s)" "drop n b = ?u"
      "conn_inv ((conn s p)\<lparr>in_buf := b, in_pos := n\<rparr>)" by auto
  let ?s = "submitted_server p b n [r] pool s" and ?pool = "pool\<lparr>queue := queue pool @ jobs_of p [r]\<rparr>"
  have c: "conn ?s p = submitted_conn b n [r] (conn s p)" using Cons.prems(1) by simp
  have fl: "unat (inflight (conn ?s p)) = unat (inflight (conn s p)) + 1"
    using unat_add_small [of "inflight (conn s p)" 1 "max_inflight (conn_limits (conn s p))"] Cons.prems(5) by (simp add: c)
  have "\<exists>b' n'. process_input p ?s = Some (submitted_server p b' n' rs ?pool ?s, True) \<and> drop n' b' = rest
      \<and> conn_inv ((conn ?s p)\<lparr>in_buf := b', in_pos := n'\<rparr>)"
    using Cons.prems st(2,3) fl by (intro Cons.IH) (simp_all add: c submitted_conn_inv jobs_of_def)
  then obtain b' n' where r: "process_input p ?s = Some (submitted_server p b' n' rs ?pool ?s, True)" "drop n' b' = rest"
    "conn_inv ((conn ?s p)\<lparr>in_buf := b', in_pos := n'\<rparr>)" by blast
  have "conn_inv ((conn s p)\<lparr>in_buf := b', in_pos := n'\<rparr>)"
    using r(3) by (simp add: c submitted_conn_def conn_inv_def unsent_def)
  with r st(1) show ?case by (simp add: submitted_submitted [OF Cons.prems(1)]) blast
qed

section \<open>The end of the event\<close>

lemma event_constants:
  "has_event EPOLLIN (or EPOLLERR EPOLLHUP) = False" "has_event EPOLLIN EPOLLOUT = False" "has_event EPOLLIN (or EPOLLIN EPOLLRDHUP)"
  "or kBaseConnectionEvents EPOLLIN = or EPOLLIN kBaseConnectionEvents" "or EPOLLIN kBaseConnectionEvents \<noteq> kBaseConnectionEvents"
  by (simp_all add: has_event_def EPOLLIN_def EPOLLOUT_def EPOLLERR_def EPOLLHUP_def EPOLLRDHUP_def kBaseConnectionEvents_def)

lemma put_conn_same: "put_conn p (conn s p) s = s"
  by (simp add: put_conn_def)

text \<open>The interest of a connection with no output: input unless the in-flight limit is reached.\<close>

definition input_interest :: "connection \<Rightarrow> u32" where
  "input_interest c = (if inflight_limit_reached c then kBaseConnectionEvents else or EPOLLIN kBaseConnectionEvents)"

definition interest_kernel :: "connection \<Rightarrow> kernel \<Rightarrow> kernel" where
  "interest_kernel c k =
     (if input_interest c = registered_events c then k
      else k\<lparr>k_ctl := tl (k_ctl k), k_interest := (k_interest k)(conn_fd c \<mapsto> input_interest c)\<rparr>)"

definition settled :: "nat \<Rightarrow> server \<Rightarrow> server" where
  "settled p s = upd_kernel (interest_kernel (conn s p))
     (put_conn p ((conn s p)\<lparr>registered_events := input_interest (conn s p)\<rparr>) s)"

lemma settle_input:
  assumes "p < length (srv_heap s)" "\<not> close_after_flush (conn s p)" "pending_output_bytes (conn s p) = 0" "\<not> srv_draining s"
    and "k_ctl (srv_kernel s) = True # ctl"
  shows "settle p s = Some (settled p s)"
proof -
  have w: "wanted_events False (conn s p) = input_interest (conn s p)"
    using assms(2,3) by (simp add: wanted_events_def read_paused_def has_pending_output_def input_interest_def event_constants)
  show ?thesis
  proof (cases "input_interest (conn s p) = registered_events (conn s p)")
    case True
    have "(conn s p)\<lparr>registered_events := registered_events (conn s p)\<rparr> = conn s p" by simp
    with True have "settled p s = s" by (simp add: settled_def put_conn_same) (simp add: upd_kernel_def interest_kernel_def)
    with True assms w show ?thesis by (simp add: settle_def update_interest_def)
  next
    case False
    with assms w show ?thesis
      by (simp add: settle_def update_interest_def epoll_set_def settled_def interest_kernel_def set_registered_events_def
          upd_kernel_def put_conn_def Let_def)
  qed
qed

lemma flush_nothing:
  assumes "write_buf (conn s p) = []" "write_pos (conn s p) = 0" "staged (conn s p) = []"
  shows "flush_conn p s = Some (upd_kernel (\<lambda>k. k\<lparr>k_sent := k_sent k @ [(p, [])]\<rparr>) s, IoResult_kOk)"
proof -
  have "(conn s p)\<lparr>write_buf := [], write_pos := 0, staged := []\<rparr> = conn s p" using assms by simp
  then have "flush_output answers (conn s p) = Some (conn s p, [], IoResult_kOk, answers)" for answers
    using assms by (subst flush_output.simps) (simp add: refill_write_buf_def)
  then show ?thesis by (simp add: flush_conn_def put_conn_same) (simp add: upd_kernel_def)
qed

definition arrived :: "nat \<Rightarrow> recv_outcome list \<Rightarrow> bytes \<Rightarrow> nat \<Rightarrow> request list \<Rightarrow> job worker_pool \<Rightarrow> server \<Rightarrow> server" where
  "arrived p recvs b n rs pool s =
     settled p (submitted_server p b n rs pool (upd_kernel (\<lambda>k. k\<lparr>k_recv := recvs, k_sent := k_sent k @ [(p, [])]\<rparr>) s))"

text \<open>
  A server with nothing to do on connection \<open>p\<close>: the connection is registered under its descriptor and
  owes nothing, the pool accepts jobs, has an empty queue and its first worker waits, no completion is
  announced.
\<close>

definition waiting_at :: "nat \<Rightarrow> job worker_pool \<Rightarrow> bool" where
  "waiting_at i pool \<longleftrightarrow> i < length (threads pool) \<and> threads pool ! i = Waiting"

definition wired :: "nat \<Rightarrow> server \<Rightarrow> bool" where
  "wired p s \<longleftrightarrow>
     map_of (connections s) (conn_fd (conn s p)) = Some p
   \<and> conn_fd (conn s p) \<notin> {listen_fd s, completion_fd s, shutdown_fd s, signal_fd s} \<and> completion_fd s \<noteq> listen_fd s"

definition idle_on :: "nat \<Rightarrow> job worker_pool \<Rightarrow> server \<Rightarrow> bool" where
  "idle_on p pool s \<longleftrightarrow>
     p < length (srv_heap s) \<and> conn_inv (conn s p) \<and> at_rest (conn s p) \<and> wired p s \<and> \<not> srv_draining s
   \<and> srv_pool s = Some pool \<and> accepting pool \<and> queue pool = [] \<and> waiting_at 0 pool
   \<and> ready_connections s = [] \<and> k_completion (srv_kernel s) = 0 \<and> lru_inv (srv_cache s)"

definition requests_fit :: "nat \<Rightarrow> job worker_pool \<Rightarrow> request list \<Rightarrow> bytes \<Rightarrow> server \<Rightarrow> bool" where
  "requests_fit p pool rs rest s \<longleftrightarrow>
     rs \<noteq> [] \<and> list_all (request_ok (protocol_limits (conn_limits (conn s p)))) rs
   \<and> length rs \<le> unat (max_inflight (conn_limits (conn s p))) \<and> length rs \<le> unat (max_pending pool)
   \<and> (length rs = unat (max_inflight (conn_limits (conn s p))) \<or> incomplete (protocol_limits (conn_limits (conn s p))) rest)"

text \<open>One chunk of input that, after the bytes left from earlier ones, makes up the requests and a rest.\<close>

definition packet :: "nat \<Rightarrow> bytes \<Rightarrow> request list \<Rightarrow> bytes \<Rightarrow> server \<Rightarrow> bool" where
  "packet p input rs rest s \<longleftrightarrow>
     input \<noteq> [] \<and> length input \<le> kReadChunkBytes \<and> unread (conn s p) @ input = concat (map serialize_request rs) @ rest"

lemma requests_read:
  assumes "idle_on p pool s" "requests_fit p pool rs rest s" "packet p input rs rest s" "k_recv (srv_kernel s) = Received input # recvs"
  shows "\<exists>b n. handle_readable p EPOLLIN s = Some (submitted_server p b n rs pool (upd_kernel (\<lambda>k. k\<lparr>k_recv := recvs\<rparr>) s), True)
    \<and> drop n b = rest \<and> conn_inv ((conn s p)\<lparr>in_buf := b, in_pos := n\<rparr>)"
proof -
  let ?c = "(conn s p)\<lparr>in_buf := in_buf (conn s p) @ input\<rparr>"
  let ?R = "upd_kernel (\<lambda>k. k\<lparr>k_recv := recvs\<rparr>) (put_conn p ?c s)"
  note l = assms(1) [unfolded idle_on_def] and f = assms(2) [unfolded requests_fit_def] and k = assms(3) [unfolded packet_def]
  have "read_some (Received input) (conn s p) = (?c, IoResult_kOk)" using k by (simp add: read_some_def Let_def)
  then have rd: "read_conn p s = Some (?R, IoResult_kOk)" by (simp add: read_conn_def assms(4))
  have u: "unread ?c = concat (map serialize_request rs) @ rest" "conn_inv ?c" using l k by (auto simp: unread_def conn_inv_def unsent_def)
  have "\<exists>b n. process_input p ?R = Some (submitted_server p b n rs pool ?R, True) \<and> drop n b = rest
      \<and> conn_inv ((conn ?R p)\<lparr>in_buf := b, in_pos := n\<rparr>)"
    using l f u by (intro process_input_batch) (simp_all add: at_rest_def list_all_iff)
  then obtain b n where b: "process_input p ?R = Some (submitted_server p b n rs pool ?R, True)" "drop n b = rest"
    "conn_inv ((conn ?R p)\<lparr>in_buf := b, in_pos := n\<rparr>)" by blast
  have "submitted_server p b n rs pool ?R = submitted_server p b n rs pool (upd_kernel (\<lambda>k. k\<lparr>k_recv := recvs\<rparr>) s)"
    using l by (intro server.equality) (simp_all add: submitted_server_def submitted_conn_def put_conn_def upd_stats_def upd_kernel_def)
  moreover have "handle_readable p EPOLLIN s = process_input p ?R"
    using l rd by (simp add: handle_readable_def event_constants)
  moreover have "conn_inv ((conn s p)\<lparr>in_buf := b, in_pos := n\<rparr>)" using b(3) l by simp
  ultimately show ?thesis using b(1,2) by auto
qed

lemma requests_arrive:
  assumes "idle_on p pool s" "requests_fit p pool rs rest s" "packet p input rs rest s" "k_ctl (srv_kernel s) = True # ctl"
    and "k_recv (srv_kernel s) = Received input # recvs"
  shows "\<exists>b n. handle_connection_event p EPOLLIN s = Some (arrived p recvs b n rs pool s)
    \<and> drop n b = rest \<and> conn_inv ((conn s p)\<lparr>in_buf := b, in_pos := n\<rparr>)"
proof -
  from requests_read [OF assms(1-3,5)] obtain b n where
    r: "handle_readable p EPOLLIN s = Some (submitted_server p b n rs pool (upd_kernel (\<lambda>k. k\<lparr>k_recv := recvs\<rparr>) s), True)"
      "drop n b = rest" "conn_inv ((conn s p)\<lparr>in_buf := b, in_pos := n\<rparr>)" by blast
  let ?S = "submitted_server p b n rs pool (upd_kernel (\<lambda>k. k\<lparr>k_recv := recvs\<rparr>) s)"
  let ?F = "submitted_server p b n rs pool (upd_kernel (\<lambda>k. k\<lparr>k_recv := recvs, k_sent := k_sent k @ [(p, [])]\<rparr>) s)"
  note l = assms(1) [unfolded idle_on_def at_rest_def]
  have "conn ?S p = submitted_conn b n rs (conn s p)" using l by simp
  then have "flush_conn p ?S = Some (upd_kernel (\<lambda>k. k\<lparr>k_sent := k_sent k @ [(p, [])]\<rparr>) ?S, IoResult_kOk)"
    using l by (intro flush_nothing) (simp_all add: submitted_conn_def)
  moreover have "upd_kernel (\<lambda>k. k\<lparr>k_sent := k_sent k @ [(p, [])]\<rparr>) ?S = ?F"
    by (intro server.equality) (simp_all add: submitted_server_def put_conn_def upd_stats_def upd_kernel_def)
  ultimately have "flush_and_settle p ?S = settle p ?F" by (simp add: flush_and_settle_def)
  also have "\<dots> = Some (settled p ?F)"
    using l assms(4) by (intro settle_input) (simp_all add: submitted_server_def submitted_conn_def)
  finally have e: "flush_and_settle p ?S = Some (arrived p recvs b n rs pool s)" by (simp add: arrived_def)
  from e r(1) l have "handle_connection_event p EPOLLIN s = Some (arrived p recvs b n rs pool s)"
    by (simp add: handle_connection_event_def handle_writable_def event_constants)
  with r(2,3) show ?thesis by blast
qed

end
