(* ===== verification/ServerRounds.thy ===== *)
theory ServerRounds
  imports ServerPipeline
begin

text \<open>
  From the queue of the pool to the socket. A worker that is not interrupted takes a job, executes it and
  stages the response (\<open>worker_turn\<close>); the event loop then drains the completion, sends what was staged
  and renews the interest of the connection. Together with the arrival of the requests this is one round
  of the server.
\<close>

section \<open>Bounds on what a response carries\<close>

definition values_below :: "nat \<Rightarrow> kvs \<Rightarrow> bool" where
  "values_below n xs \<longleftrightarrow> list_all (\<lambda>kv. length (snd kv) \<le> n) xs"

lemma values_below_subset: "set ys \<subseteq> insert (k, v) (set xs) \<Longrightarrow> values_below n xs \<Longrightarrow> length v \<le> n \<Longrightarrow> values_below n ys"
  by (fastforce simp: values_below_def list_all_iff)

lemma length_serialize_stats [simp]: "length (serialize_stats st) = 114"
  using length_concat_u64 [of "map (\<lambda>field. fst field st) kStatsFields"] by (simp add: serialize_stats_eq comp_def)

lemma answer_values:
  assumes "answer lim xs stats r = (ys, st, v)" "values_below n xs" "length (req_value r) \<le> n"
    and "req_opcode r = Opcode_kStats \<longrightarrow> length stats \<le> n"
  shows "values_below n ys \<and> length v \<le> n"
proof (cases "req_opcode r")
  case Opcode_kGet
  show ?thesis
  proof (cases "map_of xs (req_key r)")
    case (Some w)
    then have w: "(req_key r, w) \<in> set xs" by (rule map_of_SomeD)
    have "ys = (req_key r, w) # del (req_key r) xs" "v = w"
      using assms(1) Opcode_kGet Some by (auto simp: answer_def spec_get_def)
    with w assms(2) set_del [of "req_key r" xs] show ?thesis by (auto simp: values_below_def list_all_iff)
  qed (use assms Opcode_kGet in \<open>simp add: answer_def\<close>)
next
  case Opcode_kPut
  obtain zs pst where sp: "spec_put lim xs (req_key r) (req_value r) = (zs, pst)" by fastforce
  then have "set zs \<subseteq> insert (req_key r, req_value r) (set xs)"
    using set_trim [of lim] set_del [of "req_key r" xs] by (fastforce simp: spec_put_def split: if_splits)
  from values_below_subset [OF this assms(2,3)] sp assms(1) Opcode_kPut show ?thesis by (simp add: answer_def)
next
  case Opcode_kDelete
  with assms(1,2) set_del [of "req_key r" xs] show ?thesis by (auto simp: answer_def values_below_def list_all_iff)
qed (use assms in \<open>auto simp: answer_def values_below_def\<close>)

lemma sequential_values:
  assumes "sequential lim xs [(r, resp)] = Some ys" "values_below n xs" "length (req_value r) \<le> n"
    and "req_opcode r = Opcode_kStats \<longrightarrow> length (resp_value resp) \<le> n"
  shows "values_below n ys \<and> length (resp_value resp) \<le> n"
proof -
  obtain zs st v where a: "answer lim xs (resp_value resp) r = (zs, st, v)" by (rule prod_cases3)
  with assms(1) have "ys = zs" "resp_value resp = v" by (auto split: if_splits)
  with answer_values [OF a assms(2,3)] assms(4) show ?thesis by simp
qed

section \<open>A worker's turn\<close>

text \<open>The body of the worker loop, with no step of another thread in between.\<close>

definition worker_turn :: "nat \<Rightarrow> server \<Rightarrow> server option" where
  "worker_turn i s =
     do { pool \<leftarrow> srv_pool s;
          pool \<leftarrow> worker_take i pool;
          (case threads pool ! i of
             Running job \<Rightarrow>
               do { s \<leftarrow> handle_job job (s\<lparr>srv_pool := Some pool\<rparr>);
                    pool \<leftarrow> worker_finish i pool;
                    Some (s\<lparr>srv_pool := Some pool\<rparr>) }
           | _ \<Rightarrow> Some (s\<lparr>srv_pool := Some pool\<rparr>)) }"

fun worker_turns :: "nat \<Rightarrow> nat \<Rightarrow> server \<Rightarrow> server option" where
  "worker_turns i 0 s = Some s"
| "worker_turns i (Suc n) s = do { s \<leftarrow> worker_turn i s; worker_turns i n s }"

text \<open>The request a turn executes and its response, and those of a number of turns.\<close>

definition worker_answer :: "nat \<Rightarrow> server \<Rightarrow> (request \<times> response) option" where
  "worker_answer i s =
     do { pool \<leftarrow> srv_pool s;
          pool \<leftarrow> worker_take i pool;
          (case threads pool ! i of
             Running job \<Rightarrow> map_option (\<lambda>(s, response). (job_request job, response)) (execute_request (job_request job) (s\<lparr>srv_pool := Some pool\<rparr>))
           | _ \<Rightarrow> None) }"

fun worker_log :: "nat \<Rightarrow> nat \<Rightarrow> server \<Rightarrow> (request \<times> response) list option" where
  "worker_log i 0 s = Some []"
| "worker_log i (Suc n) s = do { e \<leftarrow> worker_answer i s; s \<leftarrow> worker_turn i s; es \<leftarrow> worker_log i n s; Some (e # es) }"

definition staged_conn :: "bytes list \<Rightarrow> connection \<Rightarrow> connection" where
  "staged_conn frames c = c\<lparr>staged := staged c @ concat frames,
     pending_output_bytes := pending_output_bytes c + sz (concat frames),
     inflight := inflight c - of_nat (length frames), notify_pending := True\<rparr>"

definition staged_server :: "nat \<Rightarrow> bytes list \<Rightarrow> lru_cache \<Rightarrow> server_stats \<Rightarrow> job worker_pool \<Rightarrow> server \<Rightarrow> server" where
  "staged_server p frames cache stats pool s =
     (put_conn p (staged_conn frames (conn s p)) s)
       \<lparr>srv_cache := cache, srv_stats := stats, srv_pool := Some pool,
        ready_connections := (if notify_pending (conn s p) then ready_connections s else ready_connections s @ [p]),
        srv_kernel := (if notify_pending (conn s p) then srv_kernel s
          else (srv_kernel s)\<lparr>k_completion := eventfd_write (k_completion (srv_kernel s))\<rparr>)\<rparr>"

lemma staged_staged:
  assumes "p < length (srv_heap s)"
  shows "staged_server p frames cache' stats' pool' (staged_server p [f] cache stats pool s)
    = staged_server p (f # frames) cache' stats' pool' s"
  using assms
  by (intro server.equality) (simp_all add: staged_server_def staged_conn_def put_conn_def sz_def add.assoc diff_diff_eq)

lemma staged_fields [simp]:
  "p < length (srv_heap s) \<Longrightarrow> conn (staged_server p frames cache stats pool s) p = staged_conn frames (conn s p)"
  "length (srv_heap (staged_server p frames cache stats pool s)) = length (srv_heap s)"
  "srv_pool (staged_server p frames cache stats pool s) = Some pool"
  "srv_cache (staged_server p frames cache stats pool s) = cache"
  by (simp_all add: staged_server_def)

lemma staged_conn_fields [simp]:
  "conn_closed (staged_conn frames c) = conn_closed c" "conn_limits (staged_conn frames c) = conn_limits c"
  "notify_pending (staged_conn frames c)" "unsent (staged_conn frames c) = unsent c @ concat frames"
  "conn_inv (staged_conn frames c) = conn_inv c"
  by (auto simp: staged_conn_def unsent_def conn_inv_def sz_def)

text \<open>Twice the output cap is not exceeded: the cap itself has room and its double does not wrap.\<close>

definition output_room :: "nat \<Rightarrow> connection \<Rightarrow> bool" where
  "output_room n c \<longleftrightarrow> length (unsent c) + n \<le> unat (max_output_bytes (conn_limits c))
     \<and> unat (max_output_bytes (conn_limits c)) < 2 ^ 63"

lemma output_room_under_cap:
  assumes "conn_inv c" "output_room n c" "length frame \<le> n"
  shows "\<not> pending_output_bytes c + sz frame > max_output_bytes (conn_limits c) * 2"
proof -
  let ?m = "max_output_bytes (conn_limits c)"
  have "pending_output_bytes c + sz frame = of_nat (length (unsent c) + length frame)"
    using assms(1) by (simp add: conn_inv_def sz_def)
  moreover have "length (unsent c) + length frame \<le> unat ?m" "unat ?m < 2 ^ 63" using assms(2,3) by (auto simp: output_room_def)
  moreover have "unat (?m * 2) = unat ?m * 2" using calculation(3) by (subst unat_mult_lem [THEN iffD1]) simp_all
  ultimately show ?thesis by (simp add: word_less_nat_alt unat_of_nat take_bit_nat_eq_self del: of_nat_add)
qed

lemma complete_job_staged:
  assumes "p < length (srv_heap s)" "\<not> conn_closed (conn s p)" "srv_pool s = Some pool"
    and "\<not> pending_output_bytes (conn s p) + sz frame > max_output_bytes (conn_limits (conn s p)) * 2"
  shows "complete_job p frame s = staged_server p [frame] (srv_cache s) (srv_stats s) pool s"
  using assms
  by (intro server.equality)
    (simp_all add: complete_job_def complete_stage_def complete_mark_def complete_push_def complete_wake_def enqueue_response_def
      try_mark_notified_def staged_server_def staged_conn_def put_conn_def upd_kernel_def Let_def split: prod.splits)

lemma worker_turn_staged:
  assumes "p < length (srv_heap s)" "conn_inv (conn s p)" "\<not> conn_closed (conn s p)" "srv_pool s = Some pool" "waiting_at i pool"
    and "queue pool = \<lparr>job_connection = p, job_request = r\<rparr> # js" "lru_inv (srv_cache s)" "request_fits r"
    and "values_below n (lru_abs (srv_cache s))" "length (req_value r) \<le> n" "114 \<le> n" "output_room (kHeaderSize + n) (conn s p)"
  shows "\<exists>cache stats resp. worker_turn i s
      = Some (staged_server p [serialize_response resp] cache stats (pool\<lparr>queue := js, completed := completed pool + 1\<rparr>) s)
    \<and> lru_inv cache \<and> lru_limits cache = lru_limits (srv_cache s)
    \<and> sequential (lru_limits (srv_cache s)) (lru_abs (srv_cache s)) [(r, resp)] = Some (lru_abs cache)
    \<and> values_below n (lru_abs cache) \<and> length (resp_value resp) \<le> n \<and> worker_answer i s = Some (r, resp)"
proof -
  define run where "run = pool\<lparr>queue := js, threads := (threads pool)[i := Running \<lparr>job_connection = p, job_request = r\<rparr>]\<rparr>"
  let ?s = "s\<lparr>srv_pool := Some run\<rparr>"
  have take: "worker_take i pool = Some run" "threads run ! i = Running \<lparr>job_connection = p, job_request = r\<rparr>"
    using assms(5,6) by (simp_all add: worker_take_def waiting_at_def run_def)
  have "(threads pool)[i := Waiting] = threads pool" using assms(5) list_update_id [of "threads pool" i] by (simp add: waiting_at_def)
  then have fin: "worker_finish i run = Some (pool\<lparr>queue := js, completed := completed pool + 1\<rparr>)"
    using assms(5) by (simp add: worker_finish_def waiting_at_def run_def)
  from execute_request_sequential [of ?s r] assms(7,8) obtain c st resp where
    ex: "execute_request r ?s = Some (?s\<lparr>srv_cache := c, srv_stats := st\<rparr>, resp)" "lru_inv c" "lru_limits c = lru_limits (srv_cache s)"
      "sequential (lru_limits (srv_cache s)) (lru_abs (srv_cache s)) [(r, resp)] = Some (lru_abs c)"
      "req_opcode r = Opcode_kStats \<longrightarrow> resp_value resp = serialize_stats (server_stats_snapshot ?s)"
    by (auto simp del: sequential.simps)
  have v: "values_below n (lru_abs c)" "length (resp_value resp) \<le> n"
    using sequential_values [OF ex(4) assms(9,10)] ex(5) assms(11) by auto
  have frame: "serialize_response_into resp [] = serialize_response resp" by (simp add: serialize_response_def)
  have "complete_job p (serialize_response resp) (?s\<lparr>srv_cache := c, srv_stats := st\<rparr>)
      = staged_server p [serialize_response resp] c st run (?s\<lparr>srv_cache := c, srv_stats := st\<rparr>)"
    using assms(1-3) output_room_under_cap [OF assms(2,12), of "serialize_response resp"] v(2)
    by (subst complete_job_staged [of _ _ run]) simp_all
  then have "handle_job \<lparr>job_connection = p, job_request = r\<rparr> ?s
      = Some (staged_server p [serialize_response resp] c st run (?s\<lparr>srv_cache := c, srv_stats := st\<rparr>))"
    by (simp add: handle_job_def ex(1) frame)
  then have "worker_turn i s = Some ((staged_server p [serialize_response resp] c st run (?s\<lparr>srv_cache := c, srv_stats := st\<rparr>))
      \<lparr>srv_pool := Some (pool\<lparr>queue := js, completed := completed pool + 1\<rparr>)\<rparr>)"
    by (simp add: worker_turn_def assms(4) take fin)
  also have "(staged_server p [serialize_response resp] c st run (?s\<lparr>srv_cache := c, srv_stats := st\<rparr>))
      \<lparr>srv_pool := Some (pool\<lparr>queue := js, completed := completed pool + 1\<rparr>)\<rparr>
      = staged_server p [serialize_response resp] c st (pool\<lparr>queue := js, completed := completed pool + 1\<rparr>) s"
    by (intro server.equality) (simp_all add: staged_server_def put_conn_def)
  finally have "worker_turn i s
      = Some (staged_server p [serialize_response resp] c st (pool\<lparr>queue := js, completed := completed pool + 1\<rparr>) s)" .
  moreover have "worker_answer i s = Some (r, resp)" by (simp add: worker_answer_def assms(4) take ex(1))
  ultimately show ?thesis using ex(2-4) v by blast
qed

definition pool_done :: "nat \<Rightarrow> job list \<Rightarrow> job worker_pool \<Rightarrow> job worker_pool" where
  "pool_done n js pool = pool\<lparr>queue := js, completed := completed pool + of_nat n\<rparr>"

lemma worker_turns_staged:
  assumes "rs \<noteq> []" "p < length (srv_heap s)" "conn_inv (conn s p)" "\<not> conn_closed (conn s p)" "srv_pool s = Some pool" "waiting_at i pool"
    and "queue pool = jobs_of p rs @ js" "lru_inv (srv_cache s)" "list_all request_fits rs"
    and "values_below n (lru_abs (srv_cache s))" "list_all (\<lambda>r. length (req_value r) \<le> n) rs" "114 \<le> n"
    and "output_room (length rs * (kHeaderSize + n)) (conn s p)"
  shows "\<exists>cache stats resps. worker_turns i (length rs) s
      = Some (staged_server p (map serialize_response resps) cache stats (pool_done (length rs) js pool) s)
    \<and> length resps = length rs \<and> list_all (\<lambda>resp. length (resp_value resp) \<le> n) resps \<and> lru_inv cache \<and> lru_limits cache = lru_limits (srv_cache s)
    \<and> sequential (lru_limits (srv_cache s)) (lru_abs (srv_cache s)) (zip rs resps) = Some (lru_abs cache)
    \<and> worker_log i (length rs) s = Some (zip rs resps)"
  using assms
proof (induction rs arbitrary: s pool rule: list_nonempty_induct)
  case (single r)
  from worker_turn_staged [OF single.prems(1-5), of r js n] single.prems(6-12) obtain cache stats resp where
    t: "worker_turn i s = Some (staged_server p [serialize_response resp] cache stats (pool\<lparr>queue := js, completed := completed pool + 1\<rparr>) s)"
      "lru_inv cache" "lru_limits cache = lru_limits (srv_cache s)"
      "sequential (lru_limits (srv_cache s)) (lru_abs (srv_cache s)) [(r, resp)] = Some (lru_abs cache)" "length (resp_value resp) \<le> n"
      "worker_answer i s = Some (r, resp)"
    by (auto simp: jobs_of_def simp del: sequential.simps)
  then show ?case
    by (intro exI [of _ cache] exI [of _ stats] exI [of _ "[resp]"]) (simp add: pool_done_def del: sequential.simps)
next
  case (cons r rs)
  have room: "output_room (kHeaderSize + n) (conn s p)" using cons.prems(12) by (simp add: output_room_def)
  from worker_turn_staged [OF cons.prems(1-5) _ _ _ _ _ _ room, of r "jobs_of p rs @ js"] cons.prems(6-11) obtain cache stats resp where
    t: "worker_turn i s = Some (staged_server p [serialize_response resp] cache stats
        (pool\<lparr>queue := jobs_of p rs @ js, completed := completed pool + 1\<rparr>) s)"
      "lru_inv cache" "lru_limits cache = lru_limits (srv_cache s)" "values_below n (lru_abs cache)"
      "sequential (lru_limits (srv_cache s)) (lru_abs (srv_cache s)) [(r, resp)] = Some (lru_abs cache)" "length (resp_value resp) \<le> n"
      "worker_answer i s = Some (r, resp)"
    by (auto simp: jobs_of_def simp del: sequential.simps)
  let ?pool = "pool\<lparr>queue := jobs_of p rs @ js, completed := completed pool + 1\<rparr>"
  let ?s = "staged_server p [serialize_response resp] cache stats ?pool s"
  have "\<exists>cache' stats' resps. worker_turns i (length rs) ?s
      = Some (staged_server p (map serialize_response resps) cache' stats' (pool_done (length rs) js ?pool) ?s)
    \<and> length resps = length rs \<and> list_all (\<lambda>resp. length (resp_value resp) \<le> n) resps \<and> lru_inv cache' \<and> lru_limits cache' = lru_limits (srv_cache ?s)
    \<and> sequential (lru_limits (srv_cache ?s)) (lru_abs (srv_cache ?s)) (zip rs resps) = Some (lru_abs cache')
    \<and> worker_log i (length rs) ?s = Some (zip rs resps)"
    using cons.prems t(2,4,6) by (intro cons.IH) (simp_all add: waiting_at_def output_room_def)
  then obtain cache' stats' resps where
    r: "worker_turns i (length rs) ?s = Some (staged_server p (map serialize_response resps) cache' stats' (pool_done (length rs) js ?pool) ?s)"
      "length resps = length rs" "list_all (\<lambda>resp. length (resp_value resp) \<le> n) resps" "lru_inv cache'" "lru_limits cache' = lru_limits cache"
      "sequential (lru_limits cache) (lru_abs cache) (zip rs resps) = Some (lru_abs cache')"
      "worker_log i (length rs) ?s = Some (zip rs resps)" by auto
  have pd: "pool_done (length rs) js ?pool = pool_done (length (r # rs)) js pool" by (simp add: pool_done_def add.commute add.left_commute)
  have sq: "sequential (lru_limits (srv_cache s)) (lru_abs (srv_cache s)) (zip (r # rs) (resp # resps)) = Some (lru_abs cache')"
    using t(3,5) r(6) sequential_append [of _ _ "[(r, resp)]" "zip rs resps"] by (simp del: sequential.simps)
  have "worker_turns i (length (r # rs)) s
      = Some (staged_server p (map serialize_response (resp # resps)) cache' stats' (pool_done (length (r # rs)) js pool) s)"
    by (simp only: length_Cons worker_turns.simps t(1) r(1) pd staged_staged [OF cons.prems(1)] list.map bind.bind_lunit)
  moreover have "worker_log i (length (r # rs)) s = Some (zip (r # rs) (resp # resps))"
    by (simp only: length_Cons worker_log.simps t(1,7) r(7) zip_Cons_Cons bind.bind_lunit)
  ultimately show ?case using r(2-5) t(3,6) sq
    by (intro exI [of _ cache'] exI [of _ stats'] exI [of _ "resp # resps"]) (simp del: sequential.simps worker_turns.simps worker_log.simps)
qed

section \<open>The completion\<close>

definition sent_conn :: "connection \<Rightarrow> connection" where
  "sent_conn c = c\<lparr>write_buf := [], write_pos := 0, staged := [], notify_pending := False, pending_output_bytes := 0\<rparr>"

definition sent_server :: "nat \<Rightarrow> bytes \<Rightarrow> send_outcome list \<Rightarrow> server \<Rightarrow> server" where
  "sent_server p out sends s = (put_conn p (sent_conn (conn s p)) s)
     \<lparr>ready_connections := [],
      srv_kernel := (srv_kernel s)\<lparr>k_completion := 0, k_send := sends, k_sent := k_sent (srv_kernel s) @ [(p, out)]\<rparr>\<rparr>"

lemma flush_everything:
  assumes "write_buf c = []" "write_pos c = 0" "staged c \<noteq> []" "length (staged c) \<le> n" "pending_output_bytes c = sz (staged c)"
  shows "flush_output (Sent n # sends) c
    = Some (c\<lparr>write_buf := [], write_pos := 0, staged := [], pending_output_bytes := 0\<rparr>, staged c, IoResult_kOk, sends)"
proof -
  define d where "d = c\<lparr>write_buf := staged c, staged := [], write_pos := length (staged c), pending_output_bytes := 0\<rparr>"
  have "flush_output sends d = Some (c\<lparr>write_buf := [], write_pos := 0, staged := [], pending_output_bytes := 0\<rparr>, [], IoResult_kOk, sends)"
    by (cases c; subst flush_output.simps) (simp add: refill_write_buf_def d_def)
  moreover have "c\<lparr>write_buf := staged c, staged := [], write_pos := length (staged c),
      pending_output_bytes := pending_output_bytes c - of_nat (length (staged c))\<rparr> = d"
    using assms(5) by (simp add: d_def sz_def)
  ultimately show ?thesis using assms(1-4) by (subst flush_output.simps) (simp add: refill_write_buf_def Let_def min.absorb2)
qed

lemma drain_completions_sends:
  assumes "p < length (srv_heap s)" "ready_connections s = [p]" "\<not> conn_closed (conn s p)" "\<not> close_after_flush (conn s p)"
    and "write_buf (conn s p) = []" "write_pos (conn s p) = 0" "staged (conn s p) \<noteq> []"
    and "pending_output_bytes (conn s p) = sz (staged (conn s p))" "\<not> srv_draining s"
    and "k_send (srv_kernel s) = Sent n # sends" "length (staged (conn s p)) \<le> n" "k_ctl (srv_kernel s) = True # ctl"
  shows "drain_completions s = Some (settled p (sent_server p (staged (conn s p)) sends s))"
proof -
  let ?D = "put_conn p (clear_notified (conn s p)) ((drain_read s)\<lparr>ready_connections := []\<rparr>)"
  have c: "conn ?D p = clear_notified (conn s p)" using assms(1) by (simp add: drain_read_def)
  have "flush_conn p ?D = Some (sent_server p (staged (conn s p)) sends s, IoResult_kOk)"
  proof -
    have "flush_output (k_send (srv_kernel ?D)) (conn ?D p) = Some (sent_conn (conn s p), staged (conn s p), IoResult_kOk, sends)"
      using flush_everything [of "clear_notified (conn s p)" n sends] assms
      by (simp add: c drain_read_def upd_kernel_def) (simp add: clear_notified_def sent_conn_def)
    then show ?thesis using assms(1)
      by (simp add: flush_conn_def) (intro server.equality; simp add: sent_server_def put_conn_def drain_read_def upd_kernel_def)
  qed
  moreover have "settle p (sent_server p (staged (conn s p)) sends s) = Some (settled p (sent_server p (staged (conn s p)) sends s))"
    using assms by (intro settle_input) (simp_all add: sent_server_def sent_conn_def)
  moreover have "drain_completions s = drain_ready [p] ((drain_read s)\<lparr>ready_connections := []\<rparr>)"
    using assms(2) by (simp add: drain_completions_def drain_swap_def drain_read_def upd_kernel_def)
  moreover have "drain_clear p ((drain_read s)\<lparr>ready_connections := []\<rparr>) = ?D" using assms(1) by (simp add: drain_clear_def drain_read_def)
  moreover have "\<not> conn_closed (conn ?D p)" using c assms(3) by (simp add: clear_notified_def)
  ultimately show ?thesis by (simp add: drain_flush_def flush_and_settle_def)
qed

text \<open>
  A connection that is to be closed after its output stays open for as long as its socket takes nothing: whatever
  the backlog, the loop only asks for the next chance to send.
\<close>

lemma blocked_stays_open:
  assumes "p < length (srv_heap s)" "flush_output (k_send (srv_kernel s)) (conn s p) = Some (c, out, IoResult_kWouldBlock, sends)"
    and "has_pending_output c" "\<not> conn_closed c" "k_ctl (srv_kernel s) = True # ctl"
  shows "\<exists>s'. flush_and_settle p s = Some s' \<and> \<not> conn_closed (conn s' p) \<and> close_after_flush (conn s' p) = close_after_flush c
    \<and> has_event (registered_events (conn s' p)) EPOLLOUT"
proof -
  have w: "has_event (wanted_events d c) EPOLLOUT" for d
    using assms(3) by (auto simp: wanted_events_def has_event_def event_constants kBaseConnectionEvents_def EPOLLOUT_def)
  show ?thesis using assms w [of "srv_draining s"]
    by (auto simp: flush_and_settle_def flush_conn_def settle_def update_interest_def epoll_set_def Let_def set_registered_events_def)
qed

section \<open>A round\<close>

text \<open>The event of the connection, \<open>n\<close> turns of the first worker, the completion event.\<close>

definition serve_round :: "nat \<Rightarrow> nat \<Rightarrow> server \<Rightarrow> server option" where
  "serve_round p n s =
     do { s \<leftarrow> dispatch (conn_fd (conn s p), EPOLLIN) s;
          s \<leftarrow> worker_turns 0 n s;
          dispatch (completion_fd s, EPOLLIN) s }"

text \<open>The three parts of a round that ends in \<open>s'\<close>, with the requests executed and their responses.\<close>

definition round_runs :: "nat \<Rightarrow> nat \<Rightarrow> (request \<times> response) list \<Rightarrow> server \<Rightarrow> server \<Rightarrow> bool" where
  "round_runs p n log s s' \<longleftrightarrow>
     (\<exists>t u. dispatch (conn_fd (conn s p), EPOLLIN) s = Some t \<and> worker_turns 0 n t = Some u \<and> worker_log 0 n t = Some log
        \<and> drain_completions u = Some s')"

lemma dispatch_wired: "wired p s \<Longrightarrow> dispatch (conn_fd (conn s p), events) s = handle_connection_event p events s"
  by (auto simp: dispatch_def wired_def)

lemma dispatch_completion: "completion_fd s \<noteq> listen_fd s \<Longrightarrow> dispatch (completion_fd s, events) s = drain_completions s"
  by (simp add: dispatch_def)

lemma round_fields [simp]:
  "listen_fd (settled p s) = listen_fd s" "completion_fd (settled p s) = completion_fd s"
  "shutdown_fd (settled p s) = shutdown_fd s" "signal_fd (settled p s) = signal_fd s"
  "listen_fd (staged_server p fr ca st po s) = listen_fd s" "completion_fd (staged_server p fr ca st po s) = completion_fd s"
  "shutdown_fd (staged_server p fr ca st po s) = shutdown_fd s" "signal_fd (staged_server p fr ca st po s) = signal_fd s"
  "listen_fd (sent_server p out sends s) = listen_fd s" "completion_fd (sent_server p out sends s) = completion_fd s"
  "shutdown_fd (sent_server p out sends s) = shutdown_fd s" "signal_fd (sent_server p out sends s) = signal_fd s"
  "listen_fd (submitted_server p b n rs po s) = listen_fd s" "completion_fd (submitted_server p b n rs po s) = completion_fd s"
  "shutdown_fd (submitted_server p b n rs po s) = shutdown_fd s" "signal_fd (submitted_server p b n rs po s) = signal_fd s"
  "listen_fd (upd_kernel g s) = listen_fd s" "completion_fd (upd_kernel g s) = completion_fd s"
  "shutdown_fd (upd_kernel g s) = shutdown_fd s" "signal_fd (upd_kernel g s) = signal_fd s"
  by (simp_all add: settled_def staged_server_def sent_server_def submitted_server_def upd_kernel_def put_conn_def upd_stats_def)

lemma interest_kernel_fields [simp]:
  "k_send (interest_kernel c k) = k_send k" "k_sent (interest_kernel c k) = k_sent k" "k_recv (interest_kernel c k) = k_recv k"
  "k_completion (interest_kernel c k) = k_completion k"
  "k_ctl k = True # True # ctl \<Longrightarrow> \<exists>ctl'. k_ctl (interest_kernel c k) = True # ctl'"
  by (simp_all add: interest_kernel_def)

lemma settled_fields [simp]:
  "p < length (srv_heap s) \<Longrightarrow> conn (settled p s) p = (conn s p)\<lparr>registered_events := input_interest (conn s p)\<rparr>"
  "length (srv_heap (settled p s)) = length (srv_heap s)" "srv_pool (settled p s) = srv_pool s" "srv_cache (settled p s) = srv_cache s"
  "srv_draining (settled p s) = srv_draining s" "ready_connections (settled p s) = ready_connections s"
  "connections (settled p s) = connections s" "srv_kernel (settled p s) = interest_kernel (conn s p) (srv_kernel s)"
  by (simp_all add: settled_def)

lemma submitted_more_fields [simp]:
  "srv_cache (submitted_server p b n rs pool s) = srv_cache s" "srv_draining (submitted_server p b n rs pool s) = srv_draining s"
  "ready_connections (submitted_server p b n rs pool s) = ready_connections s" "connections (submitted_server p b n rs pool s) = connections s"
  "srv_kernel (submitted_server p b n rs pool s) = srv_kernel s"
  by (simp_all add: submitted_server_def)

lemma staged_more_fields [simp]:
  "srv_draining (staged_server p frames cache stats pool s) = srv_draining s" "connections (staged_server p frames cache stats pool s) = connections s"
  "ready_connections (staged_server p frames cache stats pool s)
    = (if notify_pending (conn s p) then ready_connections s else ready_connections s @ [p])"
  "k_send (srv_kernel (staged_server p frames cache stats pool s)) = k_send (srv_kernel s)"
  "k_sent (srv_kernel (staged_server p frames cache stats pool s)) = k_sent (srv_kernel s)"
  "k_ctl (srv_kernel (staged_server p frames cache stats pool s)) = k_ctl (srv_kernel s)"
  by (simp_all add: staged_server_def)

lemma sent_fields [simp]:
  "p < length (srv_heap s) \<Longrightarrow> conn (sent_server p out sends s) p = sent_conn (conn s p)"
  "length (srv_heap (sent_server p out sends s)) = length (srv_heap s)" "srv_pool (sent_server p out sends s) = srv_pool s"
  "srv_cache (sent_server p out sends s) = srv_cache s" "srv_draining (sent_server p out sends s) = srv_draining s"
  "ready_connections (sent_server p out sends s) = []" "connections (sent_server p out sends s) = connections s"
  "k_completion (srv_kernel (sent_server p out sends s)) = 0"
  "k_sent (srv_kernel (sent_server p out sends s)) = k_sent (srv_kernel s) @ [(p, out)]"
  by (simp_all add: sent_server_def)

text \<open>What the kernel will answer during a round: the requests, room in the socket, and consent to changes of interest.\<close>

definition kernel_serves :: "bytes \<Rightarrow> nat \<Rightarrow> kernel \<Rightarrow> bool" where
  "kernel_serves input n k \<longleftrightarrow>
     k_recv k \<noteq> [] \<and> hd (k_recv k) = Received input
   \<and> k_send k \<noteq> [] \<and> hd (k_send k) = Sent n \<and> length (k_ctl k) \<ge> 2 \<and> take 2 (k_ctl k) = [True, True]"

definition values_fit :: "nat \<Rightarrow> nat \<Rightarrow> request list \<Rightarrow> server \<Rightarrow> bool" where
  "values_fit p n rs s \<longleftrightarrow>
     114 \<le> n \<and> values_below n (lru_abs (srv_cache s)) \<and> list_all (\<lambda>r. length (req_value r) \<le> n) rs
   \<and> output_room (length rs * (kHeaderSize + n)) (conn s p)"

lemma concat_frames_length:
  "list_all (\<lambda>resp. length (resp_value resp) \<le> n) resps \<Longrightarrow> length (concat (map serialize_response resps)) \<le> length resps * (kHeaderSize + n)"
  by (induction resps) auto

lemma serve_round_stages:
  assumes "idle_on p pool s" "requests_fit p pool rs rest s" "values_fit p n rs s" "packet p input rs rest s"
    and "kernel_serves input m (srv_kernel s)" "length rs * (kHeaderSize + n) \<le> m"
  shows "\<exists>b i resps cache stats. serve_round p (length rs) s
      = Some (settled p (sent_server p (concat (map serialize_response resps)) (tl (k_send (srv_kernel s)))
          (staged_server p (map serialize_response resps) cache stats (pool_done (length rs) [] (pool\<lparr>queue := jobs_of p rs\<rparr>))
            (arrived p (tl (k_recv (srv_kernel s))) b i rs pool s))))
    \<and> drop i b = rest \<and> conn_inv ((conn s p)\<lparr>in_buf := b, in_pos := i\<rparr>) \<and> length resps = length rs \<and> lru_inv cache
    \<and> sequential (lru_limits (srv_cache s)) (lru_abs (srv_cache s)) (zip rs resps) = Some (lru_abs cache)
    \<and> lru_limits cache = lru_limits (srv_cache s) \<and> list_all (\<lambda>resp. length (resp_value resp) \<le> n) resps
    \<and> round_runs p (length rs) (zip rs resps) s (the (serve_round p (length rs) s))"
proof -
  obtain recvs sends ctl where k: "k_recv (srv_kernel s) = Received input # recvs"
    "k_send (srv_kernel s) = Sent m # sends" "k_ctl (srv_kernel s) = True # True # ctl"
    using assms(5) by (cases "k_recv (srv_kernel s)"; cases "k_send (srv_kernel s)"; cases "k_ctl (srv_kernel s)"; cases "tl (k_ctl (srv_kernel s))")
      (simp_all add: kernel_serves_def)
  note l = assms(1) [unfolded idle_on_def at_rest_def] and f = assms(2) [unfolded requests_fit_def]
  from requests_arrive [OF assms(1,2,4) k(3,1)] obtain b i where
    a: "handle_connection_event p EPOLLIN s = Some (arrived p recvs b i rs pool s)" "drop i b = rest" "conn_inv ((conn s p)\<lparr>in_buf := b, in_pos := i\<rparr>)" by blast
  define A where "A = arrived p recvs b i rs pool s"
  have cA: "conn A p = (submitted_conn b i rs (conn s p))\<lparr>registered_events := input_interest (submitted_conn b i rs (conn s p))\<rparr>"
    using l by (simp add: A_def arrived_def)
  have fA: "length (srv_heap A) = length (srv_heap s)" "srv_pool A = Some (pool\<lparr>queue := jobs_of p rs\<rparr>)" "srv_cache A = srv_cache s"
    "srv_draining A = srv_draining s" "ready_connections A = []" "k_send (srv_kernel A) = Sent m # sends" "completion_fd A = completion_fd s" "listen_fd A = listen_fd s"
    using l k by (simp_all add: A_def arrived_def)
  obtain ctl' where ctlA: "k_ctl (srv_kernel A) = True # ctl'"
    using interest_kernel_fields(5) [of "(srv_kernel s)\<lparr>k_recv := recvs, k_sent := k_sent (srv_kernel s) @ [(p, [])]\<rparr>"] k(3) by (fastforce simp: A_def arrived_def)
  have rs: "rs \<noteq> []" "list_all request_fits rs" using f by (auto simp: list_all_iff intro: request_ok_fits)
  have "\<exists>cache stats resps. worker_turns 0 (length rs) A
      = Some (staged_server p (map serialize_response resps) cache stats (pool_done (length rs) [] (pool\<lparr>queue := jobs_of p rs\<rparr>)) A)
    \<and> length resps = length rs \<and> list_all (\<lambda>resp. length (resp_value resp) \<le> n) resps \<and> lru_inv cache \<and> lru_limits cache = lru_limits (srv_cache A)
    \<and> sequential (lru_limits (srv_cache A)) (lru_abs (srv_cache A)) (zip rs resps) = Some (lru_abs cache) \<and> worker_log 0 (length rs) A = Some (zip rs resps)"
    using l a(3) rs assms(3)
    by (intro worker_turns_staged)
      (simp_all add: fA cA values_fit_def output_room_def waiting_at_def submitted_conn_def conn_inv_def unsent_def)
  then obtain cache stats resps where
    w: "worker_turns 0 (length rs) A = Some (staged_server p (map serialize_response resps) cache stats (pool_done (length rs) [] (pool\<lparr>queue := jobs_of p rs\<rparr>)) A)"
      "length resps = length rs" "list_all (\<lambda>resp. length (resp_value resp) \<le> n) resps" "lru_inv cache" "lru_limits cache = lru_limits (srv_cache s)"
      "sequential (lru_limits (srv_cache s)) (lru_abs (srv_cache s)) (zip rs resps) = Some (lru_abs cache)"
      "worker_log 0 (length rs) A = Some (zip rs resps)" by (auto simp: fA)
  define W where "W = staged_server p (map serialize_response resps) cache stats (pool_done (length rs) [] (pool\<lparr>queue := jobs_of p rs\<rparr>)) A"
  have cW: "staged (conn W p) = concat (map serialize_response resps)" using l by (simp add: W_def fA cA staged_conn_def submitted_conn_def)
  have "serialize_response resp \<noteq> []" for resp
    using length_serialize_response [of resp] by (auto simp: kHeaderSize_def simp del: length_serialize_response)
  then have ne: "concat (map serialize_response resps) \<noteq> []" using w(2) rs(1) by (cases resps) auto
  have lm: "length (concat (map serialize_response resps)) \<le> m" using concat_frames_length [OF w(3)] assms(6) w(2) by simp
  have "drain_completions W = Some (settled p (sent_server p (staged (conn W p)) sends W))"
    using l ne lm ctlA
    by (intro drain_completions_sends [where n = m and ctl = ctl'])
      (simp_all add: cW, simp_all add: W_def fA cA staged_conn_def submitted_conn_def)
  then have dW: "drain_completions W = Some (settled p (sent_server p (concat (map serialize_response resps)) sends W))" by (simp only: cW)
  moreover have "completion_fd W \<noteq> listen_fd W" using l by (simp add: W_def fA wired_def)
  ultimately have "serve_round p (length rs) s = Some (settled p (sent_server p (concat (map serialize_response resps)) sends W))"
    using l a(1) w(1) by (simp add: serve_round_def dispatch_wired dispatch_completion A_def [symmetric] W_def [symmetric])
  moreover from this have "round_runs p (length rs) (zip rs resps) s (the (serve_round p (length rs) s))"
    using l a(1) w(1,7) dW by (simp add: round_runs_def dispatch_wired A_def [symmetric] W_def [symmetric])
  ultimately show ?thesis using a(2,3) w(2-6) k unfolding W_def A_def by (simp del: sequential.simps) blast
qed

lemma serve_round_result:
  assumes "idle_on p pool s" "requests_fit p pool rs rest s" "values_fit p n rs s" "packet p input rs rest s"
    and "kernel_serves input m (srv_kernel s)" "length rs * (kHeaderSize + n) \<le> m"
  shows "\<exists>s' resps. serve_round p (length rs) s = Some s' \<and> length resps = length rs
    \<and> sequential (lru_limits (srv_cache s)) (lru_abs (srv_cache s)) (zip rs resps) = Some (lru_abs (srv_cache s'))
    \<and> k_sent (srv_kernel s') = k_sent (srv_kernel s) @ [(p, []), (p, concat (map serialize_response resps))]
    \<and> idle_on p (pool_done (length rs) [] pool) s' \<and> unread (conn s' p) = rest \<and> conn_limits (conn s' p) = conn_limits (conn s p)
    \<and> list_all (\<lambda>resp. length (resp_value resp) \<le> n) resps \<and> round_runs p (length rs) (zip rs resps) s s'"
proof -
  from serve_round_stages [OF assms] obtain b i resps cache stats where
    r: "serve_round p (length rs) s = Some (settled p (sent_server p (concat (map serialize_response resps)) (tl (k_send (srv_kernel s)))
          (staged_server p (map serialize_response resps) cache stats (pool_done (length rs) [] (pool\<lparr>queue := jobs_of p rs\<rparr>))
            (arrived p (tl (k_recv (srv_kernel s))) b i rs pool s))))" (is "_ = Some ?s")
    "drop i b = rest" "conn_inv ((conn s p)\<lparr>in_buf := b, in_pos := i\<rparr>)" "length resps = length rs" "lru_inv cache"
    "sequential (lru_limits (srv_cache s)) (lru_abs (srv_cache s)) (zip rs resps) = Some (lru_abs cache)"
    "list_all (\<lambda>resp. length (resp_value resp) \<le> n) resps" "round_runs p (length rs) (zip rs resps) s (the (serve_round p (length rs) s))" by blast
  note l = assms(1) [unfolded idle_on_def] and f = assms(2) [unfolded requests_fit_def]
  let ?c = "(conn s p)\<lparr>in_buf := b, in_pos := i\<rparr>"
  have lim: "\<not> max_inflight (conn_limits (conn s p)) \<le> 0" using f by (cases rs) (auto simp: word_le_nat_alt)
  have c: "conn ?s p = ?c"
    using l r(4) lim
    by (intro connection.equality) (simp_all add: arrived_def at_rest_def sent_conn_def staged_conn_def submitted_conn_def
        input_interest_def inflight_limit_reached_def)
  have "at_rest ?c" using l by (simp add: at_rest_def)
  moreover have "wired p ?s" using l c by (auto simp: wired_def arrived_def)
  moreover have "pool_done (length rs) [] (pool\<lparr>queue := jobs_of p rs\<rparr>) = pool_done (length rs) [] pool" by (simp add: pool_done_def)
  ultimately have "idle_on p (pool_done (length rs) [] pool) ?s"
    using l r(3,5) c by (simp add: idle_on_def arrived_def) (simp add: pool_done_def waiting_at_def)
  moreover have "unread (conn ?s p) = rest" "conn_limits (conn ?s p) = conn_limits (conn s p)" using c r(2) by (simp_all add: unread_def)
  moreover have "k_sent (srv_kernel ?s) = k_sent (srv_kernel s) @ [(p, []), (p, concat (map serialize_response resps))]"
    using l by (simp add: arrived_def)
  moreover have "srv_cache ?s = cache" by simp
  ultimately show ?thesis using r(1,4,6,7) r(8) [unfolded r(1) option.sel] by (intro exI [of _ ?s] exI [of _ resps]) (simp only: simp_thms)
qed

section \<open>An example\<close>

definition ping :: "u64 \<Rightarrow> request" where
  "ping ident = default_request\<lparr>req_opcode := Opcode_kPing, req_request_id := ident\<rparr>"

definition one_config :: server_config where
  "one_config = default_config\<lparr>max_inflight_per_conn := 1\<rparr>"

definition resting_conn :: "server_config \<Rightarrow> connection" where
  "resting_conn config = set_registered_events (or EPOLLIN kBaseConnectionEvents) (new_connection 8 1 (connection_limits_of config))"

definition one_worker :: "job worker_pool" where
  "one_worker = pool_start (new_pool 1 16)"

definition resting_server :: "server_config \<Rightarrow> bytes \<Rightarrow> server" where
  "resting_server config input = \<lparr>srv_config = config, srv_cache = new_lru_cache (config_cache_limits config),
     srv_stats = new_server_stats, srv_pool = Some one_worker, epoll_fd = 4, listen_fd = 3,
     shutdown_fd = 5, completion_fd = 6, signal_fd = 7, connections = [(8, 0)], next_connection_id = 2, bound_socket_path = ''/tmp/s'',
     ready_connections = [], srv_running = True, srv_draining = False, drain_deadline = 0, srv_heap = [resting_conn config],
     srv_kernel = \<lparr>k_recv = [Received input], k_send = [Sent 1000], k_ctl = [True, True], k_accept = [], k_interest = (\<lambda>_. None),
       k_completion = 0, k_shutdown = 0, k_now_ms = 0, k_uptime_ms = 0, k_sent = [], k_files = (\<lambda>_. None), k_unlink_ok = True\<rparr>\<rparr>"

lemma resting_conn_fields [simp]:
  "conn_limits (resting_conn config) = connection_limits_of config" "conn_fd (resting_conn config) = 8"
  "unsent (resting_conn config) = []" "unread (resting_conn config) = []" "conn_inv (resting_conn config)" "at_rest (resting_conn config)"
  by (simp_all add: resting_conn_def new_connection_inv at_rest_def) (simp_all add: new_connection_def set_registered_events_def unread_def unsent_def)

lemma resting_idle:
  "unat (max_cache_bytes config) < 2 ^ 63 \<Longrightarrow> idle_on 0 one_worker (resting_server config input)"
  using new_lru_cache_inv [of "config_cache_limits config"]
  by (simp add: idle_on_def resting_server_def wired_def waiting_at_def one_worker_def pool_start_def new_pool_def
      config_cache_limits_def)

lemma ping_ok [simp]: "request_ok lim (ping ident)" "req_value (ping ident) = []" "req_key (ping ident) = []"
  by (simp_all add: ping_def default_request_def request_ok_def)

lemma resting_fits:
  assumes "max_conn_output_bytes config = 8388608" "max_cache_bytes config = 268435456" "length rs \<le> 4" "set rs \<subseteq> range ping"
  shows "values_fit 0 114 rs (resting_server config input)"
proof -
  have "list_all (\<lambda>r. length (req_value r) \<le> 114) rs" using assms(4) by (auto simp: list_all_iff)
  with assms(1-3) new_lru_cache_inv [of "config_cache_limits config"] show ?thesis
    by (simp add: values_fit_def resting_server_def values_below_def output_room_def connection_limits_of_def config_cache_limits_def
        kHeaderSize_def)
qed

lemma default_config_sizes:
  "max_conn_output_bytes default_config = 8388608" "max_cache_bytes default_config = 268435456" "max_inflight_per_conn default_config = 512"
  "max_conn_output_bytes one_config = 8388608" "max_cache_bytes one_config = 268435456" "max_inflight_per_conn one_config = 1"
  by (simp_all add: default_config_def one_config_def)

lemma resting_kernel:
  "kernel_serves input 1000 (srv_kernel (resting_server config input))"
  by (simp add: kernel_serves_def resting_server_def)

lemma resting_packet:
  "input \<noteq> [] \<Longrightarrow> length input \<le> kReadChunkBytes \<Longrightarrow> input = concat (map serialize_request rs) @ rest
    \<Longrightarrow> packet 0 input rs rest (resting_server config input)"
  by (simp add: packet_def resting_server_def)

section \<open>Properties\<close>




text \<open>
  C7. A request can be left waiting with nothing to wake the server: when a chunk of input completes as many
  requests as the in-flight limit allows and carries one more complete request and any further bytes, the server
  answers those within the limit and then has nothing queued, running, announced or to send, and neither an
  iteration of the loop without events nor a further completion event changes its state, while the complete request
  and the bytes after it stay in the input buffer. They are parsed only when the client sends more bytes.
\<close>

theorem request_beyond_limit_stalls:
  assumes "idle_on p pool s" "requests_fit p pool rs (serialize_request r @ tail) s" "values_fit p n rs s"
    and "packet p input rs (serialize_request r @ tail) s" "kernel_serves input m (srv_kernel s)" "length rs * (kHeaderSize + n) \<le> m"
    and "request_ok (protocol_limits (conn_limits (conn s p))) r"
  shows "\<exists>s'. serve_round p (length rs) s = Some s' \<and> idle_on p (pool_done (length rs) [] pool) s'
    \<and> unread (conn s' p) = serialize_request r @ tail
    \<and> (\<exists>c k. next_request (conn s' p) default_request = (c, pr_complete k, r))
    \<and> run_iteration (Ready []) s' = Some (s', True)
    \<and> run_iteration (Ready [(completion_fd s', EPOLLIN)]) s' = Some (s', True)"
proof -
  from serve_round_result [OF assms(1-6)] obtain s' where
    r: "serve_round p (length rs) s = Some s'" "idle_on p (pool_done (length rs) [] pool) s'" "unread (conn s' p) = serialize_request r @ tail"
      "conn_limits (conn s' p) = conn_limits (conn s p)" by blast
  from r(2) have i: "\<not> srv_draining s'" "ready_connections s' = []" "k_completion (srv_kernel s') = 0" "completion_fd s' \<noteq> listen_fd s'"
    "conn_inv (conn s' p)" by (simp_all add: idle_on_def wired_def)
  have n: "\<exists>c k. next_request (conn s' p) default_request = (c, pr_complete k, r)"
    using next_request_complete [OF i(5) r(3), of default_request] r(4) assms(7) by (simp only:) blast
  have "(srv_kernel s')\<lparr>k_completion := 0\<rparr> = srv_kernel s'" using i(3) by simp
  then have d: "drain_completions s' = Some s'"
    using i(2) by (simp add: drain_completions_def drain_read_def drain_swap_def upd_kernel_def)
  have "run_iteration (Ready []) s' = Some (s', True)" using i(1) by (simp add: run_iteration_def)
  moreover have "run_iteration (Ready [(completion_fd s', EPOLLIN)]) s' = Some (s', True)"
    using i(1,4) d by (simp add: run_iteration_def dispatch_completion)
  ultimately show ?thesis using r(1-3) n by (intro exI [of _ s'] conjI)
qed

theorem request_beyond_limit_stalls_witness:
  "\<exists>s'. serve_round 0 1 (resting_server one_config (serialize_request (ping 1) @ serialize_request (ping 2))) = Some s'
    \<and> idle_on 0 (pool_done 1 [] one_worker) s' \<and> (\<exists>c k. next_request (conn s' 0) default_request = (c, pr_complete k, ping 2))
    \<and> run_iteration (Ready []) s' = Some (s', True)"
proof -
  let ?in = "serialize_request (ping 1) @ serialize_request (ping 2)"
  let ?s = "resting_server one_config ?in"
  have fit: "requests_fit 0 one_worker [ping 1] (serialize_request (ping 2) @ []) ?s"
    by (simp add: requests_fit_def resting_server_def connection_limits_of_def default_config_sizes one_worker_def pool_start_def
        new_pool_def)
  have pk: "packet 0 ?in [ping 1] (serialize_request (ping 2) @ []) ?s"
    by (rule resting_packet) (simp_all add: kReadChunkBytes_def kHeaderSize_def)
  have v: "values_fit 0 114 [ping 1] ?s" by (rule resting_fits) (simp_all add: default_config_sizes)
  have l: "idle_on 0 one_worker ?s" by (rule resting_idle) (simp add: default_config_sizes)
  have m: "length [ping 1] * (kHeaderSize + 114) \<le> 1000" by (simp add: kHeaderSize_def)
  have "length [ping 1] = 1" by simp
  with request_beyond_limit_stalls [OF l fit v pk resting_kernel m ping_ok(1)] show ?thesis by (elim exE conjE) (intro exI conjI, simp_all only:)
qed

end
