(* ===== verification/Logging.thy ===== *)
theory Logging
  imports Printing
begin

text \<open>
  The log (\<^verbatim>\<open>include/cache/logging.h\<close>, \<^verbatim>\<open>src/logging.cpp\<close>): the global minimum level, and the formatting of a
  line into a buffer that goes to standard error with one \<^verbatim>\<open>write\<close>. The level is the state \<open>g_level\<close>. An
  operation that writes returns the text it gives to \<^verbatim>\<open>write\<close>; \<open>None\<close> is a conversion of a size to \<^verbatim>\<open>int\<close>
  that does not fit. The text that a format and its arguments stand for is an argument, since the C library
  produces it; a text of more than \<^verbatim>\<open>INT_MAX\<close> bytes makes \<^verbatim>\<open>snprintf\<close> fail.
\<close>

section \<open>Levels\<close>

datatype log_level = Level_kDebug | Level_kInfo | Level_kWarn | Level_kError

fun level_to_int :: "log_level \<Rightarrow> int" where
  "level_to_int Level_kDebug = 0"
| "level_to_int Level_kInfo = 1"
| "level_to_int Level_kWarn = 2"
| "level_to_int Level_kError = 3"

definition g_level_initial :: int where "g_level_initial = level_to_int Level_kInfo"

fun level_name :: "log_level \<Rightarrow> string" where
  "level_name Level_kDebug = ''DEBUG''"
| "level_name Level_kInfo = ''INFO ''"
| "level_name Level_kWarn = ''WARN ''"
| "level_name Level_kError = ''ERROR''"

definition set_level :: "log_level \<Rightarrow> int \<Rightarrow> int" where
  "set_level lvl g_level = level_to_int lvl"

definition log_level_of :: "int \<Rightarrow> log_level option" where
  "log_level_of g_level = find (\<lambda>lvl. level_to_int lvl = g_level) [Level_kDebug, Level_kInfo, Level_kWarn, Level_kError]"

definition enabled :: "log_level \<Rightarrow> int \<Rightarrow> bool" where
  "enabled lvl g_level \<longleftrightarrow> level_to_int lvl \<ge> g_level"

section \<open>Lines\<close>

definition int_max :: nat where "int_max = 2147483647"

definition c_string :: "string \<Rightarrow> string" where
  "c_string s = takeWhile (\<lambda>ch. ch \<noteq> CHR 0x00) s"

text \<open>The result of \<^verbatim>\<open>snprintf\<close> for a text.\<close>

definition snprintf_result :: "string \<Rightarrow> int" where
  "snprintf_result full = (if length full > int_max then - 1 else int (length full))"

definition kLineBytes :: nat where "kLineBytes = 1024"
definition kMessageBytes :: nat where "kMessageBytes = 960"

definition write_line :: "log_level \<Rightarrow> string \<Rightarrow> string option" where
  "write_line lvl message =
     (if length message > int_max then None
      else let full = level_name lvl @ '' '' @ c_string message @ nl;
               written = snprintf_result full
           in if written \<le> 0 then Some []
              else let len = (if nat written < kLineBytes then nat written else kLineBytes - 1)
                   in Some (take len full))"

definition log_formatted :: "log_level \<Rightarrow> string \<Rightarrow> string option" where
  "log_formatted lvl formatted =
     (let n = snprintf_result formatted
      in if n < 0 then Some [] else write_line lvl (c_string (take (kMessageBytes - 1) formatted)))"

definition LCS_LOG :: "int \<Rightarrow> log_level \<Rightarrow> string \<Rightarrow> string option" where
  "LCS_LOG g_level lvl formatted = (if enabled lvl g_level then log_formatted lvl formatted else Some [])"

section \<open>Lemmas\<close>

lemma level_roundtrip: "log_level_of (set_level lvl g) = Some lvl"
  by (cases lvl) (simp_all add: log_level_of_def set_level_def)

lemma enabled_after_set: "enabled lvl (set_level least g) \<longleftrightarrow> level_to_int least \<le> level_to_int lvl"
  by (simp add: enabled_def set_level_def)

lemma length_level_name [simp]: "length (level_name lvl) = 5"
  by (cases lvl) simp_all

lemma length_c_string: "length (c_string s) \<le> length s"
  by (simp add: c_string_def length_takeWhile_le)

lemma c_string_idem [simp]: "c_string (c_string s) = c_string s"
  by (simp add: c_string_def)

lemma write_line_whole:
  assumes "length message \<le> 1016"
  shows "write_line lvl message = Some (level_name lvl @ '' '' @ c_string message @ nl)"
  using assms length_c_string [of message] by (simp add: write_line_def Let_def snprintf_result_def int_max_def kLineBytes_def nat_add_distrib)

text \<open>Every line the macros write is whole: the level, at most 959 bytes of the message, and the newline.\<close>

lemma log_lines_whole:
  assumes "length formatted \<le> int_max"
  shows "LCS_LOG g lvl formatted = Some (if enabled lvl g then level_name lvl @ '' '' @ c_string (take 959 formatted) @ nl else [])"
proof -
  have "length (c_string (take 959 formatted)) \<le> 1016" using length_c_string [of "take 959 formatted"] by simp
  from write_line_whole [OF this] assms show ?thesis
    by (simp add: LCS_LOG_def log_formatted_def Let_def snprintf_result_def kMessageBytes_def)
qed

lemma log_lines_bounded: "LCS_LOG g lvl formatted = Some line \<Longrightarrow> length line \<le> 966 \<and> (line = [] \<or> last line = CHR 0x0A)"
proof (cases "length formatted \<le> int_max")
  case True
  assume "LCS_LOG g lvl formatted = Some line"
  with log_lines_whole [OF True] have "line = (if enabled lvl g then level_name lvl @ '' '' @ c_string (take 959 formatted) @ nl else [])" by simp
  with length_c_string [of "take 959 formatted"] show ?thesis by auto
qed (auto simp: LCS_LOG_def log_formatted_def snprintf_result_def split: if_splits)

text \<open>A message that does not fit the buffer of \<^verbatim>\<open>write_line\<close> loses its end and its newline.\<close>

lemma write_line_cut:
  assumes "1017 \<le> length (c_string message)" "length message \<le> int_max - 7"
  shows "write_line lvl message = Some (level_name lvl @ '' '' @ take 1017 (c_string message))"
  using assms length_c_string [of message]
  by (simp add: write_line_def Let_def snprintf_result_def int_max_def kLineBytes_def nat_add_distrib)

end
