(* ===== verification/ServerStart.thy ===== *)
theory ServerStart
  imports ServerConcurrency Logging
begin

text \<open>
  Starting the server: the constructor, \<^verbatim>\<open>install_signal_handling\<close>, \<^verbatim>\<open>remove_stale_socket\<close> and \<^verbatim>\<open>start\<close> of
  \<^verbatim>\<open>src/server.cpp\<close>, the destructor of a server that never started, and \<^verbatim>\<open>src/main.cpp\<close> up to \<^verbatim>\<open>run\<close>.

  The files are those of the kernel: \<^verbatim>\<open>stat\<close>, \<^verbatim>\<open>connect\<close>, \<^verbatim>\<open>unlink\<close> and \<^verbatim>\<open>bind\<close> act on them, and may fail
  besides for the reasons in \<open>start_answers\<close>, which also holds the descriptors the kernel hands out. Calls that
  write a path into a socket address are \<open>None\<close> when the path does not fit its array. The text of an error
  code is the argument \<open>strerror\<close>.
\<close>

section \<open>System calls\<close>

record start_answers =
  sa_stat :: "int option"
  sa_probe :: int
  sa_connect :: "int option"
  sa_unlink :: "int option"
  sa_socket :: int
  sa_bind :: "int option"
  sa_chmod :: "int option"
  sa_listen :: "int option"
  sa_epoll :: int
  sa_shutdown :: int
  sa_completion :: int
  sa_sigmask :: int
  sa_signalfd :: int
  sa_errno :: int
  sa_mode :: u32

definition ENOENT :: int where "ENOENT = 2"
definition EADDRINUSE :: int where "EADDRINUSE = 98"
definition ECONNREFUSED :: int where "ECONNREFUSED = 111"

definition owner_only :: u32 where "owner_only = 0x180"

text \<open>The result of \<^verbatim>\<open>stat\<close>, and the error codes of the other calls, \<open>None\<close> for success.\<close>

definition sys_stat :: "start_answers \<Rightarrow> string \<Rightarrow> kernel \<Rightarrow> int + dir_entry" where
  "sys_stat a path k =
     (case sa_stat a of Some e \<Rightarrow> Inl e
      | None \<Rightarrow> (case k_files k path of None \<Rightarrow> Inl ENOENT | Some f \<Rightarrow> Inr f))"

definition sys_connect :: "start_answers \<Rightarrow> string \<Rightarrow> kernel \<Rightarrow> int option" where
  "sys_connect a path k =
     (case sa_connect a of Some e \<Rightarrow> Some e
      | None \<Rightarrow> (case k_files k path of
          None \<Rightarrow> Some ENOENT
        | Some (Socket_file True _) \<Rightarrow> None
        | Some _ \<Rightarrow> Some ECONNREFUSED))"

definition sys_unlink :: "start_answers \<Rightarrow> string \<Rightarrow> kernel \<Rightarrow> kernel \<times> int option" where
  "sys_unlink a path k =
     (case sa_unlink a of Some e \<Rightarrow> (k, Some e)
      | None \<Rightarrow> (case k_files k path of
          None \<Rightarrow> (k, Some ENOENT)
        | Some _ \<Rightarrow> (k\<lparr>k_files := (k_files k)(path := None)\<rparr>, None)))"

definition sys_bind :: "start_answers \<Rightarrow> string \<Rightarrow> kernel \<Rightarrow> kernel \<times> int option" where
  "sys_bind a path k =
     (case sa_bind a of Some e \<Rightarrow> (k, Some e)
      | None \<Rightarrow> (case k_files k path of
          None \<Rightarrow> (k\<lparr>k_files := (k_files k)(path := Some (Socket_file False (sa_mode a)))\<rparr>, None)
        | Some _ \<Rightarrow> (k, Some EADDRINUSE)))"

definition sys_chmod :: "start_answers \<Rightarrow> string \<Rightarrow> u32 \<Rightarrow> kernel \<Rightarrow> kernel \<times> int option" where
  "sys_chmod a path mode k =
     (case sa_chmod a of Some e \<Rightarrow> (k, Some e)
      | None \<Rightarrow> (case k_files k path of
          None \<Rightarrow> (k, Some ENOENT)
        | Some (Socket_file on _) \<Rightarrow> (k\<lparr>k_files := (k_files k)(path := Some (Socket_file on mode))\<rparr>, None)
        | Some Other_file \<Rightarrow> (k, None)))"

definition sys_listen :: "start_answers \<Rightarrow> string \<Rightarrow> kernel \<Rightarrow> kernel \<times> int option" where
  "sys_listen a path k =
     (case sa_listen a of Some e \<Rightarrow> (k, Some e)
      | None \<Rightarrow> (case k_files k path of
          Some (Socket_file _ mode) \<Rightarrow> (k\<lparr>k_files := (k_files k)(path := Some (Socket_file True mode))\<rparr>, None)
        | _ \<Rightarrow> (k, None)))"

section \<open>Construction\<close>

definition new_server :: "server_config \<Rightarrow> kernel \<Rightarrow> server" where
  "new_server config k = \<lparr>srv_config = config, srv_cache = new_lru_cache (config_cache_limits config),
     srv_stats = new_server_stats, srv_pool = None, epoll_fd = - 1, listen_fd = - 1, shutdown_fd = - 1, completion_fd = - 1,
     signal_fd = - 1, connections = [], next_connection_id = 1, bound_socket_path = [], ready_connections = [],
     srv_running = False, srv_draining = False, drain_deadline = 0, srv_heap = [], srv_kernel = k\<rparr>"

definition server_errno_message :: "(int \<Rightarrow> string) \<Rightarrow> string \<Rightarrow> int \<Rightarrow> string" where
  "server_errno_message strerror what e = what @ '': '' @ strerror e"

definition install_signal_handling ::
  "(int \<Rightarrow> string) \<Rightarrow> start_answers \<Rightarrow> server \<Rightarrow> server \<times> string option" where
  "install_signal_handling strerror a s =
     (if sa_sigmask a \<noteq> 0 then (s, Some (server_errno_message strerror ''pthread_sigmask'' (sa_sigmask a)))
      else let s = s\<lparr>signal_fd := sa_signalfd a\<rparr> in
      if signal_fd s < 0 then (s, Some (server_errno_message strerror ''signalfd'' (sa_errno a)))
      else (s, None))"

definition remove_stale_socket ::
  "(int \<Rightarrow> string) \<Rightarrow> start_answers \<Rightarrow> string \<Rightarrow> server \<Rightarrow> (server \<times> string option) option" where
  "remove_stale_socket strerror a path s =
     (case sys_stat a path (srv_kernel s) of
        Inl e \<Rightarrow>
          if e = ENOENT then Some (s, None)
          else Some (s, Some (server_errno_message strerror (''stat('' @ path @ '')'') e))
      | Inr Other_file \<Rightarrow> Some (s, Some (path @ '' exists and is not a socket; refusing to unlink it''))
      | Inr (Socket_file _ _) \<Rightarrow>
          if sa_probe a < 0
          then Some (s, Some (server_errno_message strerror ''socket() while probing stale socket'' (sa_errno a)))
          else if length path > sizeof_sun_path then None
          else (case sys_connect a path (srv_kernel s) of
            None \<Rightarrow> Some (s, Some (''another cache server is already listening on '' @ path))
          | Some e \<Rightarrow>
              if e \<noteq> ECONNREFUSED \<and> e \<noteq> ENOENT
              then Some (s, Some (server_errno_message strerror (''connect() while probing '' @ path) e))
              else (case sys_unlink a path (srv_kernel s) of
                (k, Some e) \<Rightarrow>
                  if e \<noteq> ENOENT
                  then Some (s\<lparr>srv_kernel := k\<rparr>, Some (server_errno_message strerror (''unlink('' @ path @ '')'') e))
                  else Some (s\<lparr>srv_kernel := k\<rparr>, None)
              | (k, None) \<Rightarrow> Some (s\<lparr>srv_kernel := k\<rparr>, None))))"

section \<open>Start\<close>

text \<open>Steps of \<^verbatim>\<open>start\<close> in order: the first error ends it.\<close>

definition and_then ::
  "(server \<times> string option) option \<Rightarrow> (server \<Rightarrow> (server \<times> string option) option) \<Rightarrow> (server \<times> string option) option" where
  "and_then r f = (case r of None \<Rightarrow> None | Some (s, Some e) \<Rightarrow> Some (s, Some e) | Some (s, None) \<Rightarrow> f s)"

definition start_socket :: "(int \<Rightarrow> string) \<Rightarrow> start_answers \<Rightarrow> server \<Rightarrow> (server \<times> string option) option" where
  "start_socket strerror a s =
     (let s = s\<lparr>listen_fd := sa_socket a\<rparr>; path = socket_path (srv_config s) in
      if listen_fd s < 0 then Some (s, Some (server_errno_message strerror ''socket'' (sa_errno a)))
      else if length path > sizeof_sun_path then None
      else case sys_bind a path (srv_kernel s) of
        (k, Some e) \<Rightarrow> Some (s\<lparr>srv_kernel := k\<rparr>, Some (server_errno_message strerror (''bind('' @ path @ '')'') e))
      | (k, None) \<Rightarrow>
          (case sys_chmod a path owner_only k of
             (k, Some e) \<Rightarrow> Some (s\<lparr>bound_socket_path := path, srv_kernel := k\<rparr>,
                                Some (server_errno_message strerror (''chmod('' @ path @ '')'') e))
           | (k, None) \<Rightarrow>
               (case sys_listen a path k of
                  (k, Some e) \<Rightarrow> Some (s\<lparr>bound_socket_path := path, srv_kernel := k\<rparr>,
                                     Some (server_errno_message strerror ''listen'' e))
                | (k, None) \<Rightarrow> Some (s\<lparr>bound_socket_path := path, srv_kernel := k\<rparr>, None))))"

definition start_fds :: "(int \<Rightarrow> string) \<Rightarrow> start_answers \<Rightarrow> server \<Rightarrow> (server \<times> string option) option" where
  "start_fds strerror a s =
     (let s = s\<lparr>epoll_fd := sa_epoll a\<rparr> in
      if epoll_fd s < 0 then Some (s, Some (server_errno_message strerror ''epoll_create1'' (sa_errno a)))
      else let s = s\<lparr>shutdown_fd := sa_shutdown a, completion_fd := sa_completion a\<rparr> in
      if shutdown_fd s < 0 \<or> completion_fd s < 0
      then Some (s, Some (server_errno_message strerror ''eventfd'' (sa_errno a)))
      else Some (upd_kernel (\<lambda>k. k\<lparr>k_shutdown := 0, k_completion := 0, k_interest := (\<lambda>_. None)\<rparr>) s, None))"

definition register_fd :: "(int \<Rightarrow> string) \<Rightarrow> start_answers \<Rightarrow> int \<Rightarrow> server \<Rightarrow> (server \<times> string option) option" where
  "register_fd strerror a fd s =
     (case epoll_set fd EPOLLIN s of
        None \<Rightarrow> None
      | Some (s, ok) \<Rightarrow>
          if \<not> ok then Some (s, Some (server_errno_message strerror ''epoll_ctl(ADD)'' (sa_errno a))) else Some (s, None))"

definition start_pool :: "server \<Rightarrow> server" where
  "start_pool s = s\<lparr>srv_pool := Some (pool_start (new_pool (worker_threads (srv_config s)) (max_pending_requests (srv_config s)))),
     srv_running := True\<rparr>"

definition start :: "(int \<Rightarrow> string) \<Rightarrow> start_answers \<Rightarrow> server \<Rightarrow> (server \<times> string option) option" where
  "start strerror a s =
     (case validate (srv_config s) of
        Some problem \<Rightarrow> Some (s, Some problem)
      | None \<Rightarrow>
          and_then (remove_stale_socket strerror a (socket_path (srv_config s)) s) (\<lambda>s.
          and_then (start_socket strerror a s) (\<lambda>s.
          and_then (start_fds strerror a s) (\<lambda>s.
          and_then (register_fd strerror a (listen_fd s) s) (\<lambda>s.
          and_then (register_fd strerror a (shutdown_fd s) s) (\<lambda>s.
          and_then (register_fd strerror a (completion_fd s) s) (\<lambda>s.
          and_then (if signal_fd s \<ge> 0 then register_fd strerror a (signal_fd s) s else Some (s, None)) (\<lambda>s.
          Some (start_pool s, None)))))))))"

text \<open>The destructor of a server whose pool was never created.\<close>

definition destroy_unstarted :: "server \<Rightarrow> server" where
  "destroy_unstarted s = stop_listening s"

section \<open>Main\<close>

text \<open>
  The program ends before the event loop with an exit code, its two outputs and the server its destructor
  leaves, or enters the loop with the log level, its output so far and the server.
\<close>

datatype main_outcome =
  Exit_code int string string "server option"
| Serving int string server

definition server_main ::
  "(int \<Rightarrow> string) \<Rightarrow> start_answers \<Rightarrow> kernel \<Rightarrow> string \<Rightarrow> string list \<Rightarrow> main_outcome option" where
  "server_main strerror a k program argv =
     (let parsed = parse_server_args argv in
      if cpr_help_requested parsed then Some (Exit_code 0 (print_server_usage program) [] None)
      else case cpr_config parsed of
        None \<Rightarrow>
          Some (Exit_code 2 (print_server_usage program) (''configuration error: '' @ cpr_error parsed @ nl) None)
      | Some config \<Rightarrow>
          let g_level = set_level (if verbose config then Level_kDebug else Level_kInfo) g_level_initial in
          (case install_signal_handling strerror a (new_server config k) of
             (s, Some error) \<Rightarrow>
               Some (Exit_code 1 [] (''failed to install signal handling: '' @ error @ nl) (Some (destroy_unstarted s)))
           | (s, None) \<Rightarrow>
               (case start strerror a s of
                  None \<Rightarrow> None
                | Some (s, Some error) \<Rightarrow>
                    Some (Exit_code 1 [] (''failed to start server: '' @ error @ nl) (Some (destroy_unstarted s)))
                | Some (s, None) \<Rightarrow> Some (Serving g_level (print_startup_banner config) s))))"

section \<open>Files\<close>

lemma and_then_SomeD:
  assumes "and_then r f = Some (s', err)"
  shows "(\<exists>e. r = Some (s', Some e) \<and> err = Some e) \<or> (\<exists>s. r = Some (s, None) \<and> f s = Some (s', err))"
  using assms by (auto simp: and_then_def split: option.splits)

lemma and_thenE:
  assumes "and_then r f = Some (s', err)"
  obtains (stop) e where "r = Some (s', Some e)" "err = Some e" | (go) s where "r = Some (s, None)" "f s = Some (s', err)"
  using and_then_SomeD [OF assms] by blast

text \<open>A connection is refused only where nobody listens.\<close>

definition honest :: "start_answers \<Rightarrow> bool" where
  "honest a \<longleftrightarrow> sa_connect a \<noteq> Some ECONNREFUSED \<and> sa_connect a \<noteq> Some ENOENT"

definition dead_socket :: "dir_entry option \<Rightarrow> bool" where
  "dead_socket f \<longleftrightarrow> (\<exists>mode. f = Some (Socket_file False mode))"

text \<open>The server after the stale socket was dealt with: unchanged, or a dead socket at the path is gone.\<close>

definition cleared :: "string \<Rightarrow> server \<Rightarrow> server \<Rightarrow> bool" where
  "cleared path s s' \<longleftrightarrow> s' = s \<or> (dead_socket (k_files (srv_kernel s) path)
     \<and> s' = s\<lparr>srv_kernel := (srv_kernel s)\<lparr>k_files := (k_files (srv_kernel s))(path := None)\<rparr>\<rparr>)"

lemma remove_stale_socket_files:
  assumes "remove_stale_socket strerror a path s = Some (s', err)" "honest a"
  shows "cleared path s s'" "err \<noteq> None \<Longrightarrow> s' = s"
proof -
  have keep: "s\<lparr>srv_kernel := srv_kernel s\<rparr> = s" by simp
  have "s' = s \<or> err = None \<and> cleared path s s'"
  proof (cases "sys_stat a path (srv_kernel s)")
    case (Inl e)
    with assms(1) show ?thesis by (simp add: remove_stale_socket_def split: if_splits)
  next
    case (Inr f)
    show ?thesis
    proof (cases f)
      case Other_file
      with Inr assms(1) show ?thesis by (simp add: remove_stale_socket_def)
    next
      case (Socket_file on mode)
      with Inr have at: "k_files (srv_kernel s) path = Some (Socket_file on mode)"
        by (auto simp: sys_stat_def split: option.splits)
      show ?thesis
      proof (cases "sys_connect a path (srv_kernel s) = Some ECONNREFUSED \<or> sys_connect a path (srv_kernel s) = Some ENOENT")
        case True
        with at assms(2) have "\<not> on" by (auto simp: sys_connect_def honest_def ENOENT_def ECONNREFUSED_def split: option.splits if_splits)
        then have dead: "dead_socket (k_files (srv_kernel s) path)" using at by (simp add: dead_socket_def)
        from assms(1) Inr Socket_file True at show ?thesis
          by (cases "sa_unlink a") (auto simp: remove_stale_socket_def sys_unlink_def cleared_def dead [unfolded at] split: if_splits)
      next
        case False
        with assms(1) Inr Socket_file show ?thesis
          by (cases "sys_connect a path (srv_kernel s)") (simp_all add: remove_stale_socket_def split: if_splits)
      qed
    qed
  qed
  then show "cleared path s s'" "err \<noteq> None \<Longrightarrow> s' = s" by (auto simp: cleared_def)
qed

text \<open>The listening socket: nothing was created, or the file is this server's own.\<close>

definition own_file :: "bool \<Rightarrow> u32 \<Rightarrow> server \<Rightarrow> kernel" where
  "own_file on mode s = (srv_kernel s)\<lparr>k_files := (k_files (srv_kernel s))(socket_path (srv_config s) := Some (Socket_file on mode))\<rparr>"

lemma start_socket_created:
  assumes "k_files (srv_kernel s) (socket_path (srv_config s)) = None" "sa_socket a \<ge> 0"
    and "length (socket_path (srv_config s)) \<le> sizeof_sun_path" "sa_bind a = None"
  shows "\<exists>err. start_socket strerror a s = Some (s\<lparr>listen_fd := sa_socket a,
      bound_socket_path := socket_path (srv_config s), srv_kernel := own_file (sa_chmod a = None \<and> sa_listen a = None)
        (if sa_chmod a = None then owner_only else sa_mode a) s\<rparr>, err)
    \<and> (err = None \<longrightarrow> sa_chmod a = None \<and> sa_listen a = None)"
proof -
  have b: "sys_bind a (socket_path (srv_config s)) (srv_kernel s) = (own_file False (sa_mode a) s, None)"
    using assms(1,4) by (simp add: sys_bind_def own_file_def)
  have c: "sys_chmod a (socket_path (srv_config s)) owner_only (own_file on mode s)
      = (if sa_chmod a = None then own_file on owner_only s else own_file on mode s, sa_chmod a)" for on mode
    by (simp add: sys_chmod_def own_file_def split: option.split)
  have l: "sys_listen a (socket_path (srv_config s)) (own_file on mode s)
      = (if sa_listen a = None then own_file True mode s else own_file on mode s, sa_listen a)" for on mode
    by (simp add: sys_listen_def own_file_def split: option.split)
  show ?thesis
    using assms(2,3) by (cases "sa_chmod a"; cases "sa_listen a") (simp_all add: start_socket_def Let_def b c l)
qed

lemma start_socket_files:
  assumes "start_socket strerror a s = Some (s', err)"
  shows "srv_config s' = srv_config s \<and> k_unlink_ok (srv_kernel s') = k_unlink_ok (srv_kernel s)
    \<and> (err \<noteq> None \<and> k_files (srv_kernel s') = k_files (srv_kernel s) \<and> bound_socket_path s' = bound_socket_path s
     \<or> k_files (srv_kernel s) (socket_path (srv_config s)) = None \<and> bound_socket_path s' = socket_path (srv_config s)
       \<and> k_files (srv_kernel s') = (k_files (srv_kernel s))(socket_path (srv_config s) := k_files (srv_kernel s') (socket_path (srv_config s)))
       \<and> (err = None \<longrightarrow> k_files (srv_kernel s') (socket_path (srv_config s)) = Some (Socket_file True owner_only)))"
proof (cases "k_files (srv_kernel s) (socket_path (srv_config s)) = None \<and> sa_socket a \<ge> 0 \<and> sa_bind a = None")
  case True
  then have "length (socket_path (srv_config s)) \<le> sizeof_sun_path" using assms by (simp add: start_socket_def Let_def split: if_splits)
  from start_socket_created [OF _ _ this, of a strerror] True assms have
    "s' = s\<lparr>listen_fd := sa_socket a, bound_socket_path := socket_path (srv_config s),
       srv_kernel := own_file (sa_chmod a = None \<and> sa_listen a = None) (if sa_chmod a = None then owner_only else sa_mode a) s\<rparr>"
    "err = None \<longrightarrow> sa_chmod a = None \<and> sa_listen a = None" by auto
  then show ?thesis using True by (simp add: own_file_def)
next
  case False
  with assms show ?thesis
    by (cases "sa_bind a"; cases "k_files (srv_kernel s) (socket_path (srv_config s))")
      (auto simp: start_socket_def Let_def sys_bind_def split: if_splits)
qed

text \<open>The steps after it keep the files and the path.\<close>

definition keeps_files :: "server \<Rightarrow> server \<Rightarrow> bool" where
  "keeps_files s s' \<longleftrightarrow> k_files (srv_kernel s') = k_files (srv_kernel s) \<and> k_unlink_ok (srv_kernel s') = k_unlink_ok (srv_kernel s)
     \<and> bound_socket_path s' = bound_socket_path s"

lemma start_fds_files: "start_fds strerror a s = Some (s', err) \<Longrightarrow> keeps_files s s'"
  by (auto simp: start_fds_def Let_def keeps_files_def upd_kernel_def split: if_splits)

lemma register_fd_files: "register_fd strerror a fd s = Some (s', err) \<Longrightarrow> keeps_files s s'"
  by (auto simp: register_fd_def epoll_set_def keeps_files_def upd_kernel_def split: option.splits list.splits if_splits)

lemma keeps_files_trans: "keeps_files s t \<Longrightarrow> keeps_files t u \<Longrightarrow> keeps_files s u"
  by (simp add: keeps_files_def)

lemma keeps_files_refl: "keeps_files s s"
  by (simp add: keeps_files_def)

lemma and_then_files:
  assumes "and_then r f = Some (s', err)" "\<And>t e. r = Some (t, e) \<Longrightarrow> keeps_files s t"
    and "\<And>t. f t = Some (s', err) \<Longrightarrow> keeps_files t s'"
  shows "keeps_files s s'"
  using assms(1)
proof (cases rule: and_thenE)
  case (go t)
  from assms(2) [OF go(1)] assms(3) [OF go(2)] show ?thesis by (rule keeps_files_trans)
qed (rule assms(2))

lemma start_tail_files:
  assumes "and_then (start_fds strerror a s) (\<lambda>s.
          and_then (register_fd strerror a (listen_fd s) s) (\<lambda>s.
          and_then (register_fd strerror a (shutdown_fd s) s) (\<lambda>s.
          and_then (register_fd strerror a (completion_fd s) s) (\<lambda>s.
          and_then (if signal_fd s \<ge> 0 then register_fd strerror a (signal_fd s) s else Some (s, None)) (\<lambda>s.
          Some (start_pool s, None)))))) = Some (s', err)"
  shows "keeps_files s s'"
  apply (rule and_then_files [OF assms start_fds_files], assumption)
  apply (erule and_then_files [OF _ register_fd_files], assumption)+
  apply (erule and_then_files, simp split: if_splits, erule register_fd_files, simp add: keeps_files_refl)
  apply (auto simp: start_pool_def keeps_files_def)
  done

lemma destroy_files:
  assumes "k_unlink_ok (srv_kernel s)"
  shows "k_files (srv_kernel (destroy_unstarted s))
    = (if bound_socket_path s = [] then k_files (srv_kernel s) else (k_files (srv_kernel s))(bound_socket_path s := None))"
  using assms
  by (simp add: destroy_unstarted_def stop_listening_def Let_def unlink_file_def unlisten_def upd_kernel_def
      split: option.split dir_entry.split)

lemma validate_path: "validate c = None \<Longrightarrow> socket_path c \<noteq> [] \<and> length (socket_path c) < sizeof_sun_path"
  by (auto simp: validate_def split: if_splits)

lemma start_socket_undo:
  assumes "start_socket strerror a s = Some (u, err)" "bound_socket_path s = []" "k_unlink_ok (srv_kernel s)"
    and "socket_path (srv_config s) \<noteq> []" "keeps_files u s'"
  shows "k_files (srv_kernel (destroy_unstarted s')) = k_files (srv_kernel s)"
proof -
  let ?p = "socket_path (srv_config s)"
  have k: "k_unlink_ok (srv_kernel s')" "k_files (srv_kernel s') = k_files (srv_kernel u)" "bound_socket_path s' = bound_socket_path u"
    using assms(3,5) start_socket_files [OF assms(1)] by (simp_all add: keeps_files_def)
  from start_socket_files [OF assms(1)] consider
      (nothing) "k_files (srv_kernel u) = k_files (srv_kernel s)" "bound_socket_path u = []"
    | (own) f where "k_files (srv_kernel s) ?p = None" "bound_socket_path u = ?p" "k_files (srv_kernel u) = (k_files (srv_kernel s))(?p := f)"
    using assms(2) by auto
  then show ?thesis
  proof cases
    case own
    then have "(k_files (srv_kernel s))(?p := None) = k_files (srv_kernel s)" by (simp add: fun_upd_idem)
    with own assms(4) k show ?thesis by (simp add: destroy_files)
  qed (simp add: destroy_files k)
qed

text \<open>
  C34. Starting never steals or destroys a file: when \<^verbatim>\<open>start\<close> succeeds, the only file changed is the one at
  the configured path, where there was nothing or a socket nobody listens on, and where there is now the
  listening socket of this server, accessible to its owner alone. When it fails at any step, the server's
  destructor leaves the files as they were, but for such a dead socket it may have removed. This holds
  provided a connection is refused only where nobody listens.
\<close>

theorem start_respects_files:
  fixes s :: server and a :: start_answers
  assumes "start strerror a s = Some (s', err)" "honest a" "bound_socket_path s = []" "k_unlink_ok (srv_kernel s)"
  shows "case err of
    None \<Rightarrow> (k_files (srv_kernel s) (socket_path (srv_config s)) = None \<or> dead_socket (k_files (srv_kernel s) (socket_path (srv_config s))))
      \<and> k_files (srv_kernel s') = (k_files (srv_kernel s))(socket_path (srv_config s) := Some (Socket_file True owner_only))
  | Some _ \<Rightarrow> k_files (srv_kernel (destroy_unstarted s')) = k_files (srv_kernel s)
      \<or> dead_socket (k_files (srv_kernel s) (socket_path (srv_config s)))
        \<and> k_files (srv_kernel (destroy_unstarted s')) = (k_files (srv_kernel s))(socket_path (srv_config s) := None)"
proof (cases "validate (srv_config s)")
  case (Some problem)
  then have "s' = s" "err = Some problem" using assms(1) by (simp_all add: start_def)
  with assms show ?thesis by (simp add: destroy_files)
next
  case None
  let ?p = "socket_path (srv_config s)"
  note st = assms(1) [unfolded start_def None option.case]
  from st show ?thesis
  proof (cases rule: and_thenE)
    case (stop e)
    with remove_stale_socket_files [OF stop(1) assms(2)] assms(3,4) show ?thesis by (simp add: destroy_files)
  next
    case (go t)
    note c = remove_stale_socket_files(1) [OF go(1) assms(2)]
    have t: "bound_socket_path t = []" "srv_config t = srv_config s" "k_unlink_ok (srv_kernel t)"
      "k_files (srv_kernel t) = k_files (srv_kernel s)
       \<or> dead_socket (k_files (srv_kernel s) ?p) \<and> k_files (srv_kernel t) = (k_files (srv_kernel s))(?p := None)"
      using c assms(3,4) by (auto simp: cleared_def)
    from go(2) show ?thesis
    proof (cases rule: and_thenE)
      case (stop e)
      from start_socket_undo [OF stop(1) t(1,3) _ keeps_files_refl] t(2,4) validate_path [OF None] show ?thesis
        by (simp add: stop(2))
    next
      case (go u)
      note k = start_tail_files [OF go(2), unfolded keeps_files_def]
      show ?thesis
      proof (cases err)
        case None
        from start_socket_files [OF go(1)] t k show ?thesis by (auto simp: None)
      next
        case (Some e)
        from start_socket_undo [OF go(1) t(1,3) _ start_tail_files [OF go(2)]] t(2,4) validate_path [OF None] show ?thesis
          by (simp add: Some)
      qed
    qed
  qed
qed

section \<open>The started server\<close>

definition initial_system :: "server \<Rightarrow> system" where
  "initial_system s = \<lparr>sys_server = s, sys_pcs = replicate (length (threads_of s)) At_pool, sys_loop = Loop_idle\<rparr>"

text \<open>No client has been seen, and the cache is empty.\<close>

definition pristine :: "server_config \<Rightarrow> server \<Rightarrow> bool" where
  "pristine config s \<longleftrightarrow> srv_config s = config \<and> srv_heap s = [] \<and> connections s = [] \<and> ready_connections s = []
     \<and> srv_draining s = False \<and> srv_cache s = new_lru_cache (config_cache_limits config) \<and> srv_stats s = new_server_stats"

lemma pristine_steps:
  "remove_stale_socket strerror a path s = Some (s', None) \<Longrightarrow> pristine config s \<Longrightarrow> honest a \<Longrightarrow> pristine config s'"
  "start_socket strerror a s = Some (s', None) \<Longrightarrow> pristine config s \<Longrightarrow> pristine config s'"
  "start_fds strerror a s = Some (s', None) \<Longrightarrow> pristine config s \<Longrightarrow> pristine config s'"
  "register_fd strerror a fd s = Some (s', None) \<Longrightarrow> pristine config s \<Longrightarrow> pristine config s'"
proof -
  show "remove_stale_socket strerror a path s = Some (s', None) \<Longrightarrow> pristine config s \<Longrightarrow> honest a \<Longrightarrow> pristine config s'"
    using remove_stale_socket_files(1) [of strerror a path s s' None] by (auto simp: cleared_def pristine_def)
qed (auto simp: pristine_def start_socket_def start_fds_def register_fd_def epoll_set_def upd_kernel_def Let_def
    split: option.splits list.splits if_splits prod.splits)

lemma register_fd_done:
  assumes "register_fd strerror a fd s = Some (s', None)"
  shows "k_interest (srv_kernel s') = (k_interest (srv_kernel s))(fd \<mapsto> EPOLLIN)"
    "listen_fd s' = listen_fd s" "shutdown_fd s' = shutdown_fd s" "completion_fd s' = completion_fd s" "signal_fd s' = signal_fd s"
    "k_completion (srv_kernel s') = k_completion (srv_kernel s)"
  using assms by (auto simp: register_fd_def epoll_set_def upd_kernel_def split: option.splits list.splits if_splits)

lemma start_fds_done:
  assumes "start_fds strerror a s = Some (s', None)"
  shows "k_interest (srv_kernel s') = (\<lambda>_. None)" "k_completion (srv_kernel s') = 0" "shutdown_fd s' \<ge> 0" "completion_fd s' \<ge> 0"
    "listen_fd s' = listen_fd s" "signal_fd s' = signal_fd s"
  using assms by (auto simp: start_fds_def Let_def upd_kernel_def split: if_splits)

lemma and_then_done:
  assumes "and_then r f = Some (s', None)"
  obtains s where "r = Some (s, None)" "f s = Some (s', None)"
  using assms by (cases rule: and_thenE) auto

lemma start_done:
  assumes "start strerror a s = Some (s', None)" "pristine config s" "honest a"
  shows "validate config = None" "\<exists>t. pristine config t \<and> s' = start_pool t \<and> k_completion (srv_kernel t) = 0
    \<and> k_interest (srv_kernel t) = (\<lambda>fd. if fd = listen_fd t \<or> fd = shutdown_fd t \<or> fd = completion_fd t
        \<or> fd = signal_fd t \<and> signal_fd t \<ge> 0 then Some EPOLLIN else None)"
proof -
  show v: "validate config = None" using assms(1,2) by (auto simp: start_def pristine_def split: option.splits)
  note st = assms(1) [unfolded start_def]
  have "validate (srv_config s) = None" using v assms(2) by (simp add: pristine_def)
  note st = st [unfolded this option.case]
  from st obtain t1 where 1: "remove_stale_socket strerror a (socket_path (srv_config s)) s = Some (t1, None)" and st:
    "and_then (start_socket strerror a t1) (\<lambda>s. and_then (start_fds strerror a s) (\<lambda>s.
          and_then (register_fd strerror a (listen_fd s) s) (\<lambda>s.
          and_then (register_fd strerror a (shutdown_fd s) s) (\<lambda>s.
          and_then (register_fd strerror a (completion_fd s) s) (\<lambda>s.
          and_then (if signal_fd s \<ge> 0 then register_fd strerror a (signal_fd s) s else Some (s, None)) (\<lambda>s.
          Some (start_pool s, None))))))) = Some (s', None)" by (rule and_then_done)
  from st obtain t2 t3 t4 t5 t6 t7 where 2: "start_socket strerror a t1 = Some (t2, None)"
    and 3: "start_fds strerror a t2 = Some (t3, None)" and 4: "register_fd strerror a (listen_fd t3) t3 = Some (t4, None)"
    and 5: "register_fd strerror a (shutdown_fd t4) t4 = Some (t5, None)"
    and 6: "register_fd strerror a (completion_fd t5) t5 = Some (t6, None)"
    and 7: "(if signal_fd t6 \<ge> 0 then register_fd strerror a (signal_fd t6) t6 else Some (t6, None)) = Some (t7, None)"
    and 8: "s' = start_pool t7"
    by (elim and_then_done) (simp only: option.inject prod.inject)
  have p: "pristine config t6"
    using pristine_steps(4) [OF 6 pristine_steps(4) [OF 5 pristine_steps(4) [OF 4 pristine_steps(3) [OF 3
      pristine_steps(2) [OF 2 pristine_steps(1) [OF 1 assms(2,3)]]]]]] .
  note r = start_fds_done [OF 3] register_fd_done [OF 4] register_fd_done [OF 5] register_fd_done [OF 6]
  have "pristine config t7" using 7 p pristine_steps(4) by (auto split: if_splits)
  moreover have "k_completion (srv_kernel t7) = 0 \<and> k_interest (srv_kernel t7) = (\<lambda>fd. if fd = listen_fd t7 \<or> fd = shutdown_fd t7 \<or> fd = completion_fd t7
        \<or> fd = signal_fd t7 \<and> signal_fd t7 \<ge> 0 then Some EPOLLIN else None)"
  proof (cases "signal_fd t6 \<ge> 0")
    case True
    with 7 have "register_fd strerror a (signal_fd t6) t6 = Some (t7, None)" by simp
    from register_fd_done [OF this] r True show ?thesis by (auto simp: fun_eq_iff)
  next
    case False
    with 7 r show ?thesis by (auto simp: fun_eq_iff)
  qed
  ultimately show "\<exists>t. pristine config t \<and> s' = start_pool t \<and> k_completion (srv_kernel t) = 0
    \<and> k_interest (srv_kernel t) = (\<lambda>fd. if fd = listen_fd t \<or> fd = shutdown_fd t \<or> fd = completion_fd t
        \<or> fd = signal_fd t \<and> signal_fd t \<ge> 0 then Some EPOLLIN else None)" using 8 by blast
qed

lemma threads_of_pool_start [simp]: "length (threads (pool_start (new_pool n m))) = unat n" "queue (pool_start (new_pool n m)) = []"
  "threads (pool_start (new_pool n m)) = replicate (unat n) Waiting"
  by (simp_all add: pool_start_def new_pool_def)

lemma running_at_initial [simp]: "running_at (replicate n Waiting) pcs p = 0"
proof -
  have "\<not> busy_for p x" if "x \<in> set (zip (replicate n Waiting) pcs)" for x
  proof -
    obtain w pc where x: "x = (w, pc)" by (cases x)
    with that have "w \<in> set (replicate n Waiting)" by (auto dest: set_zip_leftD)
    then show ?thesis by (simp add: x split: if_splits)
  qed
  then show ?thesis by (simp add: running_at_def filter_empty_conv)
qed

lemma initial_system_inv:
  assumes "pristine config t" "k_completion (srv_kernel t) = 0" "unat (max_cache_bytes config) < 2 ^ 63"
  shows "sys_inv (initial_system (start_pool t))"
proof -
  let ?s = "start_pool t" and ?n = "unat (worker_threads config)"
  have f: "srv_config ?s = config" "srv_heap ?s = []" "connections ?s = []" "ready_connections ?s = []"
    "srv_stats ?s = new_server_stats" "srv_cache ?s = new_lru_cache (config_cache_limits config)"
    "srv_pool ?s = Some (pool_start (new_pool (worker_threads config) (max_pending_requests config)))"
    using assms(1) by (simp_all add: pristine_def start_pool_def)
  have "srv_inv (\<lambda>_. 0) ?s"
    by (simp add: srv_inv_def table_inv_def heap_inv_def inflight_inv_def pool_ok_def f pool_start_inv new_server_stats_def)
  moreover have "cache_ok ?s"
    using new_lru_cache_inv [of "config_cache_limits config"] assms(3) by (simp add: cache_ok_def f config_cache_limits_def)
  moreover have "outstanding (threads_of ?s) (replicate ?n At_pool) Loop_idle = (\<lambda>_. 0)" by (simp add: f fun_eq_iff outstanding_def)
  ultimately show ?thesis
    by (simp add: initial_system_def sys_inv_def workers_inv_def wake_inv_def announced_def f)
qed

text \<open>
  C33. \<^verbatim>\<open>main\<close> runs the event loop only on a well-formed server: the configuration is the one the command line
  denotes and is valid, the log level and the printed banner are those of it, the worker pool has its threads, exactly the listening socket, the two event
  descriptors and the signal descriptor are registered for input, and server and workers satisfy the
  invariant that every step preserves. The cache limit must be below \<open>2 ^ 63\<close>, which \<^verbatim>\<open>validate\<close> does not
  check.
\<close>

theorem server_main_ready:
  assumes "server_main strerror a k program argv = Some (Serving g_level out s)" "honest a" "unat (max_cache_bytes (srv_config s)) < 2 ^ 63"
  shows "cpr_config (parse_server_args argv) = Some (srv_config s) \<and> validate (srv_config s) = None
    \<and> g_level = level_to_int (if verbose (srv_config s) then Level_kDebug else Level_kInfo) \<and> out = print_startup_banner (srv_config s)
    \<and> srv_running s \<and> length (threads_of s) = unat (worker_threads (srv_config s))
    \<and> (\<forall>fd. k_interest (srv_kernel s) fd = (if fd = listen_fd s \<or> fd = shutdown_fd s \<or> fd = completion_fd s
         \<or> fd = signal_fd s \<and> signal_fd s \<ge> 0 then Some EPOLLIN else None))
    \<and> sys_inv (initial_system s)"
proof -
  from assms(1) obtain config u where c: "cpr_config (parse_server_args argv) = Some config"
    and u: "install_signal_handling strerror a (new_server config k) = (u, None)"
    and s: "start strerror a u = Some (s, None)"
    and o: "g_level = level_to_int (if verbose config then Level_kDebug else Level_kInfo)" "out = print_startup_banner config"
    by (auto simp: server_main_def set_level_def Let_def split: if_splits option.splits prod.splits)
  have p: "pristine config u"
    using u by (auto simp: install_signal_handling_def new_server_def pristine_def Let_def split: if_splits)
  from start_done [OF s p assms(2)] obtain t where v: "validate config = None" and t: "pristine config t" "s = start_pool t"
    "k_completion (srv_kernel t) = 0" and i: "k_interest (srv_kernel t) = (\<lambda>fd. if fd = listen_fd t \<or> fd = shutdown_fd t
      \<or> fd = completion_fd t \<or> fd = signal_fd t \<and> signal_fd t \<ge> 0 then Some EPOLLIN else None)" by blast
  have f: "srv_config s = config" using t(1,2) by (simp add: start_pool_def pristine_def)
  have "sys_inv (initial_system s)" using initial_system_inv [OF t(1,3)] assms(3) t(2) f by simp
  then show ?thesis using c v t(1) f o by (simp add: t(2) start_pool_def i pristine_def)
qed

definition example_kernel :: kernel where
  "example_kernel = \<lparr>k_recv = [], k_send = [], k_ctl = [True, True, True, True], k_accept = [], k_interest = (\<lambda>_. None),
     k_completion = 0, k_shutdown = 0, k_now_ms = 0, k_uptime_ms = 0, k_sent = [],
     k_files = (\<lambda>_. None)(''/tmp/local_cache.sock'' \<mapsto> Socket_file False 0), k_unlink_ok = True\<rparr>"

definition example_start :: start_answers where
  "example_start = \<lparr>sa_stat = None, sa_probe = 3, sa_connect = None, sa_unlink = None, sa_socket = 3, sa_bind = None,
     sa_chmod = None, sa_listen = None, sa_epoll = 4, sa_shutdown = 5, sa_completion = 6, sa_sigmask = 0,
     sa_signalfd = 7, sa_errno = 0, sa_mode = 0x1ED\<rparr>"

definition example_server :: server where
  "example_server = fst (the (start (\<lambda>_. ''error'') example_start ((new_server default_config example_kernel)\<lparr>signal_fd := 7\<rparr>)))"

lemma example_starts:
  "start (\<lambda>_. ''error'') example_start ((new_server default_config example_kernel)\<lparr>signal_fd := 7\<rparr>) = Some (example_server, None)"
  "srv_config example_server = default_config" "server_main (\<lambda>_. ''error'') example_start example_kernel ''cache_server'' []
     = Some (Serving 1 (print_startup_banner default_config) example_server)"
  "honest example_start"
proof -
  let ?s = "(new_server default_config example_kernel)\<lparr>signal_fd := 7\<rparr>"
  have v: "validate default_config = None" by code_simp
  have sp: "socket_path default_config = ''/tmp/local_cache.sock''" by (simp add: default_config_def)
  have p: "parse_server_args [] = \<lparr>cpr_config = Some default_config, cpr_error = [], cpr_help_requested = False\<rparr>"
    by (simp add: parse_server_args_def v)
  have vb: "verbose default_config = False" by (simp add: default_config_def)
  obtain t where "start (\<lambda>_. ''error'') example_start ?s = Some (t, None) \<and> srv_config t = default_config"
    by (simp add: start_def new_server_def v and_then_def remove_stale_socket_def sys_stat_def sys_connect_def sys_unlink_def
        start_socket_def sys_bind_def sys_chmod_def sys_listen_def start_fds_def register_fd_def epoll_set_def Let_def
        example_start_def example_kernel_def sp sizeof_sun_path_def upd_kernel_def start_pool_def
        ENOENT_def ECONNREFUSED_def)
  then show e: "start (\<lambda>_. ''error'') example_start ?s = Some (example_server, None)" "srv_config example_server = default_config"
    by (simp_all add: example_server_def)
  have "install_signal_handling (\<lambda>_. ''error'') example_start (new_server default_config example_kernel) = (?s, None)"
    by (simp add: install_signal_handling_def example_start_def Let_def)
  then show "server_main (\<lambda>_. ''error'') example_start example_kernel ''cache_server'' []
     = Some (Serving 1 (print_startup_banner default_config) example_server)"
    using e by (simp add: server_main_def p set_level_def vb)
  show "honest example_start" by (simp add: honest_def example_start_def)
qed

theorem server_main_ready_witness: "srv_running example_server \<and> sys_inv (initial_system example_server)"
  using server_main_ready [OF example_starts(3,4)] example_starts(2) by (simp add: default_config_def)

theorem start_respects_files_witness:
  "k_files (srv_kernel example_server) ''/tmp/local_cache.sock'' = Some (Socket_file True owner_only)"
  using start_respects_files [OF example_starts(1,4)]
  by (simp add: new_server_def example_kernel_def default_config_def)

end
