(* ===== verification/ServerExamples.thy ===== *)
theory ServerExamples
  imports ServerStart
begin

text \<open>
  A run of a started server, evaluated step by step: a client connects and sends the header of a value that
  is too large; the server answers, but the socket takes nothing yet. The state it ends in, with output
  pending on an open connection, is the example of the theorems over all runs.
\<close>

lemma example_server_fields:
  "listen_fd example_server = 3" "completion_fd example_server = 6" "shutdown_fd example_server = 5"
  "signal_fd example_server = 7" "epoll_fd example_server = 4" "srv_heap example_server = []" "connections example_server = []"
  "srv_draining example_server = False" "next_connection_id example_server = 1" "ready_connections example_server = []"
  "srv_pool example_server = Some (pool_start (new_pool 4 65536))" "k_completion (srv_kernel example_server) = 0"
proof -
  have v: "validate default_config = None" by code_simp
  have c: "socket_path default_config = ''/tmp/local_cache.sock''" "worker_threads default_config = 4"
    "max_pending_requests default_config = 65536" by (simp_all add: default_config_def)
  note e = start_def new_server_def v and_then_def remove_stale_socket_def sys_stat_def sys_connect_def sys_unlink_def
    start_socket_def sys_bind_def sys_chmod_def sys_listen_def start_fds_def register_fd_def epoll_set_def Let_def
    example_start_def example_kernel_def c sizeof_sun_path_def upd_kernel_def start_pool_def ENOENT_def ECONNREFUSED_def
  show "listen_fd example_server = 3" "completion_fd example_server = 6" "shutdown_fd example_server = 5"
    "signal_fd example_server = 7" "epoll_fd example_server = 4" "srv_heap example_server = []" "connections example_server = []"
    "srv_draining example_server = False" "next_connection_id example_server = 1" "ready_connections example_server = []"
    "srv_pool example_server = Some (pool_start (new_pool 4 65536))" "k_completion (srv_kernel example_server) = 0"
    unfolding example_server_def by (simp_all add: e)
qed

section \<open>A client connects\<close>

definition bad_header :: header where
  "bad_header = default_header\<lparr>hdr_opcode := opcode_to_u8 Opcode_kPut, hdr_key_len := 1, hdr_value_len := 0xFFFFFFFF\<rparr>"

definition bad_frame :: bytes where "bad_frame = encode_header [] bad_header"

definition listening :: server where
  "listening = upd_kernel (\<lambda>k. k\<lparr>k_accept := [Accepted 8, Accept_failed EAGAIN], k_ctl := [True, True],
     k_recv := [Received bad_frame], k_send := [Send_failed EAGAIN]\<rparr>) example_server"

definition accepted :: server where "accepted = the (dispatch (3, EPOLLIN) listening)"

definition accepted_conn :: connection where
  "accepted_conn = set_registered_events (or EPOLLIN kBaseConnectionEvents) (new_connection 8 1 (connection_limits_of default_config))"

lemma accepted_fields:
  "dispatch (3, EPOLLIN) listening = Some accepted" "srv_heap accepted = [accepted_conn]" "connections accepted = [(8, 0)]"
  "k_recv (srv_kernel accepted) = [Received bad_frame]" "k_ctl (srv_kernel accepted) = [True]"
  "k_send (srv_kernel accepted) = [Send_failed EAGAIN]" "listen_fd accepted = 3" "completion_fd accepted = 6"
  "shutdown_fd accepted = 5" "signal_fd accepted = 7" "srv_draining accepted = False" "k_accept (srv_kernel accepted) = []"
  "k_completion (srv_kernel accepted) = 0"
  unfolding accepted_def listening_def accepted_conn_def
  by (simp_all add: dispatch_def handle_listen_ready_def accept_client_def example_server_fields example_starts(2) epoll_set_def
      Let_def emplace_def upd_kernel_def upd_stats_def sz_def default_config_def)

section \<open>It sends a header that is refused\<close>

lemma opcode_2 [simp]: "opcode_of_u8 2 = Some Opcode_kPut"
  by (simp add: opcode_of_u8_def)

lemma length_bad_frame [simp]: "length bad_frame = 24"
  by (simp add: bad_frame_def kHeaderSize_def)

lemma bad_frame_refused:
  "deserialize_request bad_frame (protocol_limits (connection_limits_of default_config)) out
    = (pr_malformed ParseError_kValueTooLarge, out)"
proof -
  have "header_acceptable bad_header"
    by (simp add: bad_header_def header_acceptable_def default_header_def is_valid_opcode_def)
  then have d: "decode_common_header bad_frame h0 = (ParseError_kNone, bad_header)" for h0
    using decode_encode_header [of bad_header "[]"] by (simp add: bad_frame_def)
  have "request_header_error (protocol_limits (connection_limits_of default_config)) bad_header = ParseError_kValueTooLarge"
    by (simp add: request_header_error_def bad_header_def default_header_def connection_limits_of_def default_config_def
        effective_limit_def kMaxKeyBytes_def kMaxValueBytes_def)
  with d show ?thesis by (simp add: deserialize_request_eq kHeaderSize_def)
qed

lemma bad_frame_identified:
  assumes "in_buf c = bad_frame" "in_pos c = 0"
  shows "peek_request_header c = Some (0, Opcode_kPut)"
  using assms
  by (simp add: peek_request_header_def bad_frame_def bad_header_def encode_header_eq default_header_def kHeaderSize_def
      Let_def read_u8_def is_valid_opcode_def)

definition refusal :: bytes where
  "refusal = serialize_response \<lparr>resp_opcode = Opcode_kPut, resp_status = Status_kValueTooLarge, resp_request_id = 0, resp_value = []\<rparr>"

lemma length_refusal [simp]: "length refusal = 24"
  by (simp add: refusal_def kHeaderSize_def)

definition refused_conn :: connection where
  "refused_conn = accepted_conn\<lparr>in_buf := bad_frame, staged := refusal, pending_output_bytes := 24, close_after_flush := True\<rparr>"

lemma accepted_conn_fields [simp]:
  "conn_fd accepted_conn = 8" "conn_closed accepted_conn = False" "in_buf accepted_conn = []" "in_pos accepted_conn = 0"
  "write_buf accepted_conn = []" "write_pos accepted_conn = 0" "staged accepted_conn = []" "pending_output_bytes accepted_conn = 0"
  "inflight accepted_conn = 0" "close_after_flush accepted_conn = False" "conn_limits accepted_conn = connection_limits_of default_config"
  "registered_events accepted_conn = or EPOLLIN kBaseConnectionEvents"
  by (simp_all add: accepted_conn_def new_connection_def set_registered_events_def)

lemma default_limits_fields [simp]:
  "max_output_bytes (connection_limits_of default_config) = 8388608" "max_inflight (connection_limits_of default_config) = 512"
  by (simp_all add: connection_limits_of_def default_config_def)

lemma refusal_read:
  assumes "srv_heap s = [accepted_conn]" "k_recv (srv_kernel s) = [Received bad_frame]"
  shows "read_conn 0 s = Some (upd_kernel (\<lambda>k. k\<lparr>k_recv := []\<rparr>) (put_conn 0 (accepted_conn\<lparr>in_buf := bad_frame\<rparr>) s), IoResult_kOk)"
proof -
  have "bad_frame \<noteq> []" using length_bad_frame by (metis list.size(3) zero_neq_numeral)
  then show ?thesis using assms by (simp add: read_conn_def read_some_def kReadChunkBytes_def Let_def)
qed

lemma refusal_processed:
  assumes "srv_heap s = [accepted_conn\<lparr>in_buf := bad_frame\<rparr>]"
  shows "process_input 0 s = Some (put_conn 0 refused_conn (upd_stats record_protocol_error s), True)"
proof -
  have n: "next_request (accepted_conn\<lparr>in_buf := bad_frame\<rparr>) default_request
      = (accepted_conn\<lparr>in_buf := bad_frame\<rparr>, pr_malformed ParseError_kValueTooLarge, default_request)"
    by (simp add: next_request_def bad_frame_refused pr_malformed_def Let_def)
  have put: "put_conn 0 (accepted_conn\<lparr>in_buf := bad_frame\<rparr>) s = s" using assms by (simp add: put_conn_def)
  have e: "enqueue_response refusal False (accepted_conn\<lparr>in_buf := bad_frame\<rparr>)
      = (accepted_conn\<lparr>in_buf := bad_frame, staged := refusal, pending_output_bytes := 24\<rparr>, True)"
    by (simp add: enqueue_response_def Let_def sz_def)
  have "reject_malformed 0 ParseError_kValueTooLarge s = put_conn 0 refused_conn (upd_stats record_protocol_error s)"
    using assms bad_frame_identified [of "accepted_conn\<lparr>in_buf := bad_frame\<rparr>"]
    by (simp add: reject_malformed_def send_immediate_def malformed_status_def refusal_def [symmetric] e Let_def
        put_conn_def refused_conn_def mark_close_after_flush_def)
  then show ?thesis
    by (subst process_input.simps) (simp add: assms inflight_limit_reached_def n put pr_malformed_def)
qed

definition blocked_conn :: connection where
  "blocked_conn = refused_conn\<lparr>write_buf := refusal, staged := []\<rparr>"

lemma refusal_blocked:
  "flush_output (Send_failed EAGAIN # answers) refused_conn = Some (blocked_conn, [], IoResult_kWouldBlock, answers)"
proof -
  have "refusal \<noteq> []" using length_refusal by (metis list.size(3) zero_neq_numeral)
  then show ?thesis
    by (subst flush_output.simps) (simp add: refill_write_buf_def refused_conn_def blocked_conn_def Let_def)
qed

definition pending_server :: server where "pending_server = the (dispatch (8, EPOLLIN) accepted)"

lemma pending_server_fields:
  "dispatch (8, EPOLLIN) accepted = Some pending_server" "has_pending_output (conn pending_server 0)"
  "\<not> conn_closed (conn pending_server 0)" "length (srv_heap pending_server) = 1"
  "k_completion (srv_kernel pending_server) = 0"
proof -
  let ?t = "upd_kernel (\<lambda>k. k\<lparr>k_recv := []\<rparr>) (put_conn 0 (accepted_conn\<lparr>in_buf := bad_frame\<rparr>) accepted)"
  note r = refusal_read [of accepted, OF accepted_fields(2,4)]
  have p: "process_input 0 ?t = Some (put_conn 0 refused_conn (upd_stats record_protocol_error ?t), True)"
    by (rule refusal_processed) (simp add: put_conn_def accepted_fields)
  note ev = EPOLLIN_def EPOLLOUT_def EPOLLERR_def EPOLLHUP_def EPOLLRDHUP_def kBaseConnectionEvents_def has_event_def
  have "\<exists>s. dispatch (8, EPOLLIN) accepted = Some s \<and> has_pending_output (conn s 0) \<and> \<not> conn_closed (conn s 0)
      \<and> length (srv_heap s) = 1 \<and> k_completion (srv_kernel s) = 0"
    using r p
    by (simp add: dispatch_def accepted_fields handle_connection_event_def handle_writable_def handle_readable_def ev
        flush_and_settle_def flush_conn_def put_conn_def refusal_blocked settle_def update_interest_def wanted_events_def
        epoll_set_def Let_def) (simp add: blocked_conn_def refused_conn_def has_pending_output_def set_registered_events_def ev accepted_fields)
  then show "dispatch (8, EPOLLIN) accepted = Some pending_server" "has_pending_output (conn pending_server 0)"
    "\<not> conn_closed (conn pending_server 0)" "length (srv_heap pending_server) = 1" "k_completion (srv_kernel pending_server) = 0"
    by (auto simp: pending_server_def)
qed

definition pending_system :: system where
  "pending_system = \<lparr>sys_server = pending_server, sys_pcs = replicate 4 At_pool, sys_loop = Loop_idle\<rparr>"

lemma pending_system_reached: "sys_reach (initial_system example_server) [] pending_system"
proof -
  let ?x = "\<lambda>s. \<lparr>sys_server = s, sys_pcs = replicate 4 At_pool, sys_loop = Loop_idle\<rparr>"
  have 0: "initial_system example_server = ?x example_server" by (simp add: initial_system_def example_server_fields)
  have "sys_step (?x example_server) None (?x listening)"
    unfolding listening_def by (rule sys_step.environment) (simp add: kernel_env_def)
  moreover have "sys_step (?x listening) None (?x accepted)"
    by (rule sys_step.event [OF _ _ accepted_fields(1)]) (simp_all add: listening_def example_server_fields fresh_fds_def)
  moreover have "sys_step (?x accepted) None (?x pending_server)"
    by (rule sys_step.event [OF _ _ pending_server_fields(1)]) (simp_all add: accepted_fields fresh_fds_def)
  ultimately have "sys_reach (?x example_server) ([] @ performed None @ performed None @ performed None) (?x pending_server)"
    by (metis append.assoc sys_reach.intros)
  then show ?thesis by (simp add: 0 pending_system_def)
qed

end
