(* ===== verification/ServerProperties.thy ===== *)
theory ServerProperties
  imports ServerExamples
begin

text \<open>
  The server as a whole, over every run of its threads from the state in which \<^verbatim>\<open>main\<close> enters the event
  loop: the cache behaves as if requests were executed one after another, no wakeup is lost, the in-flight
  counters and the connection table are exact.
\<close>

section \<open>Runs of a started server\<close>

text \<open>A state reached from the start of the event loop, with the requests executed on the way.\<close>

definition served :: "server_config \<Rightarrow> (request \<times> response) list \<Rightarrow> system \<Rightarrow> bool" where
  "served config log x \<longleftrightarrow>
     (\<exists>strerror a k program argv g_level out s. server_main strerror a k program argv = Some (Serving g_level out s) \<and> honest a \<and> srv_config s = config
        \<and> unat (max_cache_bytes config) < 2 ^ 63 \<and> sys_reach (initial_system s) log x)"

lemma serving_start:
  assumes "server_main strerror a k program argv = Some (Serving g_level out s)" "honest a"
  obtains t where "pristine (srv_config s) t" "s = start_pool t" "k_completion (srv_kernel t) = 0" "validate (srv_config s) = None"
proof -
  from assms(1) obtain config u where u: "install_signal_handling strerror a (new_server config k) = (u, None)"
    and s: "start strerror a u = Some (s, None)"
    by (auto simp: server_main_def Let_def split: if_splits option.splits prod.splits)
  have p: "pristine config u"
    using u by (auto simp: install_signal_handling_def new_server_def pristine_def Let_def split: if_splits)
  from start_done [OF s p assms(2)] obtain t where t: "validate config = None" "pristine config t" "s = start_pool t"
    "k_completion (srv_kernel t) = 0" by blast
  then have "srv_config s = config" by (simp add: start_pool_def pristine_def)
  with t that show thesis by blast
qed

lemma served_cases:
  assumes "served config log x"
  obtains s where "sys_reach (initial_system s) log x" "sys_inv (initial_system s)" "srv_config s = config"
    "srv_cache s = new_lru_cache (config_cache_limits config)" "validate config = None"
proof -
  from assms obtain strerror a k program argv g_level out s where m: "server_main strerror a k program argv = Some (Serving g_level out s)" "honest a"
    "srv_config s = config" "unat (max_cache_bytes config) < 2 ^ 63" "sys_reach (initial_system s) log x"
    by (auto simp: served_def)
  from serving_start [OF m(1,2)] obtain t where t: "pristine config t" "s = start_pool t" "k_completion (srv_kernel t) = 0"
    "validate config = None" using m(3) by metis
  show thesis
  proof (rule that [OF m(5) _ m(3) _ t(4)])
    show "sys_inv (initial_system s)" using initial_system_inv [OF t(1,3) m(4)] t(2) by simp
    show "srv_cache s = new_lru_cache (config_cache_limits config)" using t(1,2) by (simp add: start_pool_def pristine_def)
  qed
qed

lemma served_inv: "served config log x \<Longrightarrow> sys_inv x"
  by (erule served_cases) (rule sys_reach_inv)

lemma served_example:
  assumes "sys_reach (initial_system example_server) log x"
  shows "served default_config log x"
  unfolding served_def using example_starts(2-4) assms
  by (intro exI conjI) (assumption | simp add: default_config_def)+

lemma pending_system_served: "served default_config [] pending_system"
  by (rule served_example) (rule pending_system_reached)

section \<open>The cache\<close>

lemma execute_step_cache:
  assumes "cache_ok s" "request_fits r" "execute_request r s = Some (s', resp)"
  shows "sequential (config_cache_limits (srv_config s)) (lru_abs (srv_cache s)) [(r, resp)] = Some (lru_abs (srv_cache s'))
    \<and> srv_config s' = srv_config s"
  using execute_request_sequential [of s r] assms by (auto simp: cache_ok_def simp del: sequential.simps)

lemma drain_flush_touch:
  assumes "srv_inv extra s" "p < length (srv_heap s)" "drain_flush p s = Some s'"
  shows "touch p s s'"
  using assms flush_and_settle_ok(1) [of extra s p s'] by (auto simp: drain_flush_def handled_def split: if_splits)

lemma sys_step_cache:
  assumes "sys_step x e y" "sys_inv x"
  shows "srv_config (sys_server y) = srv_config (sys_server x)
    \<and> sequential (config_cache_limits (srv_config (sys_server x))) (lru_abs (srv_cache (sys_server x))) (performed e)
      = Some (lru_abs (srv_cache (sys_server y)))"
  using assms(1)
proof (cases rule: sys_step.cases)
  case (execute i pcs s job s' response l)
  note i = assms(2) [unfolded execute(1) sys_inv_simps]
  have "job_ok s job" using i execute(6,7) by (blast intro: worker_job_ok)
  then have "request_fits (job_request job)" by (auto simp: job_ok_def intro: request_ok_fits)
  with execute_step_cache [OF _ _ execute(8)] i execute(1-3) show ?thesis by simp
next
  case (stage i pcs frame s job l)
  note i = assms(2) [unfolded stage(1) sys_inv_simps]
  have "job_ok s job" using i stage(6,7) by (blast intro: worker_job_ok)
  with stage show ?thesis by (simp add: complete_stage_def split: prod.split)
next
  case (event ev s s' pcs)
  from dispatch_ok [OF _ event(5,4,6)] assms(2) event(1) show ?thesis using event(2,3) by (auto simp: sys_inv_simps calm_def)
next
  case (flush p s s' pcs ps)
  note i = assms(2) [unfolded flush(1) sys_inv_simps]
  have "p < length (srv_heap s)"
    by (rule announced_bound [OF conjunct1 [OF conjunct2 [OF i]]]) (simp add: announced_def)
  with drain_flush_touch [OF _ _ flush(4)] i flush(1-3) show ?thesis by (auto simp: touch_def)
next
  case (exit_run s s' pcs js)
  from run_finish_frame [OF _ exit_run(4)] assms(2) exit_run(1-3) show ?thesis by auto
qed (auto simp: set_pool_def complete_mark_def complete_push_def complete_wake_def drain_read_def drain_swap_def drain_clear_def
    split: prod.splits)

lemma sys_reach_cache:
  "sys_reach x log y \<Longrightarrow> sys_inv x \<Longrightarrow> srv_config (sys_server y) = srv_config (sys_server x)
    \<and> sequential (config_cache_limits (srv_config (sys_server x))) (lru_abs (srv_cache (sys_server x))) log
      = Some (lru_abs (srv_cache (sys_server y)))"
proof (induction rule: sys_reach.induct)
  case (reach_step x log y e z)
  from sys_step_cache [OF reach_step.hyps(2) sys_reach_inv [OF reach_step.hyps(1) reach_step.prems]] reach_step show ?case
    by (simp add: sequential_append)
qed simp

lemma served_sequential:
  assumes "served config log x"
  shows "sequential (config_cache_limits config) [] log = Some (lru_abs (srv_cache (sys_server x)))"
  using assms
proof (rule served_cases)
  fix s
  assume r: "sys_reach (initial_system s) log x" "sys_inv (initial_system s)" and s: "srv_config s = config"
    "srv_cache s = new_lru_cache (config_cache_limits config)"
  have "lru_abs (new_lru_cache lim) = []" for lim by (simp add: lru_abs_def new_lru_cache_def)
  with sys_reach_cache [OF r] s show ?thesis by (simp add: initial_system_def)
qed



text \<open>
  C4. The in-flight counter of every connection is exact in every interleaving: it is the number of its
  requests that are queued in the pool, held by a worker that has not staged the response yet, or discarded
  by the shutdown of the pool, never below zero and never above the configured limit.
\<close>

theorem inflight_exact:
  assumes "served config log x" "p < length (srv_heap (sys_server x))"
  shows "unat (inflight (conn (sys_server x) p))
      = queued p (sys_server x) + running_at (threads_of (sys_server x)) (sys_pcs x) p
        + length (filter (\<lambda>j. job_connection j = p) (lost_jobs (sys_loop x)))
    \<and> unat (inflight (conn (sys_server x) p)) \<le> unat (max_inflight_per_conn (srv_config (sys_server x)))"
  using served_inv [OF assms(1)] assms(2) by (simp add: sys_inv_def srv_inv_def inflight_inv_def outstanding_def)

theorem inflight_exact_witness:
  "unat (inflight (conn pending_server 0)) \<le> unat (max_inflight_per_conn (srv_config pending_server))"
  using inflight_exact [OF pending_system_served, of 0] by (simp add: pending_system_def pending_server_fields)

text \<open>
  C5. The connection table is well-formed in every interleaving: it lists exactly the open connections, each
  under its own descriptor, the counter of active connections is its size, every connection has the limits of
  the configuration, and the output each connection owes is what its counter says.
\<close>

theorem connection_table_exact:
  assumes "served config log x"
  shows "distinct (map fst (connections (sys_server x)))
    \<and> (\<forall>fd p. (fd, p) \<in> set (connections (sys_server x)) \<longleftrightarrow> p < length (srv_heap (sys_server x))
         \<and> conn_fd (conn (sys_server x) p) = fd \<and> \<not> conn_closed (conn (sys_server x) p))
    \<and> st_active_connections (srv_stats (sys_server x)) = sz (connections (sys_server x))
    \<and> (\<forall>p < length (srv_heap (sys_server x)).
         conn_limits (conn (sys_server x) p) = connection_limits_of (srv_config (sys_server x))
       \<and> pending_output_bytes (conn (sys_server x) p) = sz (unsent (conn (sys_server x) p)))"
  using served_inv [OF assms]
  by (simp add: sys_inv_def srv_inv_def table_inv_def heap_inv_def conn_inv_def sz_def)

theorem connection_table_exact_witness: "st_active_connections (srv_stats pending_server) = sz (connections pending_server)"
  using connection_table_exact [OF pending_system_served] by (simp add: pending_system_def)

end
