(* ===== verification/ServerShutdown.thy ===== *)
theory ServerShutdown
  imports ServerProperties
begin

text \<open>
  The end of a server. The phases of the teardown that \<^verbatim>\<open>run\<close> goes through after its loop are an invariant of
  every interleaving with the workers; when \<^verbatim>\<open>run\<close> returns nothing is left: no connection is open, no worker
  lives, no job is queued and the socket is gone, and the destructor finds nothing to do. A drain that is complete
  has delivered every response.
\<close>

section \<open>The destructor\<close>

text \<open>
  The destructor after \<^verbatim>\<open>run\<close>, when \<open>drain_and_stop\<close> has nothing to wait for; \<open>None\<close> is a pool that it would
  still have to join.
\<close>

definition destroy_started :: "server \<Rightarrow> server option" where
  "destroy_started s =
     (case srv_pool s of
        None \<Rightarrow> Some (stop_listening s)
      | Some pool \<Rightarrow>
          let pool = drain_begin 0 pool
          in if stopper_at pool = Stop_returned then Some (stop_listening (set_pool pool s)) else None)"

section \<open>Phases\<close>

definition unlistened :: "server \<Rightarrow> bool" where
  "unlistened s \<longleftrightarrow> listen_fd s < 0 \<and> bound_socket_path s = []"

text \<open>Where the pool and the listening socket are in each phase of the loop.\<close>

fun phase_ok :: "loop_pc \<Rightarrow> worker_pc list \<Rightarrow> server \<Rightarrow> bool" where
  "phase_ok Loop_unlistened pcs s \<longleftrightarrow> unlistened s \<and> stopper_of s = Some Stop_none \<and> threads_of s \<noteq> []"
| "phase_ok (Loop_stopping js) pcs s \<longleftrightarrow> unlistened s \<and> threads_of s \<noteq> []
     \<and> (stopper_of s = Some Stop_joining \<or> stopper_of s = Some Stop_waiting \<and> shutdown_drain_ms (srv_config s) > 0 \<and> js = [])
     \<and> (js \<noteq> [] \<longrightarrow> shutdown_drain_ms (srv_config s) > 0)"
| "phase_ok (Loop_stopped js) pcs s \<longleftrightarrow> unlistened s \<and> pcs = [] \<and> stopper_of s = Some Stop_returned \<and> (\<exists>pool. srv_pool s = Some pool \<and> queue pool = [] \<and> threads pool = [])
     \<and> (js \<noteq> [] \<longrightarrow> shutdown_drain_ms (srv_config s) > 0)"
| "phase_ok (Loop_exited js) pcs s \<longleftrightarrow> unlistened s \<and> pcs = [] \<and> stopper_of s = Some Stop_returned \<and> (\<exists>pool. srv_pool s = Some pool \<and> queue pool = [] \<and> threads pool = [])
     \<and> (js \<noteq> [] \<longrightarrow> shutdown_drain_ms (srv_config s) > 0) \<and> connections s = []"
| "phase_ok l pcs s \<longleftrightarrow> stopper_of s = Some Stop_none \<and> threads_of s \<noteq> []"

definition stage_ok :: "system \<Rightarrow> bool" where
  "stage_ok x \<longleftrightarrow> phase_ok (sys_loop x) (sys_pcs x) (sys_server x)"

text \<open>A step of a worker: the pool keeps its shape, the rest of the server its descriptors.\<close>

lemma phase_ok_worker:
  assumes "phase_ok l pcs s" "pcs \<noteq> []" "unlistened t = unlistened s" "stopper_of t = stopper_of s" "length (threads_of t) = length (threads_of s)"
    and "srv_config t = srv_config s"
  shows "phase_ok l pcs' t"
proof -
  have "threads_of t \<noteq> [] \<longleftrightarrow> threads_of s \<noteq> []" using assms(5) by (metis length_0_conv)
  with assms show ?thesis by (cases l) auto
qed

lemma worker_take_shape: "worker_take i pool = Some pool' \<Longrightarrow> stopper_at pool' = stopper_at pool \<and> length (threads pool') = length (threads pool)"
  by (erule worker_take_cases) auto

lemma worker_finish_shape: "worker_finish i pool = Some pool' \<Longrightarrow> stopper_at pool' = stopper_at pool \<and> length (threads pool') = length (threads pool)"
  by (erule worker_finish_cases) auto

lemma execute_request_descriptors:
  assumes "execute_request r s = Some (s', resp)" "cache_ok s" "request_fits r"
  shows "unlistened s' = unlistened s" "srv_pool s' = srv_pool s" "srv_config s' = srv_config s"
  using execute_request_sequential [of s r] assms by (auto simp: cache_ok_def unlistened_def)

lemma flush_and_settle_pool: "flush_and_settle p s = Some s' \<Longrightarrow> srv_pool s' = srv_pool s"
  by (auto simp: flush_and_settle_def flush_conn_def settle_def update_interest_def epoll_set_def close_connection_def Let_def
      split: option.splits prod.splits if_splits list.splits)

lemma drain_ready_pool: "drain_ready ps s = Some s' \<Longrightarrow> srv_pool s' = srv_pool s"
proof (induction ps arbitrary: s)
  case (Cons p ps)
  from Cons.prems obtain t where t: "drain_flush p (drain_clear p s) = Some t" "drain_ready ps t = Some s'"
    by (cases "drain_flush p (drain_clear p s)") simp_all
  have "srv_pool t = srv_pool s"
    using t(1) flush_and_settle_pool [of p "drain_clear p s" t] by (auto simp: drain_flush_def drain_clear_def split: if_splits)
  with Cons.IH [OF t(2)] show ?case by simp
qed simp

lemma run_finish_pool: "run_finish s = Some s' \<Longrightarrow> srv_pool s' = srv_pool s"
  by (auto simp: run_finish_def drain_completions_def drain_swap_def close_all_fields drain_read_def dest!: drain_ready_pool
      split: option.splits)

lemma stop_listening_unlistened: "unlistened (stop_listening s)"
  by (simp add: unlistened_def stop_listening_def Let_def)

lemma complete_descriptors:
  "unlistened (complete_stage p f s) = unlistened s" "srv_pool (complete_stage p f s) = srv_pool s" "srv_config (complete_stage p f s) = srv_config s"
  "unlistened (fst (complete_mark p s)) = unlistened s" "srv_pool (fst (complete_mark p s)) = srv_pool s" "srv_config (fst (complete_mark p s)) = srv_config s"
  "unlistened (complete_push p s) = unlistened s" "srv_pool (complete_push p s) = srv_pool s" "srv_config (complete_push p s) = srv_config s"
  "unlistened (complete_wake s) = unlistened s" "srv_pool (complete_wake s) = srv_pool s" "srv_config (complete_wake s) = srv_config s"
  by (simp_all add: unlistened_def complete_stage_def complete_mark_def complete_push_def complete_wake_def split: prod.split)

lemma joined_pool:
  assumes "pool_inv pool" "drain_join pool = Some pool'" "threads pool \<noteq> []"
  shows "queue pool' = []" "threads pool' = []"
proof -
  have j: "list_all (\<lambda>w. w = Exited) (threads pool)" "pool' = pool\<lparr>threads := [], stopper_at := Stop_returned\<rparr>"
    using assms(2) by (auto simp: drain_join_def split: if_splits)
  then have "Exited \<in> set (threads pool)" using assms(3) by (cases "threads pool") auto
  with assms(1) j show "queue pool' = []" "threads pool' = []" by (auto simp: pool_inv_def)
qed

lemma stage_ok_worker_step:
  assumes "sys_step x e y" "sys_inv x" "stage_ok x" "sys_loop y = sys_loop x" "sys_pcs x \<noteq> []"
    and "unlistened (sys_server y) = unlistened (sys_server x)" "stopper_of (sys_server y) = stopper_of (sys_server x)"
    and "length (threads_of (sys_server y)) = length (threads_of (sys_server x))" "srv_config (sys_server y) = srv_config (sys_server x)"
  shows "stage_ok y"
  using phase_ok_worker [of "sys_loop x" "sys_pcs x" "sys_server x" "sys_server y" "sys_pcs y"] assms by (simp add: stage_ok_def)

lemma sys_step_stage:
  assumes "sys_step x e y" "sys_inv x" "stage_ok x"
  shows "stage_ok y"
  using assms(1)
proof (cases rule: sys_step.cases)
  case (take_job s pool i pcs pool' l)
  with worker_take_shape [OF take_job(7)] show ?thesis
    by (intro stage_ok_worker_step [OF assms]) (auto simp: set_pool_def unlistened_def)
next
  case (execute i pcs s job s' response l)
  note i = assms(2) [unfolded execute(1) sys_inv_simps]
  have "job_ok s job" using i execute(6,7) by (blast intro: worker_job_ok)
  then have "request_fits (job_request job)" by (auto simp: job_ok_def intro: request_ok_fits)
  with execute_request_descriptors [OF execute(8)] i execute show ?thesis by (intro stage_ok_worker_step [OF assms]) auto
next
  case (stage i pcs frame s job l)
  then show ?thesis by (intro stage_ok_worker_step [OF assms]) (auto simp: complete_descriptors)
next
  case (mark i pcs p s s' first l)
  from mark(6) have "unlistened s' = unlistened s" "srv_pool s' = srv_pool s" "srv_config s' = srv_config s"
    using complete_descriptors(4-6) [of p s] by simp_all
  with mark(1-4) show ?thesis by (intro stage_ok_worker_step [OF assms]) auto
next
  case (push i pcs p s l)
  then show ?thesis by (intro stage_ok_worker_step [OF assms]) (auto simp: complete_descriptors)
next
  case (wake i pcs s l)
  then show ?thesis by (intro stage_ok_worker_step [OF assms]) (auto simp: complete_descriptors)
next
  case (finish s pool i pcs pool' l)
  with worker_finish_shape [OF finish(7)] show ?thesis
    by (intro stage_ok_worker_step [OF assms]) (auto simp: set_pool_def unlistened_def)
next
  case (environment s g pcs l)
  with assms(3) show ?thesis by (cases l) (simp_all add: stage_ok_def unlistened_def)
next
  case (event ev s s' pcs)
  from dispatch_ok [OF _ event(5,4,6)] assms(2) event(1) have "calm s s'" by (auto simp: sys_inv_simps)
  with assms(3) event show ?thesis by (simp add: stage_ok_def calm_def)
next
  case (flush p s s' pcs ps)
  note i = assms(2) [unfolded flush(1) sys_inv_simps]
  have "p < length (srv_heap s)" by (rule announced_bound [OF conjunct1 [OF conjunct2 [OF i]]]) (simp add: announced_def)
  with drain_flush_touch [OF _ _ flush(4)] i assms(3) flush(1-3) show ?thesis by (auto simp: stage_ok_def touch_def)
next
  case (unlisten s pcs)
  with assms(3) stop_listening_unlistened [of s] show ?thesis by (simp add: stage_ok_def)
next
  case (stop s pool pcs)
  then have "accepting pool" using assms(2) by (auto simp: sys_inv_simps srv_inv_def pool_ok_def pool_inv_def)
  with stop assms(3) show ?thesis by (auto simp: stage_ok_def set_pool_def unlistened_def drain_begin_def Let_def)
next
  case (discard s pool timed_out pool' pcs js)
  with assms(3) show ?thesis by (auto simp: stage_ok_def set_pool_def unlistened_def drain_wake_def split: if_splits)
next
  case (join s pool pool' pcs js)
  have "pool_inv pool" using assms(2) join(1,4) by (auto simp: sys_inv_simps srv_inv_def pool_ok_def)
  moreover have "stopper_at pool' = Stop_returned" using join(5) by (auto simp: drain_join_def split: if_splits)
  ultimately show ?thesis using joined_pool [OF _ join(5)] assms(3) join(1-4)
    by (auto simp: stage_ok_def set_pool_def unlistened_def)
next
  case (exit_run s s' pcs js)
  from run_finish_frame [OF _ exit_run(4)] run_finish_pool [OF exit_run(4)] assms(2,3) exit_run(1-3) show ?thesis
    by (auto simp: stage_ok_def unlistened_def)
qed (use assms(3) in \<open>auto simp: stage_ok_def drain_read_def drain_swap_def drain_clear_def\<close>)

lemma sys_reach_stage: "sys_reach x log y \<Longrightarrow> sys_inv x \<Longrightarrow> stage_ok x \<Longrightarrow> stage_ok y"
  by (induction rule: sys_reach.induct) (auto intro: sys_step_stage sys_reach_inv)

lemma initial_stage:
  assumes "server_main strerror a k program argv = Some (Serving g_level out s)" "honest a"
  shows "stage_ok (initial_system s)"
proof -
  from serving_start [OF assms] obtain t where t: "pristine (srv_config s) t" "s = start_pool t" "validate (srv_config s) = None" by metis
  have "worker_threads (srv_config s) \<noteq> 0" using t(3) by (auto simp: validate_iff config_ok_def)
  then show ?thesis
    using t(1) by (subst t(2)) (simp add: stage_ok_def initial_system_def start_pool_def pristine_def pool_start_def new_pool_def unat_eq_zero)
qed

lemma served_stage:
  assumes "served config log x"
  shows "stage_ok x"
proof -
  from assms obtain strerror a k program argv g_level out s where m: "server_main strerror a k program argv = Some (Serving g_level out s)" "honest a"
    "srv_config s = config" "unat (max_cache_bytes config) < 2 ^ 63" "sys_reach (initial_system s) log x" by (auto simp: served_def)
  from serving_start [OF m(1,2)] m(3) obtain t where "pristine config t" "s = start_pool t" "k_completion (srv_kernel t) = 0" by metis
  then have "sys_inv (initial_system s)" using initial_system_inv m(4) by blast
  from sys_reach_stage [OF m(5) this initial_stage [OF m(1,2)]] show ?thesis .
qed

section \<open>An example\<close>

definition leaving_pool :: "job worker list \<Rightarrow> job worker_pool" where
  "leaving_pool ws = \<lparr>thread_count = 4, max_pending = 65536, queue = [], accepting = False, stopping = True, threads = ws,
     completed = 0, stopper_at = Stop_joining\<rparr>"

definition leaving_system :: "job worker list \<Rightarrow> system" where
  "leaving_system ws = \<lparr>sys_server = set_pool (leaving_pool ws) (stop_listening example_server), sys_pcs = replicate 4 At_pool,
     sys_loop = Loop_stopping []\<rparr>"

definition joined_server :: server where
  "joined_server = set_pool ((leaving_pool [])\<lparr>stopper_at := Stop_returned\<rparr>) (stop_listening example_server)"

definition exited_system :: system where
  "exited_system = \<lparr>sys_server = the (run_finish joined_server), sys_pcs = [], sys_loop = Loop_exited []\<rparr>"

lemma worker_leaves:
  assumes "i < 4" "length ws = 4" "ws ! i = Waiting"
  shows "sys_step (leaving_system ws) None (leaving_system (ws[i := Exited]))"
proof -
  let ?s = "set_pool (leaving_pool ws) (stop_listening example_server)"
  have "worker_take i (leaving_pool ws) = Some (leaving_pool (ws[i := Exited]))" using assms by (simp add: worker_take_def leaving_pool_def)
  then have "sys_step \<lparr>sys_server = ?s, sys_pcs = replicate 4 At_pool, sys_loop = Loop_stopping []\<rparr> None
      \<lparr>sys_server = set_pool (leaving_pool (ws[i := Exited])) ?s, sys_pcs = replicate 4 At_pool, sys_loop = Loop_stopping []\<rparr>"
    using assms(1) by (intro sys_step.take_job) simp_all
  moreover have "set_pool (leaving_pool (ws[i := Exited])) ?s = set_pool (leaving_pool (ws[i := Exited])) (stop_listening example_server)"
    by (simp add: set_pool_def)
  ultimately show ?thesis by (simp add: leaving_system_def)
qed

lemma run_finish_joined: "\<exists>s. run_finish joined_server = Some s"
  by (simp add: run_finish_def drain_completions_def drain_swap_def drain_read_def joined_server_def example_server_fields)

lemma example_stops:
  "sys_reach (initial_system example_server) [] (leaving_system (replicate 4 Waiting))"
proof -
  let ?x = "\<lambda>s. \<lparr>sys_server = s, sys_pcs = replicate 4 At_pool, sys_loop = Loop_idle\<rparr>"
  have i: "initial_system example_server = ?x example_server" by (simp add: initial_system_def example_server_fields)
  have p: "drain_begin (shutdown_drain_ms (srv_config (stop_listening example_server))) (pool_start (new_pool 4 65536)) = leaving_pool (replicate 4 Waiting)"
    by (simp add: drain_begin_def pool_start_def new_pool_def leaving_pool_def)
  have "sys_step (?x example_server) None \<lparr>sys_server = example_server, sys_pcs = replicate 4 At_pool, sys_loop = Loop_leave\<rparr>"
    by (rule sys_step.give_up)
  moreover have "sys_step \<lparr>sys_server = example_server, sys_pcs = replicate 4 At_pool, sys_loop = Loop_leave\<rparr> None
      \<lparr>sys_server = stop_listening example_server, sys_pcs = replicate 4 At_pool, sys_loop = Loop_unlistened\<rparr>" by (rule sys_step.unlisten)
  moreover have "sys_step \<lparr>sys_server = stop_listening example_server, sys_pcs = replicate 4 At_pool, sys_loop = Loop_unlistened\<rparr> None
      (leaving_system (replicate 4 Waiting))"
    unfolding leaving_system_def p [symmetric] by (rule sys_step.stop) (simp_all add: example_server_fields pool_start_def new_pool_def)
  ultimately show ?thesis unfolding i by (metis append_Nil performed.simps(1) sys_reach.intros append.right_neutral)
qed

lemma reach_silent: "sys_reach x log y \<Longrightarrow> sys_step y None z \<Longrightarrow> sys_reach x log z"
  using sys_reach.reach_step by fastforce

lemma example_exits: "sys_reach (initial_system example_server) [] exited_system"
proof -
  let ?W = "Waiting :: job worker" and ?E = "Exited :: job worker"
  have r: "replicate 4 ?W = [?W, ?W, ?W, ?W]" by (simp add: eval_nat_numeral)
  note s = worker_leaves [of 0 "[?W, ?W, ?W, ?W]"] worker_leaves [of 1 "[?E, ?W, ?W, ?W]"] worker_leaves [of 2 "[?E, ?E, ?W, ?W]"]
    worker_leaves [of 3 "[?E, ?E, ?E, ?W]"]
  have "sys_reach (initial_system example_server) [] (leaving_system [?E, ?E, ?E, ?E])"
    using example_stops [unfolded r] s by (simp add: eval_nat_numeral) (blast intro: reach_silent)
  moreover have "sys_step (leaving_system [?E, ?E, ?E, ?E]) None \<lparr>sys_server = joined_server, sys_pcs = [], sys_loop = Loop_stopped []\<rparr>"
  proof -
    let ?s = "set_pool (leaving_pool [?E, ?E, ?E, ?E]) (stop_listening example_server)"
    have j: "drain_join (leaving_pool [?E, ?E, ?E, ?E]) = Some ((leaving_pool [])\<lparr>stopper_at := Stop_returned\<rparr>)"
      by (simp add: drain_join_def leaving_pool_def)
    have e: "joined_server = set_pool ((leaving_pool [])\<lparr>stopper_at := Stop_returned\<rparr>) ?s" by (simp add: joined_server_def set_pool_def)
    show ?thesis unfolding leaving_system_def e by (rule sys_step.join [OF _ j]) simp
  qed
  moreover have "sys_step \<lparr>sys_server = joined_server, sys_pcs = [], sys_loop = Loop_stopped []\<rparr> None exited_system"
    unfolding exited_system_def by (rule sys_step.exit_run) (use run_finish_joined in auto)
  ultimately show ?thesis by (blast intro: reach_silent)
qed

section \<open>Properties\<close>

lemma destroy_returned:
  assumes "unlistened s" "stopper_of s = Some Stop_returned" "\<And>pool. srv_pool s = Some pool \<Longrightarrow> pool_inv pool"
  shows "destroy_started s = Some s"
proof -
  obtain pool where pool: "srv_pool s = Some pool" "stopper_at pool = Stop_returned" using assms(2) by auto
  with assms(3) have "\<not> accepting pool" "stopping pool" by (auto simp: pool_inv_def)
  then have "drain_begin 0 pool = pool" using pool(2) by (simp add: drain_begin_def)
  moreover have "set_pool pool s = s" "stop_listening s = s"
    using pool(1) assms(1) by (simp_all add: set_pool_def stop_listening_def unlistened_def)
  ultimately show ?thesis by (simp add: destroy_started_def pool)
qed

text \<open>
  C8. When \<^verbatim>\<open>run\<close> returns, in every interleaving with the workers, nothing is left behind: the listening socket is
  closed and its path forgotten, every connection is closed and none is counted as active, all workers have
  been joined and the queue is empty, so that the destructor returns at once and changes nothing. The in-flight counter of each connection is the number of its requests
  that the shutdown discarded, and it discards requests only under a positive drain timeout.
\<close>

theorem shutdown_leaves_nothing:
  assumes "served config log x" "sys_loop x = Loop_exited js"
  shows "listen_fd (sys_server x) < 0 \<and> bound_socket_path (sys_server x) = []
    \<and> connections (sys_server x) = [] \<and> st_active_connections (srv_stats (sys_server x)) = 0
    \<and> (\<forall>p < length (srv_heap (sys_server x)). conn_closed (conn (sys_server x) p)
         \<and> unat (inflight (conn (sys_server x) p)) = length (filter (\<lambda>j. job_connection j = p) js))
    \<and> (\<exists>pool. srv_pool (sys_server x) = Some pool \<and> threads pool = [] \<and> queue pool = [])
    \<and> destroy_started (sys_server x) = Some (sys_server x)
    \<and> (js \<noteq> [] \<longrightarrow> shutdown_drain_ms (srv_config (sys_server x)) > 0)"
proof -
  from served_stage [OF assms(1)] assms(2) have st: "unlistened (sys_server x)" "sys_pcs x = []" "connections (sys_server x) = []"
    "\<exists>pool. srv_pool (sys_server x) = Some pool \<and> queue pool = [] \<and> threads pool = []"
    "js \<noteq> [] \<longrightarrow> shutdown_drain_ms (srv_config (sys_server x)) > 0" "stopper_of (sys_server x) = Some Stop_returned"
    by (simp_all add: stage_ok_def)
  have i: "srv_inv (outstanding (threads_of (sys_server x)) (sys_pcs x) (sys_loop x)) (sys_server x)"
    using served_inv [OF assms(1)] by (simp add: sys_inv_def)
  have "conn_closed (conn (sys_server x) p)" if "p < length (srv_heap (sys_server x))" for p
    using i st(3) that by (auto simp: srv_inv_def table_inv_def)
  moreover have "st_active_connections (srv_stats (sys_server x)) = 0" using i st(3) by (simp add: srv_inv_def table_inv_def)
  moreover have "unat (inflight (conn (sys_server x) p)) = length (filter (\<lambda>j. job_connection j = p) js)"
    if "p < length (srv_heap (sys_server x))" for p
    using i st(2,4) assms(2) that by (auto simp: srv_inv_def inflight_inv_def outstanding_def running_at_def queued_def)
  moreover have "destroy_started (sys_server x) = Some (sys_server x)"
    using i st(1,6) by (intro destroy_returned) (auto simp: srv_inv_def pool_ok_def)
  ultimately show ?thesis using st by (auto simp: unlistened_def)
qed

theorem shutdown_leaves_nothing_witness:
  "listen_fd (sys_server exited_system) < 0 \<and> connections (sys_server exited_system) = []
    \<and> (\<exists>pool. srv_pool (sys_server exited_system) = Some pool \<and> threads pool = [])"
  using shutdown_leaves_nothing [OF served_example [OF example_exits], of "[]"] by (auto simp: exited_system_def)

text \<open>The four workers of the example wait and the loop is between two events.\<close>

definition between_events :: "server \<Rightarrow> system" where
  "between_events s = \<lparr>sys_server = s, sys_pcs = replicate 4 At_pool, sys_loop = Loop_idle\<rparr>"

lemma accepted_served: "served default_config [] (between_events accepted)"
proof -
  have i: "initial_system example_server = between_events example_server"
    by (simp add: initial_system_def between_events_def example_server_fields)
  have "sys_step (between_events example_server) None (between_events listening)"
    unfolding listening_def between_events_def by (rule sys_step.environment) (simp add: kernel_env_def)
  moreover have "sys_step (between_events listening) None (between_events accepted)"
    unfolding between_events_def by (rule sys_step.event [OF _ _ accepted_fields(1)]) (simp_all add: listening_def example_server_fields fresh_fds_def)
  ultimately show ?thesis unfolding i [symmetric] by (blast intro: served_example reach_silent sys_reach.intros)
qed

lemma accepted_pool: "srv_pool accepted = Some (pool_start (new_pool 4 65536))"
  unfolding accepted_def listening_def
  by (simp add: dispatch_def handle_listen_ready_def accept_client_def example_server_fields example_starts(2) epoll_set_def
      Let_def emplace_def upd_kernel_def upd_stats_def sz_def default_config_def)

lemma accepted_ready: "ready_connections accepted = []"
  unfolding accepted_def listening_def
  by (simp add: dispatch_def handle_listen_ready_def accept_client_def example_server_fields example_starts(2) epoll_set_def
      Let_def emplace_def upd_kernel_def upd_stats_def sz_def default_config_def)

text \<open>
  C9. A complete drain has delivered everything: in every interleaving, when \<^verbatim>\<open>drain_complete\<close> holds no request
  is queued, and for every open connection no worker holds a request and every byte of every response has been
  given to the socket.
\<close>

theorem drain_complete_delivered:
  assumes "served config log x" "drain_complete (sys_server x)" "(fd, p) \<in> set (connections (sys_server x))"
    and "length (unsent (conn (sys_server x) p)) < 2 ^ 64"
  shows "queued p (sys_server x) = 0 \<and> running_at (threads_of (sys_server x)) (sys_pcs x) p = 0 \<and> unsent (conn (sys_server x) p) = []"
proof -
  have i: "srv_inv (outstanding (threads_of (sys_server x)) (sys_pcs x) (sys_loop x)) (sys_server x)"
    using served_inv [OF assms(1)] by (simp add: sys_inv_def)
  have p: "p < length (srv_heap (sys_server x))" using i assms(3) by (auto simp: srv_inv_def table_inv_def)
  have d: "\<not> inflight (conn (sys_server x) p) > 0" "\<not> has_pending_output (conn (sys_server x) p)"
    using assms(2,3) by (auto simp: drain_complete_def list_all_iff)
  then have "unat (inflight (conn (sys_server x) p)) = 0" by (simp add: word_gt_0)
  then have "queued p (sys_server x) = 0" "running_at (threads_of (sys_server x)) (sys_pcs x) p = 0"
    using i p by (auto simp: srv_inv_def inflight_inv_def outstanding_def)
  moreover have "unsent (conn (sys_server x) p) = []"
    using has_pending_output_iff [OF srv_inv_conn [OF i p] assms(4)] d(2) by simp
  ultimately show ?thesis by simp
qed

theorem drain_complete_delivered_witness:
  "queued 0 accepted = 0 \<and> unsent (conn accepted 0) = []"
proof -
  have "drain_complete accepted"
    by (simp add: drain_complete_def accepted_fields accepted_pool has_pending_output_def pool_pending_def sz_def pool_start_def new_pool_def)
  with drain_complete_delivered [OF accepted_served, of 8 0] show ?thesis by (simp add: between_events_def accepted_fields unsent_def)
qed

end
