(* ===== verification/ServerInterleaving.thy ===== *)
theory ServerInterleaving
  imports ServerRounds ServerShutdown
begin

text \<open>
  The rounds of \<open>ServerRounds\<close> are runs of the concurrent server: an event of a connection, the turns of a worker
  and the completion event, each performed without interruption, are sequences of the steps whose interleavings
  \<open>ServerConcurrency\<close> describes. So a round started in any state that the server program reaches leads to a state
  it reaches, with the requests of the round appended to those executed before.
\<close>

section \<open>Sequences of steps\<close>

lemma reach_trans: "sys_reach y log' z \<Longrightarrow> sys_reach x log y \<Longrightarrow> sys_reach x (log @ log') z"
  by (induction rule: sys_reach.induct) (auto simp flip: append_assoc intro: sys_reach.intros)

lemma reach_one: "sys_step x e y \<Longrightarrow> sys_reach x (performed e) y"
  using sys_reach.reach_step [OF sys_reach.reach_refl] by fastforce

lemma reach_quiet: "sys_step x None y \<Longrightarrow> sys_reach y log z \<Longrightarrow> sys_reach x log z"
  using reach_trans [OF _ reach_one, of y log z x None] by simp

lemma served_continues: "served config log x \<Longrightarrow> sys_reach x log' y \<Longrightarrow> served config (log @ log') y"
  unfolding served_def using reach_trans by blast

section \<open>A worker's turn\<close>

lemma complete_job_reach:
  assumes "i < length pcs" "pcs ! i = Computed frame" "i < length (threads_of s)" "threads_of s ! i = Running job"
  shows "sys_reach \<lparr>sys_server = s, sys_pcs = pcs, sys_loop = l\<rparr> []
    \<lparr>sys_server = complete_job (job_connection job) frame s, sys_pcs = pcs[i := Done], sys_loop = l\<rparr>"
proof -
  let ?p = "job_connection job"
  obtain t first where m: "complete_mark ?p (complete_stage ?p frame s) = (t, first)" by fastforce
  note stage = sys_step.stage [OF assms, of l]
  note mark = sys_step.mark [of i "pcs[i := Staged ?p]", OF _ _ m, of l]
  show ?thesis
  proof (cases first)
    case True
    note push = sys_step.push [of i "pcs[i := Marked ?p]" ?p t l] and wake = sys_step.wake [of i "pcs[i := Pushed]" "complete_push ?p t" l]
    from True m have "complete_job ?p frame s = complete_wake (complete_push ?p t)" by (simp add: complete_job_def)
    with True stage mark push wake assms(1) show ?thesis by simp (blast intro: reach_quiet sys_reach.reach_refl)
  next
    case False
    from False m have "complete_job ?p frame s = t" by (simp add: complete_job_def)
    with False stage mark assms(1) show ?thesis by simp (blast intro: reach_quiet sys_reach.reach_refl)
  qed
qed

lemma execute_request_pool: "execute_request r s = Some (s', resp) \<Longrightarrow> srv_pool s' = srv_pool s"
  by (auto simp: execute_request_def Let_def upd_stats_def split: opcode.splits bind_splits if_splits put_status.splits)

lemma complete_job_pool [simp]: "srv_pool (complete_job p frame s) = srv_pool s"
proof -
  obtain t first where m: "complete_mark p (complete_stage p frame s) = (t, first)" by fastforce
  then have "srv_pool t = srv_pool s" by (auto simp: complete_stage_def complete_mark_def put_conn_def split: prod.splits)
  with m show ?thesis by (simp add: complete_job_def complete_push_def complete_wake_def upd_kernel_def)
qed

lemma worker_turn_reach:
  assumes "worker_turn i s = Some s'" "worker_answer i s = Some e" "i < length pcs" "pcs ! i = At_pool"
  shows "sys_reach \<lparr>sys_server = s, sys_pcs = pcs, sys_loop = l\<rparr> [e] \<lparr>sys_server = s', sys_pcs = pcs, sys_loop = l\<rparr>"
proof -
  from assms(2) obtain pool pool' job t resp where
    a: "srv_pool s = Some pool" "worker_take i pool = Some pool'" "threads pool' ! i = Running job"
      "execute_request (job_request job) (set_pool pool' s) = Some (t, resp)" "e = (job_request job, resp)"
    by (auto simp: worker_answer_def set_pool_def split: bind_splits worker.splits)
  define frame where "frame = serialize_response_into resp []"
  let ?done = "complete_job (job_connection job) frame t"
  from assms(1) a obtain last where f: "worker_finish i pool' = Some last" "s' = set_pool last ?done"
    by (auto simp: worker_turn_def handle_job_def set_pool_def frame_def split: bind_splits)
  have i: "i < length (threads pool')" using f(1) by (auto simp: worker_finish_def split: if_splits)
  have pl: "srv_pool t = Some pool'" using execute_request_pool [OF a(4)] by (simp add: set_pool_def)
  have "sys_step \<lparr>sys_server = s, sys_pcs = pcs, sys_loop = l\<rparr> None \<lparr>sys_server = set_pool pool' s, sys_pcs = pcs, sys_loop = l\<rparr>"
    by (rule sys_step.take_job [OF a(1) assms(3,4) a(2)])
  moreover have "sys_step \<lparr>sys_server = set_pool pool' s, sys_pcs = pcs, sys_loop = l\<rparr> (Some e)
      \<lparr>sys_server = t, sys_pcs = pcs[i := Computed frame], sys_loop = l\<rparr>"
    using sys_step.execute [OF assms(3,4) _ _ a(4)] i a(3) by (simp add: set_pool_def frame_def a(5))
  moreover have "sys_reach \<lparr>sys_server = t, sys_pcs = pcs[i := Computed frame], sys_loop = l\<rparr> []
      \<lparr>sys_server = ?done, sys_pcs = pcs[i := Done], sys_loop = l\<rparr>"
    using complete_job_reach [of i "pcs[i := Computed frame]" frame t job l] assms(3) i a(3) pl by simp
  moreover have "sys_step \<lparr>sys_server = ?done, sys_pcs = pcs[i := Done], sys_loop = l\<rparr> None
      \<lparr>sys_server = s', sys_pcs = pcs, sys_loop = l\<rparr>"
    using sys_step.finish [of ?done pool' i "pcs[i := Done]" last l] assms(3,4) f pl list_update_id [of pcs i] by simp
  ultimately show ?thesis
    using reach_trans [OF _ reach_one [of _ "Some e"], of _ "[]"] by (simp add: reach_quiet) (blast intro: reach_silent reach_quiet)
qed

lemma worker_turns_reach:
  assumes "worker_turns i n s = Some s'" "worker_log i n s = Some log" "i < length pcs" "pcs ! i = At_pool"
  shows "sys_reach \<lparr>sys_server = s, sys_pcs = pcs, sys_loop = l\<rparr> log \<lparr>sys_server = s', sys_pcs = pcs, sys_loop = l\<rparr>"
  using assms
proof (induction n arbitrary: s log)
  case (Suc n)
  from Suc.prems(1,2) obtain t e es where t: "worker_answer i s = Some e" "worker_turn i s = Some t"
    "worker_turns i n t = Some s'" "worker_log i n t = Some es" "log = [e] @ es" by (auto split: bind_splits)
  from reach_trans [OF Suc.IH [OF t(3,4) assms(3,4)] worker_turn_reach [OF t(2,1) assms(3,4)]] t(5) show ?case by simp
qed (simp add: sys_reach.reach_refl)

section \<open>A completion event\<close>

lemma drain_ready_reach:
  assumes "drain_ready ps s = Some s'"
  shows "sys_reach \<lparr>sys_server = s, sys_pcs = pcs, sys_loop = Loop_drain ps\<rparr> [] \<lparr>sys_server = s', sys_pcs = pcs, sys_loop = Loop_idle\<rparr>"
  using assms
proof (induction ps arbitrary: s)
  case Nil
  then show ?case by (auto intro: reach_quiet [OF sys_step.drained] sys_reach.reach_refl)
next
  case (Cons p ps)
  then obtain t where t: "drain_flush p (drain_clear p s) = Some t" "drain_ready ps t = Some s'" by (auto split: option.splits)
  show ?case by (rule reach_quiet [OF sys_step.clear reach_quiet [OF sys_step.flush [OF t(1)] Cons.IH [OF t(2)]]])
qed

lemma drain_completions_reach:
  assumes "drain_completions s = Some s'"
  shows "sys_reach \<lparr>sys_server = s, sys_pcs = pcs, sys_loop = Loop_idle\<rparr> [] \<lparr>sys_server = s', sys_pcs = pcs, sys_loop = Loop_idle\<rparr>"
proof -
  obtain t ps where sw: "drain_swap (drain_read s) = (t, ps)" by fastforce
  with assms have "drain_ready ps t = Some s'" by (simp add: drain_completions_def)
  from reach_quiet [OF sys_step.completion reach_quiet [OF sys_step.swap [OF sw] drain_ready_reach [OF this]]] show ?thesis .
qed

section \<open>A round\<close>

lemma round_reach:
  assumes "round_runs p n log s s'" "conn_fd (conn s p) \<noteq> completion_fd s" "fresh_fds s" "0 < length pcs" "pcs ! 0 = At_pool"
  shows "sys_reach \<lparr>sys_server = s, sys_pcs = pcs, sys_loop = Loop_idle\<rparr> log \<lparr>sys_server = s', sys_pcs = pcs, sys_loop = Loop_idle\<rparr>"
proof -
  from assms(1) obtain t u where r: "dispatch (conn_fd (conn s p), EPOLLIN) s = Some t" "worker_turns 0 n t = Some u"
    "worker_log 0 n t = Some log" "drain_completions u = Some s'" by (auto simp: round_runs_def)
  have "sys_step \<lparr>sys_server = s, sys_pcs = pcs, sys_loop = Loop_idle\<rparr> None \<lparr>sys_server = t, sys_pcs = pcs, sys_loop = Loop_idle\<rparr>"
    by (rule sys_step.event [OF _ assms(3) r(1)]) (simp add: assms(2))
  note reach_quiet [OF this worker_turns_reach [OF r(2,3) assms(4,5)]]
  from reach_trans [OF drain_completions_reach [OF r(4)] this] show ?thesis by simp
qed

text \<open>In a state the server program reaches, a worker that waits at the pool is between two jobs.\<close>

lemma waiting_at_pool:
  assumes "sys_inv x" "srv_pool (sys_server x) = Some pool" "waiting_at i pool"
  shows "i < length (sys_pcs x) \<and> sys_pcs x ! i = At_pool"
  using assms by (force simp: sys_inv_def workers_inv_def waiting_at_def)

text \<open>
  Requests of a client at rest, in any state the server program reaches between two events: the server answers
  them, and what it has executed then are the requests of before and these.
\<close>

lemma served_round:
  assumes "served config log x" "sys_loop x = Loop_idle" "fresh_fds (sys_server x)"
    and "idle_on p pool (sys_server x)" "requests_fit p pool rs rest (sys_server x)" "values_fit p n rs (sys_server x)"
    and "packet p input rs rest (sys_server x)" "kernel_serves input m (srv_kernel (sys_server x))" "length rs * (kHeaderSize + n) \<le> m"
  obtains y resps where "served config (log @ zip rs resps) y" "serve_round p (length rs) (sys_server x) = Some (sys_server y)"
    "sequential (lru_limits (srv_cache (sys_server x))) (lru_abs (srv_cache (sys_server x))) (zip rs resps) = Some (lru_abs (srv_cache (sys_server y)))"
    "sys_loop y = Loop_idle" "length resps = length rs" "list_all (\<lambda>resp. length (resp_value resp) \<le> n) resps"
    "k_sent (srv_kernel (sys_server y)) = k_sent (srv_kernel (sys_server x)) @ [(p, []), (p, concat (map serialize_response resps))]"
    "idle_on p (pool_done (length rs) [] pool) (sys_server y)" "unread (conn (sys_server y) p) = rest"
proof -
  from serve_round_result [OF assms(4-9)] obtain s' resps where
    r: "serve_round p (length rs) (sys_server x) = Some s'" "length resps = length rs" "list_all (\<lambda>resp. length (resp_value resp) \<le> n) resps"
      "k_sent (srv_kernel s') = k_sent (srv_kernel (sys_server x)) @ [(p, []), (p, concat (map serialize_response resps))]"
      "sequential (lru_limits (srv_cache (sys_server x))) (lru_abs (srv_cache (sys_server x))) (zip rs resps) = Some (lru_abs (srv_cache s'))"
      "idle_on p (pool_done (length rs) [] pool) s'" "unread (conn s' p) = rest" "round_runs p (length rs) (zip rs resps) (sys_server x) s'" by blast
  have "srv_pool (sys_server x) = Some pool" "waiting_at 0 pool" "conn_fd (conn (sys_server x) p) \<noteq> completion_fd (sys_server x)"
    using assms(4) by (simp_all add: idle_on_def wired_def)
  note round_reach [OF r(8) this(3) assms(3)] and waiting_at_pool [OF served_inv [OF assms(1)] this(1,2)]
  then have "sys_reach x (zip rs resps) \<lparr>sys_server = s', sys_pcs = sys_pcs x, sys_loop = Loop_idle\<rparr>" using assms(2) by (cases x) simp
  from that [OF served_continues [OF assms(1) this]] r show thesis by (simp del: sequential.simps)
qed

section \<open>An example\<close>

text \<open>The client of \<open>accepted\<close> sends requests in one packet, and its socket takes the responses.\<close>

definition visited :: "request list \<Rightarrow> server" where
  "visited rs = upd_kernel (\<lambda>k. k\<lparr>k_recv := [Received (concat (map serialize_request rs))], k_send := [Sent 1000], k_ctl := [True, True]\<rparr>) accepted"

lemma visited_served: "served default_config [] (between_events (visited rs))"
proof -
  have "sys_step (between_events accepted) None (between_events (visited rs))"
    unfolding between_events_def visited_def by (rule sys_step.environment) (simp add: kernel_env_def)
  from served_continues [OF accepted_served reach_one [OF this]] show ?thesis by simp
qed

lemma visited_fields:
  "srv_pool (visited rs) = Some (pool_start (new_pool 4 65536))" "conn (visited rs) 0 = accepted_conn" "length (srv_heap (visited rs)) = 1"
  "lru_abs (srv_cache (visited rs)) = []" "fresh_fds (visited rs)" "ready_connections (visited rs) = []" "\<not> srv_draining (visited rs)"
  "k_completion (srv_kernel (visited rs)) = 0" "wired 0 (visited rs)"
  using served_sequential [OF visited_served [of rs]]
  by (simp_all add: visited_def accepted_pool accepted_ready accepted_fields between_events_def fresh_fds_def wired_def)

lemma visited_ready:
  "idle_on 0 (pool_start (new_pool 4 65536)) (visited rs)" "kernel_serves (concat (map serialize_request rs)) 1000 (srv_kernel (visited rs))"
proof -
  have "sys_inv (between_events (visited rs))" by (rule served_inv [OF visited_served])
  then have "lru_inv (srv_cache (visited rs))" by (simp add: sys_inv_def between_events_def cache_ok_def)
  moreover have "conn_inv accepted_conn" by (simp add: accepted_conn_def new_connection_inv)
  moreover have "at_rest accepted_conn" by (simp add: accepted_conn_def at_rest_def new_connection_def set_registered_events_def)
  ultimately show "idle_on 0 (pool_start (new_pool 4 65536)) (visited rs)"
    by (simp add: idle_on_def visited_fields) (simp add: pool_start_def new_pool_def waiting_at_def)
  show "kernel_serves (concat (map serialize_request rs)) 1000 (srv_kernel (visited rs))" by (simp add: kernel_serves_def visited_def)
qed

lemma visited_fits:
  assumes "rs \<noteq> []" "list_all (request_ok (protocol_limits (connection_limits_of default_config))) rs" "length rs \<le> 7"
    and "length (concat (map serialize_request rs)) \<le> kReadChunkBytes"
  shows "requests_fit 0 (pool_start (new_pool 4 65536)) rs [] (visited rs)" "packet 0 (concat (map serialize_request rs)) rs [] (visited rs)"
proof -
  show "requests_fit 0 (pool_start (new_pool 4 65536)) rs [] (visited rs)"
    using assms by (simp add: requests_fit_def visited_fields pool_start_def new_pool_def)
  have "concat (map serialize_request rs) \<noteq> []" using assms(1) by (cases rs) simp_all
  with assms(4) show "packet 0 (concat (map serialize_request rs)) rs [] (visited rs)"
    by (simp only: packet_def visited_fields) (simp add: unread_def)
qed

lemma visited_values:
  assumes "list_all (\<lambda>r. length (req_value r) \<le> 114) rs" "length rs \<le> 7"
  shows "values_fit 0 114 rs (visited rs)"
  using assms by (simp add: values_fit_def visited_fields values_below_def output_room_def kHeaderSize_def unsent_def)

text \<open>A value is stored and read back.\<close>

definition store_request :: request where
  "store_request = default_request\<lparr>req_opcode := Opcode_kPut, req_request_id := 1, req_key := [107], req_value := [118]\<rparr>"

definition fetch_request :: request where
  "fetch_request = default_request\<lparr>req_opcode := Opcode_kGet, req_request_id := 2, req_key := [107]\<rparr>"

lemma store_and_fetch:
  "\<exists>y resps. served default_config (zip [store_request, fetch_request] resps) y \<and> length resps = 2"
proof -
  let ?rs = "[store_request, fetch_request]"
  have ok: "list_all (request_ok (protocol_limits (connection_limits_of default_config))) ?rs"
    by (simp add: store_request_def fetch_request_def default_request_def request_ok_def connection_limits_of_def default_config_def
        effective_limit_def kMaxKeyBytes_def kMaxValueBytes_def opcode_allows_value_def)
  have len: "length (concat (map serialize_request ?rs)) \<le> kReadChunkBytes"
    by (simp add: store_request_def fetch_request_def default_request_def kHeaderSize_def kReadChunkBytes_def)
  have f: "requests_fit 0 (pool_start (new_pool 4 65536)) ?rs [] (visited ?rs)" "packet 0 (concat (map serialize_request ?rs)) ?rs [] (visited ?rs)"
    by (intro visited_fits ok len; simp)+
  have v: "values_fit 0 114 ?rs (visited ?rs)" by (rule visited_values) (simp_all add: store_request_def fetch_request_def default_request_def)
  have b: "sys_loop (between_events (visited ?rs)) = Loop_idle" "sys_server (between_events (visited ?rs)) = visited ?rs"
    by (simp_all add: between_events_def)
  have "length ?rs * (kHeaderSize + 114) \<le> 1000" by (simp add: kHeaderSize_def)
  from served_round [OF visited_served b(1), unfolded b(2), OF visited_fields(5) visited_ready(1) f(1) v f(2) visited_ready(2) this]
  obtain y resps where "served default_config ([] @ zip ?rs resps) y" "length resps = length ?rs" by blast
  then show ?thesis by (intro exI [of _ y] exI [of _ resps]) simp
qed

section \<open>Properties\<close>

text \<open>
  C2. The server is linearizable: in every interleaving of the event loop and the workers, the responses
  computed so far, in the order of execution, are those of a single cache that executes the requests one
  after another on a list of entries in order of use, and that list is the content of the cache.
\<close>

theorem server_linearizable:
  assumes "served config log x"
  shows "sequential (config_cache_limits config) [] log = Some (lru_abs (srv_cache (sys_server x)))"
  by (rule served_sequential [OF assms])

theorem server_linearizable_witness:
  "\<exists>y resps. served default_config (zip [store_request, fetch_request] resps) y \<and> length resps = 2
    \<and> lru_abs (srv_cache (sys_server y)) = [([107], [118])] \<and> resp_value (resps ! 1) = [118]"
proof -
  obtain y resps where y: "served default_config (zip [store_request, fetch_request] resps) y" "length resps = 2"
    using store_and_fetch by blast
  from y(2) obtain a b where r: "resps = [a, b]" by (auto simp: length_Suc_conv eval_nat_numeral)
  let ?lim = "config_cache_limits default_config"
  have put: "spec_put ?lim [] [107] [118] = ([([107], [118])], PutStatus_kStored)"
    by (simp add: spec_put_def config_cache_limits_def default_config_def kv_cost_def kv_payload_def del_def trim.simps)
  from server_linearizable [OF y(1)] have "resp_value b = [118] \<and> lru_abs (srv_cache (sys_server y)) = [([107], [118])]"
    by (auto simp: r answer_def put spec_get_def del_def store_request_def fetch_request_def default_request_def split: if_splits)
  with y r show ?thesis by (intro exI [of _ y] exI [of _ resps]) simp
qed

end
