(* ===== verification/AsyncClient.thy ===== *)
theory AsyncClient
  imports Server
begin

text \<open>
  The pipelining client of the load programs (\<^verbatim>\<open>benchmark/async_client.h\<close>, \<^verbatim>\<open>benchmark/async_client.cpp\<close>): one
  thread that keeps several requests outstanding on each of several connections and multiplexes them with
  epoll. The callbacks of an engine share a state, the captured variables of the program that owns it.

  The kernel is part of the engine: the answers it will give to \<^verbatim>\<open>send\<close>, \<^verbatim>\<open>recv\<close>, \<^verbatim>\<open>epoll_ctl\<close> and
  \<^verbatim>\<open>epoll_wait\<close>, in order, the interest set, the readings of the steady clock in nanoseconds with the number of
  those taken, the bytes each connection has sent and received, and the descriptors closed. \<open>None\<close> is an execution that does
  not go on because the answers run out, or an event that names no connection.
\<close>

section \<open>State\<close>

record request_spec =
  spec_opcode :: opcode
  spec_key :: bytes
  spec_value :: bytes

definition default_spec :: request_spec where
  "default_spec = \<lparr>spec_opcode = Opcode_kPing, spec_key = [], spec_value = []\<rparr>"

record completion =
  cmp_connection_index :: u64
  cmp_request :: request_spec
  cmp_response :: response
  cmp_latency_ns :: u64

record engine_config =
  ecfg_socket_path :: string
  ecfg_connections :: u64
  pipeline_depth :: u64
  ecfg_requests :: u64
  first_connection :: u64
  idle_timeout_ms :: int

definition default_engine_config :: engine_config where
  "default_engine_config = \<lparr>ecfg_socket_path = [], ecfg_connections = 1, pipeline_depth = 1, ecfg_requests = 0,
     first_connection = 0, idle_timeout_ms = 30000\<rparr>"

record engine_stats =
  es_sent :: u64
  es_received :: u64
  es_connect_failures :: u64
  es_io_failures :: u64
  es_protocol_failures :: u64

record pending =
  pend_spec :: request_spec
  pend_started :: u64

text \<open>A connection; the map of its pending requests is a list of pairs with one pair for each identifier.\<close>

record bench_conn =
  bc_fd :: int
  bc_index :: u64
  bc_live :: bool
  bc_input :: bytes
  bc_output :: bytes
  bc_output_pos :: nat
  bc_pending :: "(u64 \<times> pending) list"

datatype poll_outcome = Poll_ready "(nat \<times> u32) list" | Poll_failed errno

record engine_kernel =
  ek_send :: "send_outcome list"
  ek_recv :: "recv_outcome list"
  ek_ctl :: "bool list"
  ek_poll :: "poll_outcome list"
  ek_interest :: "int \<Rightarrow> u32 option"
  ek_clock :: "nat \<Rightarrow> u64"
  ek_reads :: nat
  ek_sent :: "(nat \<times> bytes) list"
  ek_received :: "(nat \<times> bytes) list"
  ek_closed :: "int list"

record 'a engine =
  eng_config :: engine_config
  eng_generator :: "'a \<Rightarrow> u64 \<Rightarrow> u64 \<Rightarrow> 'a \<times> request_spec option"
  eng_on_complete :: "completion \<Rightarrow> 'a \<Rightarrow> 'a"
  eng_app :: 'a
  eng_stats :: engine_stats
  eng_conns :: "bench_conn list"
  eng_issued :: u64
  eng_next_request_id :: u64
  generator_exhausted :: bool
  eng_epoll_fd :: int
  live_connections :: u64
  eng_kernel :: engine_kernel

definition new_engine ::
  "engine_config \<Rightarrow> ('a \<Rightarrow> u64 \<Rightarrow> u64 \<Rightarrow> 'a \<times> request_spec option) \<Rightarrow> (completion \<Rightarrow> 'a \<Rightarrow> 'a) \<Rightarrow> 'a
     \<Rightarrow> engine_kernel \<Rightarrow> 'a engine" where
  "new_engine config generator on_complete app k =
     \<lparr>eng_config = config, eng_generator = generator, eng_on_complete = on_complete, eng_app = app,
      eng_stats = \<lparr>es_sent = 0, es_received = 0, es_connect_failures = 0, es_io_failures = 0, es_protocol_failures = 0\<rparr>,
      eng_conns = [], eng_issued = 0, eng_next_request_id = 1, generator_exhausted = False, eng_epoll_fd = - 1,
      live_connections = 0, eng_kernel = k\<rparr>"

definition upd_ek :: "(engine_kernel \<Rightarrow> engine_kernel) \<Rightarrow> 'a engine \<Rightarrow> 'a engine" where
  "upd_ek f e = e\<lparr>eng_kernel := f (eng_kernel e)\<rparr>"

definition upd_es :: "(engine_stats \<Rightarrow> engine_stats) \<Rightarrow> 'a engine \<Rightarrow> 'a engine" where
  "upd_es f e = e\<lparr>eng_stats := f (eng_stats e)\<rparr>"

abbreviation bconn :: "'a engine \<Rightarrow> nat \<Rightarrow> bench_conn" where
  "bconn e i \<equiv> eng_conns e ! i"

definition put_bconn :: "nat \<Rightarrow> bench_conn \<Rightarrow> 'a engine \<Rightarrow> 'a engine" where
  "put_bconn i c e = e\<lparr>eng_conns := (eng_conns e)[i := c]\<rparr>"

definition close_fd :: "int \<Rightarrow> 'a engine \<Rightarrow> 'a engine" where
  "close_fd fd = upd_ek (\<lambda>k. k\<lparr>ek_closed := ek_closed k @ [fd]\<rparr>)"

section \<open>Connecting\<close>

text \<open>The answers for one connection, and the error code of the call that fails.\<close>

record conn_answers =
  cna_socket :: int
  cna_connect :: bool
  cna_getfl :: int
  cna_setfl :: bool
  cna_ctl :: bool
  cna_errno :: errno

definition error_text :: "(errno \<Rightarrow> string) \<Rightarrow> string \<Rightarrow> errno \<Rightarrow> string" where
  "error_text strerror operation e = operation @ '': '' @ strerror e"

definition count_connect_failure :: "'a engine \<Rightarrow> 'a engine" where
  "count_connect_failure = upd_es (\<lambda>st. st\<lparr>es_connect_failures := es_connect_failures st + 1\<rparr>)"

definition connect_one :: "(errno \<Rightarrow> string) \<Rightarrow> conn_answers \<Rightarrow> u64 \<Rightarrow> 'a engine \<Rightarrow> 'a engine \<times> string" where
  "connect_one strerror a i e =
     (let fd = cna_socket a;
          conn = \<lparr>bc_fd = fd, bc_index = first_connection (eng_config e) + i, bc_live = False, bc_input = [],
            bc_output = [], bc_output_pos = 0, bc_pending = []\<rparr> in
      if fd < 0 then (count_connect_failure e, error_text strerror ''socket'' (cna_errno a))
      else if \<not> cna_connect a
      then (close_fd fd (count_connect_failure e), error_text strerror ''connect'' (cna_errno a))
      else if cna_getfl a < 0 \<or> \<not> cna_setfl a
      then (close_fd fd e, error_text strerror ''fcntl(O_NONBLOCK)'' (cna_errno a))
      else if \<not> cna_ctl a then (close_fd fd e, error_text strerror ''epoll_ctl'' (cna_errno a))
      else ((upd_ek (\<lambda>k. k\<lparr>ek_interest := (ek_interest k)(fd \<mapsto> or EPOLLIN EPOLLRDHUP)\<rparr>) e)
              \<lparr>live_connections := live_connections e + 1, eng_conns := eng_conns e @ [conn\<lparr>bc_live := True\<rparr>]\<rparr>, []))"

fun connect_loop ::
  "(errno \<Rightarrow> string) \<Rightarrow> conn_answers list \<Rightarrow> u64 \<Rightarrow> 'a engine \<Rightarrow> ('a engine \<times> string) option" where
  "connect_loop strerror answers i e =
     (if \<not> i < ecfg_connections (eng_config e) then Some (e, [])
      else case answers of
        [] \<Rightarrow> None
      | a # answers' \<Rightarrow>
          (case connect_one strerror a i e of (e, error) \<Rightarrow>
             if error \<noteq> [] then Some (e, error) else connect_loop strerror answers' (i + 1) e))"

declare connect_loop.simps [simp del]

definition connect_all ::
  "(errno \<Rightarrow> string) \<Rightarrow> int \<Rightarrow> errno \<Rightarrow> conn_answers list \<Rightarrow> 'a engine \<Rightarrow> ('a engine \<times> string) option" where
  "connect_all strerror epoll epoll_errno answers e =
     (if ecfg_connections (eng_config e) = 0 \<or> pipeline_depth (eng_config e) = 0
      then Some (e, ''connections and pipeline depth must be positive'')
      else if length (ecfg_socket_path (eng_config e)) \<ge> sizeof_sun_path then Some (e, ''Unix socket path is too long'')
      else let e = e\<lparr>eng_epoll_fd := epoll\<rparr> in
      if epoll < 0 then Some (e, error_text strerror ''epoll_create1'' epoll_errno)
      else connect_loop strerror answers 0 e)"

section \<open>Sending\<close>

text \<open>\<^verbatim>\<open>emplace\<close> leaves the map as it is when the key is there.\<close>

definition emplace_pending :: "u64 \<Rightarrow> pending \<Rightarrow> (u64 \<times> pending) list \<Rightarrow> (u64 \<times> pending) list" where
  "emplace_pending k v m = (if map_of m k = None then m @ [(k, v)] else m)"

definition issue_request :: "nat \<Rightarrow> request_spec \<Rightarrow> 'a engine \<Rightarrow> 'a engine" where
  "issue_request i spec e =
     (let request_id = eng_next_request_id e;
          request = \<lparr>req_opcode = spec_opcode spec, req_request_id = request_id, req_key = spec_key spec,
            req_value = spec_value spec\<rparr>;
          started = ek_clock (eng_kernel e) (ek_reads (eng_kernel e));
          c = bconn e i;
          c = c\<lparr>bc_output := serialize_request_into request (bc_output c),
                bc_pending := emplace_pending request_id \<lparr>pend_spec = spec, pend_started = started\<rparr> (bc_pending c)\<rparr>;
          e = upd_ek (\<lambda>k. k\<lparr>ek_reads := ek_reads k + 1\<rparr>) (put_bconn i c e)
      in upd_es (\<lambda>st. st\<lparr>es_sent := es_sent st + 1\<rparr>)
           (e\<lparr>eng_next_request_id := request_id + 1, eng_issued := eng_issued e + 1\<rparr>))"

lemma unat_next: "a < b \<Longrightarrow> unat (a + 1) = Suc (unat (a :: u64))"
  using unsigned_less [of b, where 'a = nat] unat_add_exact [of a 1] by (simp add: word_less_nat_alt)

lemma issue_request_issued [simp]:
  "eng_issued (issue_request i spec e) = eng_issued e + 1" "eng_config (issue_request i spec e) = eng_config e"
  by (simp_all add: issue_request_def Let_def upd_ek_def upd_es_def put_bconn_def)

function fill_pipeline :: "nat \<Rightarrow> 'a engine \<Rightarrow> 'a engine" where
  "fill_pipeline i e =
     (if \<not> generator_exhausted e \<and> sz (bc_pending (bconn e i)) < pipeline_depth (eng_config e)
         \<and> eng_issued e < ecfg_requests (eng_config e)
      then (case eng_generator e (eng_app e) (bc_index (bconn e i)) (eng_issued e) of
              (app, None) \<Rightarrow> e\<lparr>eng_app := app, generator_exhausted := True\<rparr>
            | (app, Some spec) \<Rightarrow> fill_pipeline i (issue_request i spec (e\<lparr>eng_app := app\<rparr>)))
      else e)"
  by pat_completeness auto

termination
proof (relation "measure (\<lambda>(i, e). unat (ecfg_requests (eng_config e)) - unat (eng_issued e))", goal_cases)
  case (2 i e app opt spec)
  then have "eng_issued e < ecfg_requests (eng_config e)" by simp
  from unat_next [OF this] this show ?case by (simp add: word_less_nat_alt)
qed simp

declare fill_pipeline.simps [simp del]

text \<open>The loop over \<^verbatim>\<open>send\<close>: the bytes sent, how it ended and the answers not used.\<close>

datatype io_end = Io_done | Io_again | Io_failed

fun send_output ::
  "send_outcome list \<Rightarrow> bench_conn \<Rightarrow> (bench_conn \<times> bytes \<times> io_end \<times> send_outcome list) option" where
  "send_output answers c =
     (if bc_output_pos c < length (bc_output c)
      then (case answers of
              [] \<Rightarrow> None
            | Sent k # answers' \<Rightarrow>
                let n = min k (length (bc_output c) - bc_output_pos c) in
                if n > 0
                then (case send_output answers' (c\<lparr>bc_output_pos := bc_output_pos c + n\<rparr>) of
                        None \<Rightarrow> None
                      | Some (c', sent, r, rest) \<Rightarrow>
                          Some (c', take n (drop (bc_output_pos c) (bc_output c)) @ sent, r, rest))
                else Some (c, [], Io_failed, answers')
            | Send_failed EINTR # answers' \<Rightarrow> send_output answers' c
            | Send_failed EAGAIN # answers' \<Rightarrow> Some (c, [], Io_again, answers')
            | Send_failed EOTHER # answers' \<Rightarrow> Some (c, [], Io_failed, answers'))
      else Some (c, [], Io_done, answers))"

declare send_output.simps [simp del]

definition engine_update_interest :: "nat \<Rightarrow> bool \<Rightarrow> 'a engine \<Rightarrow> ('a engine \<times> bool) option" where
  "engine_update_interest i want_write e =
     (let events = or (or EPOLLIN EPOLLRDHUP) (if want_write then EPOLLOUT else 0) in
      case ek_ctl (eng_kernel e) of
        [] \<Rightarrow> None
      | ok # rest \<Rightarrow>
          Some (upd_ek (\<lambda>k. k\<lparr>ek_ctl := rest,
            ek_interest := (if ok then (ek_interest k)(bc_fd (bconn e i) \<mapsto> events) else ek_interest k)\<rparr>) e, ok))"

definition on_writable :: "nat \<Rightarrow> 'a engine \<Rightarrow> ('a engine \<times> bool) option" where
  "on_writable i e =
     (let e = fill_pipeline i e in
      case send_output (ek_send (eng_kernel e)) (bconn e i) of
        None \<Rightarrow> None
      | Some (c, sent, r, rest) \<Rightarrow>
          let e = put_bconn i c (upd_ek (\<lambda>k. k\<lparr>ek_send := rest, ek_sent := ek_sent k @ [(i, sent)]\<rparr>) e) in
          (case r of
             Io_again \<Rightarrow> engine_update_interest i True e
           | Io_failed \<Rightarrow> Some (e, False)
           | Io_done \<Rightarrow> engine_update_interest i False (put_bconn i (c\<lparr>bc_output := [], bc_output_pos := 0\<rparr>) e)))"

section \<open>Receiving\<close>

definition kEngineChunkBytes :: nat where "kEngineChunkBytes = 64 * 1024"

text \<open>The loop over \<^verbatim>\<open>recv\<close>: the bytes received, whether the connection goes on and the answers not used.\<close>

fun recv_input :: "recv_outcome list \<Rightarrow> (bytes \<times> bool \<times> recv_outcome list) option" where
  "recv_input [] = None"
| "recv_input (Received bs # answers) =
     (let chunk = take kEngineChunkBytes bs
      in if chunk = [] then Some ([], False, answers)
         else (case recv_input answers of
                 None \<Rightarrow> None
               | Some (received, ok, rest) \<Rightarrow> Some (chunk @ received, ok, rest)))"
| "recv_input (Recv_failed EINTR # answers) = recv_input answers"
| "recv_input (Recv_failed EAGAIN # answers) = Some ([], True, answers)"
| "recv_input (Recv_failed EOTHER # answers) = Some ([], False, answers)"

definition count_protocol_failure :: "'a engine \<Rightarrow> 'a engine" where
  "count_protocol_failure = upd_es (\<lambda>st. st\<lparr>es_protocol_failures := es_protocol_failures st + 1\<rparr>)"

definition complete_request :: "nat \<Rightarrow> pending \<Rightarrow> response \<Rightarrow> 'a engine \<Rightarrow> 'a engine" where
  "complete_request i p response e =
     (let now = ek_clock (eng_kernel e) (ek_reads (eng_kernel e));
          c = bconn e i;
          completion = \<lparr>cmp_connection_index = bc_index c, cmp_request = pend_spec p, cmp_response = response,
            cmp_latency_ns = now - pend_started p\<rparr>;
          e = upd_ek (\<lambda>k. k\<lparr>ek_reads := ek_reads k + 1\<rparr>) (e\<lparr>eng_app := eng_on_complete e completion (eng_app e)\<rparr>);
          e = put_bconn i (c\<lparr>bc_pending := filter (\<lambda>q. fst q \<noteq> resp_request_id response) (bc_pending c)\<rparr>) e
      in upd_es (\<lambda>st. st\<lparr>es_received := es_received st + 1\<rparr>) e)"

lemma complete_request_input [simp]: "bc_input (bconn (complete_request i p response e) i) = bc_input (bconn e i)"
  by (cases "length (eng_conns e) \<le> i")
    (simp_all add: complete_request_def Let_def upd_ek_def upd_es_def put_bconn_def list_update_beyond)

lemma response_consumed:
  assumes "deserialize_response input lim out = (parsed, r)" "pr_status parsed = ParseStatus_kComplete"
  shows "0 < pr_consumed parsed" "pr_consumed parsed \<le> length input" "take (pr_consumed parsed) input = serialize_response r"
proof -
  obtain n where n: "parsed = pr_complete n" "pr_consumed parsed = n"
    using deserialize_response_outcome [of input lim out] assms
    by (auto simp: pr_need_more_def pr_malformed_def pr_complete_def)
  from deserialize_response_sound [of input lim out n r] assms n
  have s: "n \<le> length input" "take n input = serialize_response r" by simp_all
  then have "length (serialize_response r) = n" by (metis length_take min.absorb2)
  with s n show "0 < pr_consumed parsed" "pr_consumed parsed \<le> length input" "take (pr_consumed parsed) input = serialize_response r"
    by (auto simp: kHeaderSize_def)
qed

text \<open>The loop over the responses in the input: whether the connection goes on, and the bytes consumed.\<close>

function parse_responses :: "nat \<Rightarrow> nat \<Rightarrow> 'a engine \<Rightarrow> 'a engine \<times> bool \<times> nat" where
  "parse_responses i consumed e =
     (if consumed < length (bc_input (bconn e i))
      then (case deserialize_response (drop consumed (bc_input (bconn e i))) default_limits default_response of
              (parsed, response) \<Rightarrow>
                if pr_status parsed = ParseStatus_kNeedMoreData then (e, True, consumed)
                else if pr_status parsed = ParseStatus_kMalformed then (count_protocol_failure e, False, consumed)
                else (case map_of (bc_pending (bconn e i)) (resp_request_id response) of
                        None \<Rightarrow> (count_protocol_failure e, False, consumed + pr_consumed parsed)
                      | Some p \<Rightarrow>
                          if resp_opcode response \<noteq> spec_opcode (pend_spec p)
                          then (count_protocol_failure e, False, consumed + pr_consumed parsed)
                          else parse_responses i (consumed + pr_consumed parsed) (complete_request i p response e)))
      else (e, True, consumed))"
  by pat_completeness auto

termination
proof (relation "measure (\<lambda>(i, consumed, e). length (bc_input (bconn e i)) - consumed)", goal_cases)
  case (2 i consumed e parsed response p)
  then have "pr_status parsed = ParseStatus_kComplete" by (cases "pr_status parsed") auto
  from response_consumed(1,2) [OF 2(2) [symmetric] this] 2(1) show ?case by simp
qed simp

declare parse_responses.simps [simp del]

definition on_readable :: "nat \<Rightarrow> 'a engine \<Rightarrow> ('a engine \<times> bool) option" where
  "on_readable i e =
     (case recv_input (ek_recv (eng_kernel e)) of
        None \<Rightarrow> None
      | Some (received, ok, rest) \<Rightarrow>
          let c = bconn e i;
              e = upd_ek (\<lambda>k. k\<lparr>ek_recv := rest, ek_received := ek_received k @ [(i, received)]\<rparr>) e;
              e = put_bconn i (c\<lparr>bc_input := bc_input c @ received\<rparr>) e in
          if \<not> ok then Some (e, False)
          else (case parse_responses i 0 e of (e, ok, consumed) \<Rightarrow>
            if \<not> ok then Some (e, False)
            else let c = bconn e i;
                     e = (if consumed \<noteq> 0 then put_bconn i (c\<lparr>bc_input := drop consumed (bc_input c)\<rparr>) e else e);
                     e = fill_pipeline i e
                 in on_writable i e))"

section \<open>Running\<close>

definition engine_drop :: "nat \<Rightarrow> 'a engine \<Rightarrow> 'a engine" where
  "engine_drop i e =
     (let c = bconn e i in
      if \<not> bc_live c then e
      else let e = upd_ek (\<lambda>k. k\<lparr>ek_interest := (ek_interest k)(bc_fd c := None)\<rparr>) e;
               e = close_fd (bc_fd c) e;
               e = put_bconn i (c\<lparr>bc_live := False, bc_fd := - 1\<rparr>) e
           in upd_es (\<lambda>st. st\<lparr>es_io_failures := es_io_failures st + 1\<rparr>)
                (e\<lparr>live_connections := live_connections e - 1\<rparr>))"

definition all_done :: "'a engine \<Rightarrow> bool" where
  "all_done e \<longleftrightarrow>
     \<not> (\<not> generator_exhausted e \<and> eng_issued e < ecfg_requests (eng_config e))
   \<and> \<not> es_received (eng_stats e) < eng_issued e
   \<and> list_all (\<lambda>c. \<not> (bc_pending c \<noteq> [] \<or> bc_output_pos c < length (bc_output c))) (eng_conns e)"

definition engine_event :: "nat \<times> u32 \<Rightarrow> 'a engine \<Rightarrow> 'a engine option" where
  "engine_event ev e =
     (case ev of (i, flags) \<Rightarrow>
      if i \<ge> length (eng_conns e) then None
      else if \<not> bc_live (bconn e i) then Some e
      else if has_event flags (or (or EPOLLERR EPOLLHUP) EPOLLRDHUP) then Some (engine_drop i e)
      else (case (if has_event flags EPOLLIN then on_readable i e else Some (e, True)) of
              None \<Rightarrow> None
            | Some (e, ok) \<Rightarrow>
                (case (if ok \<and> has_event flags EPOLLOUT then on_writable i e else Some (e, ok)) of
                   None \<Rightarrow> None
                 | Some (e, ok) \<Rightarrow> Some (if ok then e else engine_drop i e))))"

fun engine_events :: "(nat \<times> u32) list \<Rightarrow> 'a engine \<Rightarrow> 'a engine option" where
  "engine_events [] e = Some e"
| "engine_events (ev # evs) e = (case engine_event ev e of None \<Rightarrow> None | Some e \<Rightarrow> engine_events evs e)"

fun start_all :: "nat list \<Rightarrow> 'a engine \<Rightarrow> 'a engine option" where
  "start_all [] e = Some e"
| "start_all (i # is) e =
     (case on_writable i (fill_pipeline i e) of
        None \<Rightarrow> None
      | Some (e, ok) \<Rightarrow> start_all is (if ok then e else engine_drop i e))"

definition kEngineEvents :: nat where "kEngineEvents = 256"

fun poll_loop :: "(errno \<Rightarrow> string) \<Rightarrow> poll_outcome list \<Rightarrow> 'a engine \<Rightarrow> ('a engine \<times> string) option" where
  "poll_loop strerror outcomes e =
     (if all_done e then Some (e, [])
      else if live_connections e = 0 then Some (e, ''all benchmark connections failed'')
      else case outcomes of
        [] \<Rightarrow> None
      | Poll_ready events # outcomes' \<Rightarrow>
          let events = take kEngineEvents events in
          if events = [] then Some (e, ''benchmark timed out waiting for server responses'')
          else (case engine_events events e of None \<Rightarrow> None | Some e \<Rightarrow> poll_loop strerror outcomes' e)
      | Poll_failed err # outcomes' \<Rightarrow>
          if err = EINTR then poll_loop strerror outcomes' e
          else Some (e, error_text strerror ''epoll_wait'' err))"

declare poll_loop.simps [simp del]

definition engine_run :: "(errno \<Rightarrow> string) \<Rightarrow> 'a engine \<Rightarrow> ('a engine \<times> string) option" where
  "engine_run strerror e =
     (case start_all [0..<length (eng_conns e)] e of
        None \<Rightarrow> None
      | Some e \<Rightarrow> poll_loop strerror (ek_poll (eng_kernel e)) e)"

text \<open>The destructor: the epoll instance, then the connections.\<close>

definition engine_destroy :: "'a engine \<Rightarrow> 'a engine" where
  "engine_destroy e =
     (let e = (if eng_epoll_fd e \<ge> 0 then close_fd (eng_epoll_fd e) e else e)
      in fold close_fd (filter (\<lambda>fd. fd \<ge> 0) (map bc_fd (eng_conns e))) e)"

end
