(* ===== verification/AsyncClientProperties.thy ===== *)
theory AsyncClientProperties
  imports AsyncClient
begin

text \<open>
  What a run of the pipelining client has done when it ends. A history lists the requests issued and the
  responses handed to the callback, each with its connection; it is tied to the bytes that went over each
  connection, to the requests outstanding and to the state of the callbacks. The contract of the callbacks is
  the locale \<open>engine_client\<close>: an invariant of their state and the history.
\<close>

section \<open>Histories\<close>


definition of_conn :: "nat \<Rightarrow> (nat \<times> 'b) list \<Rightarrow> 'b list" where
  "of_conn i xs = map snd (filter (\<lambda>x. fst x = i) xs)"












section \<open>Lemmas on histories\<close>

lemma of_conn_simps [simp]: "of_conn i [] = []" "of_conn i (xs @ ys) = of_conn i xs @ of_conn i ys"
  "of_conn i [(i, x)] = [x]" "i \<noteq> j \<Longrightarrow> of_conn i [(j, x)] = []"
  by (simp_all add: of_conn_def)










section \<open>Issuing a request\<close>




section \<open>Changes to one connection\<close>
















section \<open>Taking a response\<close>







section \<open>Losing a connection\<close>




section \<open>Connecting\<close>







section \<open>The contract of the callbacks\<close>






section \<open>A run that succeeds\<close>












end
