(* ===== verification/UniqueFd.thy ===== *)
theory UniqueFd
  imports Prelude
begin

text \<open>
  The owner of a file descriptor (\<^verbatim>\<open>include/cache/unique_fd.h\<close>). Each operation returns the descriptors it
  passes to \<^verbatim>\<open>close\<close> next to the object. A program that creates, resets, releases, moves and destroys such
  owners is a list of operations on a table of objects; the table of open descriptors says what a
  \<^verbatim>\<open>close\<close> hits.
\<close>

section \<open>The class\<close>

record unique_fd = ufd :: int

definition fd_default :: unique_fd where
  "fd_default = \<lparr>ufd = - 1\<rparr>"

definition fd_make :: "int \<Rightarrow> unique_fd" where
  "fd_make fd = \<lparr>ufd = fd\<rparr>"

definition fd_valid :: "unique_fd \<Rightarrow> bool" where
  "fd_valid u \<longleftrightarrow> ufd u \<ge> 0"

definition fd_reset :: "int \<Rightarrow> unique_fd \<Rightarrow> int list \<times> unique_fd" where
  "fd_reset fd u = (if ufd u \<ge> 0 \<and> ufd u \<noteq> fd then [ufd u] else [], u\<lparr>ufd := fd\<rparr>)"

definition fd_release :: "unique_fd \<Rightarrow> int \<times> unique_fd" where
  "fd_release u = (ufd u, u\<lparr>ufd := - 1\<rparr>)"

text \<open>The move constructor: the new object and what is left of the old one.\<close>

definition fd_move_new :: "unique_fd \<Rightarrow> unique_fd \<times> unique_fd" where
  "fd_move_new other = (case fd_release other of (fd, other') \<Rightarrow> (fd_make fd, other'))"

text \<open>Move assignment between two distinct objects.\<close>

definition fd_move :: "unique_fd \<Rightarrow> unique_fd \<Rightarrow> int list \<times> unique_fd \<times> unique_fd" where
  "fd_move other this =
     (let (fd, other') = fd_release other; (closed, this') = fd_reset fd this in (closed, this', other'))"

definition fd_destroy :: "unique_fd \<Rightarrow> int list" where
  "fd_destroy u = fst (fd_reset (- 1) u)"

section \<open>Programs that own descriptors\<close>

text \<open>
  The objects (a destroyed one leaves a slot that owns nothing), the open descriptors, those released to other owners, and whether some \<^verbatim>\<open>close\<close> was
  given a descriptor that is not open.
\<close>

record fd_world =
  fw_objects :: "unique_fd list"
  fw_open :: "int set"
  fw_released :: "int set"
  fw_bad_close :: bool

definition fw_empty :: fd_world where
  "fw_empty = \<lparr>fw_objects = [], fw_open = {}, fw_released = {}, fw_bad_close = False\<rparr>"

fun fw_close :: "int list \<Rightarrow> fd_world \<Rightarrow> fd_world" where
  "fw_close [] w = w"
| "fw_close (fd # fds) w =
     fw_close fds (w\<lparr>fw_open := fw_open w - {fd}, fw_bad_close := fw_bad_close w \<or> fd \<notin> fw_open w\<rparr>)"

datatype fd_op = Fd_new int | Fd_reset nat int | Fd_release nat | Fd_move_new nat | Fd_move nat nat | Fd_destroy nat

text \<open>A descriptor comes from the kernel: a negative number, or one that is not open.\<close>

definition fw_fresh :: "int \<Rightarrow> fd_world \<Rightarrow> bool" where
  "fw_fresh fd w \<longleftrightarrow> fd < 0 \<or> fd \<notin> fw_open w"

definition fw_obtain :: "int \<Rightarrow> fd_world \<Rightarrow> fd_world" where
  "fw_obtain fd w = w\<lparr>fw_open := (if fd \<ge> 0 then insert fd (fw_open w) else fw_open w)\<rparr>"

fun fd_apply :: "fd_op \<Rightarrow> fd_world \<Rightarrow> fd_world option" where
  "fd_apply (Fd_new fd) w =
     (if \<not> fw_fresh fd w then None
      else Some ((fw_obtain fd w)\<lparr>fw_objects := fw_objects w @ [fd_make fd]\<rparr>))"
| "fd_apply (Fd_reset i fd) w =
     (if \<not> (i < length (fw_objects w) \<and> (fw_fresh fd w \<or> fd = ufd (fw_objects w ! i))) then None
      else let (closed, u) = fd_reset fd (fw_objects w ! i)
           in Some (fw_close closed ((fw_obtain fd w)\<lparr>fw_objects := (fw_objects w)[i := u]\<rparr>)))"
| "fd_apply (Fd_release i) w =
     (if \<not> i < length (fw_objects w) then None
      else let (fd, u) = fd_release (fw_objects w ! i)
           in Some (w\<lparr>fw_objects := (fw_objects w)[i := u],
                      fw_released := (if fd \<ge> 0 then insert fd (fw_released w) else fw_released w)\<rparr>))"
| "fd_apply (Fd_move_new i) w =
     (if \<not> i < length (fw_objects w) then None
      else let (new, u) = fd_move_new (fw_objects w ! i)
           in Some (w\<lparr>fw_objects := (fw_objects w)[i := u] @ [new]\<rparr>))"
| "fd_apply (Fd_move i j) w =
     (if \<not> (i < length (fw_objects w) \<and> j < length (fw_objects w)) then None
      else if i = j then Some w
      else let (closed, this, other) = fd_move (fw_objects w ! i) (fw_objects w ! j)
           in Some (fw_close closed (w\<lparr>fw_objects := (fw_objects w)[j := this, i := other]\<rparr>)))"
| "fd_apply (Fd_destroy i) w =
     (if \<not> i < length (fw_objects w) then None
      else Some (fw_close (fd_destroy (fw_objects w ! i))
             (w\<lparr>fw_objects := (fw_objects w)[i := fd_default]\<rparr>)))"

fun fd_run :: "fd_op list \<Rightarrow> fd_world \<Rightarrow> fd_world option" where
  "fd_run [] w = Some w"
| "fd_run (op # ops) w = (case fd_apply op w of None \<Rightarrow> None | Some w \<Rightarrow> fd_run ops w)"

section \<open>Ownership\<close>

definition owns :: "nat \<Rightarrow> int \<Rightarrow> unique_fd list \<Rightarrow> bool" where
  "owns i fd us \<longleftrightarrow> i < length us \<and> ufd (us ! i) = fd \<and> fd \<ge> 0"

text \<open>Every open descriptor has one owner, or was released, and nothing else was ever closed.\<close>

definition fw_inv :: "fd_world \<Rightarrow> bool" where
  "fw_inv w \<longleftrightarrow>
     (\<forall>i j fd. owns i fd (fw_objects w) \<and> owns j fd (fw_objects w) \<longrightarrow> i = j)
   \<and> (\<forall>i fd. owns i fd (fw_objects w) \<longrightarrow> fd \<notin> fw_released w)
   \<and> (\<forall>fd. fd \<in> fw_open w \<longleftrightarrow> (\<exists>i. owns i fd (fw_objects w)) \<or> fd \<in> fw_released w)
   \<and> \<not> fw_bad_close w"

lemma owns_update:
  "owns k fd (us[i := u]) \<longleftrightarrow> (if k = i then i < length us \<and> ufd u = fd \<and> fd \<ge> 0 else owns k fd us)"
  by (auto simp: owns_def)

lemma owns_append: "owns k fd (us @ [u]) \<longleftrightarrow> owns k fd us \<or> (k = length us \<and> ufd u = fd \<and> fd \<ge> 0)"
  by (auto simp: owns_def nth_append)

lemmas fd_defs = fd_default_def fd_make_def fd_reset_def fd_release_def fd_move_new_def fd_move_def fd_destroy_def
  fw_fresh_def fw_obtain_def

lemma owns_self: "i < length us \<Longrightarrow> owns i fd us \<longleftrightarrow> ufd (us ! i) = fd \<and> fd \<ge> 0"
  by (simp add: owns_def)

lemma owns_less: "owns i fd us \<Longrightarrow> i < length us \<and> fd \<ge> 0"
  by (simp add: owns_def)

text \<open>The descriptors held by some object; where no two objects share one, replacing an object gives up its own.\<close>

definition held :: "unique_fd list \<Rightarrow> int set" where
  "held us = {fd. \<exists>i. owns i fd us}"

definition unshared :: "unique_fd list \<Rightarrow> bool" where
  "unshared us \<longleftrightarrow> (\<forall>i j fd. owns i fd us \<and> owns j fd us \<longrightarrow> i = j)"

lemma held_append: "held (us @ [u]) = held us \<union> {fd. fd = ufd u \<and> fd \<ge> 0}"
  by (auto simp: held_def owns_append)

lemma held_update:
  assumes "unshared us" "i < length us"
  shows "held (us[i := u]) = held us - {ufd (us ! i)} \<union> {fd. fd = ufd u \<and> fd \<ge> 0}"
proof -
  have "(\<exists>k. k \<noteq> i \<and> owns k fd us) \<longleftrightarrow> fd \<in> held us \<and> fd \<noteq> ufd (us ! i)" for fd
  proof
    assume "\<exists>k. k \<noteq> i \<and> owns k fd us"
    then obtain k where k: "k \<noteq> i" "owns k fd us" by blast
    with assms(1) have "\<not> owns i fd us" unfolding unshared_def by blast
    with k assms(2) show "fd \<in> held us \<and> fd \<noteq> ufd (us ! i)" by (auto simp: held_def owns_def)
  qed (auto simp: held_def owns_def)
  then show ?thesis using assms(2) by (auto simp: held_def owns_update split: if_splits)
qed

lemma held_self: "i < length us \<Longrightarrow> ufd (us ! i) \<ge> 0 \<Longrightarrow> ufd (us ! i) \<in> held us"
  unfolding held_def using owns_self [of i us] by blast

lemma held_nonneg: "fd \<in> held us \<Longrightarrow> fd \<ge> 0"
  by (auto simp: held_def owns_def)

lemma unshared_empty: "unshared us \<Longrightarrow> unshared (us[i := u\<lparr>ufd := - 1\<rparr>])"
  by (auto simp: unshared_def owns_update)

lemma fd_apply_open:
  assumes "unshared (fw_objects w)" "fw_open w = held (fw_objects w) \<union> fw_released w"
    and "held (fw_objects w) \<inter> fw_released w = {}" "fd_apply op w = Some w'"
  shows "fw_open w' = held (fw_objects w') \<union> fw_released w'"
proof -
  let ?us = "fw_objects w"
  have self: "if ufd (?us ! i) \<ge> 0 then ufd (?us ! i) \<in> held ?us \<and> ufd (?us ! i) \<notin> fw_released w
      else ufd (?us ! i) \<notin> held ?us" if "i < length ?us" for i
    using assms(3) held_self [of i ?us] held_nonneg [of "ufd (?us ! i)" ?us] that by auto
  have none: "{fd. fd = ufd (u\<lparr>ufd := - 1\<rparr>) \<and> fd \<ge> 0} = {}" "{fd. fd = ufd fd_default \<and> fd \<ge> 0} = {}" for u
    by (auto simp: fd_default_def)
  show ?thesis
  proof (cases op)
    case (Fd_new fd)
    with assms show ?thesis by (auto simp: fd_defs held_append split: if_splits)
  next
    case (Fd_reset i fd)
    define f where "f = ufd (?us ! i)"
    from Fd_reset assms(4) have i: "i < length ?us" and w': "fw_objects w' = ?us[i := (?us ! i)\<lparr>ufd := fd\<rparr>]"
      "fw_released w' = fw_released w" "fw_open w' = (fw_open w \<union> {g. g = fd \<and> g \<ge> 0}) - {g. g = f \<and> g \<ge> 0 \<and> g \<noteq> fd}"
      by (auto simp: fd_defs f_def split: if_splits)
    show ?thesis
      using self [OF i] assms(2) unfolding w' held_update [OF assms(1) i] f_def [symmetric] by (auto split: if_splits)
  next
    case (Fd_release i)
    define f where "f = ufd (?us ! i)"
    from Fd_release assms(4) have i: "i < length ?us" and w': "fw_objects w' = ?us[i := (?us ! i)\<lparr>ufd := - 1\<rparr>]"
      "fw_released w' = fw_released w \<union> {g. g = f \<and> g \<ge> 0}" "fw_open w' = fw_open w"
      by (auto simp: fd_defs f_def split: if_splits)
    show ?thesis
      using self [OF i] assms(2) unfolding w' held_update [OF assms(1) i] f_def [symmetric] none by (cases "f \<ge> 0") auto
  next
    case (Fd_move_new i)
    with assms held_self [of i ?us] held_nonneg [of _ ?us] show ?thesis
      by (auto simp: fd_defs held_update held_append split: if_splits)
  next
    case (Fd_move i j)
    show ?thesis
    proof (cases "i = j")
      case False
      let ?vs = "?us[i := (?us ! i)\<lparr>ufd := - 1\<rparr>]"
      define f g where "f = ufd (?us ! i)" "g = ufd (?us ! j)"
      from Fd_move False assms(4) have i: "i < length ?us" "j < length ?us"
        and w': "fw_objects w' = ?vs[j := (?us ! j)\<lparr>ufd := f\<rparr>]" "fw_released w' = fw_released w"
          "fw_open w' = fw_open w - {h. h = g \<and> h \<ge> 0 \<and> h \<noteq> f}"
        by (auto simp: fd_defs f_g_def list_update_swap split: if_splits)
      have "g \<ge> 0 \<Longrightarrow> g \<noteq> f"
        using assms(1) i False owns_self [OF i(1), of g] owns_self [OF i(2), of g] unfolding unshared_def f_g_def by metis
      with self [OF i(1)] self [OF i(2)] assms(2) False i(2) show ?thesis
        unfolding w' held_update [OF unshared_empty [OF assms(1)], of j i "?us ! i", unfolded length_list_update, OF i(2)]
          held_update [OF assms(1) i(1)] none f_g_def [symmetric] by (cases "f \<ge> 0"; cases "g \<ge> 0") (auto simp: f_g_def [symmetric])
    qed (use assms Fd_move in \<open>simp split: if_splits\<close>)
  next
    case (Fd_destroy i)
    define f where "f = ufd (?us ! i)"
    from Fd_destroy assms(4) have i: "i < length ?us" and w': "fw_objects w' = ?us[i := fd_default]"
      "fw_released w' = fw_released w" "fw_open w' = fw_open w - {g. g = f \<and> g \<ge> 0}"
      by (auto simp: fd_defs f_def split: if_splits)
    show ?thesis
      using self [OF i] assms(2) unfolding w' held_update [OF assms(1) i] f_def [symmetric] none by (cases "f \<ge> 0") auto
  qed
qed

lemma fd_apply_inv:
  assumes "fw_inv w" "fd_apply op w = Some w'"
  shows "fw_inv w'"
proof -
  have u: "\<And>i j fd. owns i fd (fw_objects w) \<Longrightarrow> owns j fd (fw_objects w) \<Longrightarrow> i = j"
    and r: "\<And>i fd. owns i fd (fw_objects w) \<Longrightarrow> fd \<notin> fw_released w"
    and o: "\<And>fd. fd \<in> fw_open w \<longleftrightarrow> (\<exists>i. owns i fd (fw_objects w)) \<or> fd \<in> fw_released w"
    and b: "\<not> fw_bad_close w"
    using assms(1) unfolding fw_inv_def by blast+
  have k: "owns k (ufd (fw_objects w ! i)) (fw_objects w) \<longleftrightarrow> k = i"
    if "i < length (fw_objects w)" "ufd (fw_objects w ! i) \<ge> 0" for k i
    using u [of k "ufd (fw_objects w ! i)" i] that by (auto simp: owns_self)
  have k': "ufd (fw_objects w ! i) \<notin> fw_released w" if "i < length (fw_objects w)" "ufd (fw_objects w ! i) \<ge> 0" for i
    using r [of i] that by (simp add: owns_self)
  note s = fd_defs owns_update owns_append owns_self o b k k' r
  show ?thesis
    unfolding fw_inv_def
  proof (intro conjI allI impI; (elim conjE)?)
    show "i = j" if "owns i fd (fw_objects w')" "owns j fd (fw_objects w')" for i j fd
      using assms(2) that by (cases op; auto simp: s split: if_splits intro: u dest: owns_less)
    show "fd \<notin> fw_released w'" if "owns i fd (fw_objects w')" for i fd
    proof (cases "w' = w")
      case False
      with assms(2) that show ?thesis by (cases op; auto simp: s split: if_splits dest: owns_less)
    qed (use that r in blast)
    show "(fd \<in> fw_open w') = ((\<exists>i. owns i fd (fw_objects w')) \<or> fd \<in> fw_released w')" for fd
      using fd_apply_open [OF _ _ _ assms(2)] u r o by (fastforce simp: unshared_def held_def)
    show "\<not> fw_bad_close w'"
    proof (cases "w' = w")
      case False
      with assms(2) show ?thesis by (cases op; auto simp: s split: if_splits)
    qed (use b in blast)
  qed
qed

lemma fd_run_inv: "fw_inv w \<Longrightarrow> fd_run ops w = Some w' \<Longrightarrow> fw_inv w'"
  by (induction ops w arbitrary: w' rule: fd_run.induct) (auto split: option.splits intro: fd_apply_inv)

lemma fw_empty_inv: "fw_inv fw_empty"
  by (simp add: fw_inv_def fw_empty_def owns_def)

text \<open>
  C37. Descriptors are owned: whatever sequence of constructions, resets, releases, moves and
  destructions a program performs on its \<^verbatim>\<open>UniqueFd\<close> objects, no \<^verbatim>\<open>close\<close> is ever given a descriptor
  that is not open, no two objects hold the same descriptor, and a descriptor is open exactly while some
  object holds it or after it was released: none is closed twice and none leaks.
\<close>

theorem fd_ownership:
  assumes "fd_run ops fw_empty = Some w"
  shows "\<not> fw_bad_close w
    \<and> (\<forall>i j. i < length (fw_objects w) \<and> j < length (fw_objects w) \<and> ufd (fw_objects w ! i) = ufd (fw_objects w ! j)
         \<and> ufd (fw_objects w ! i) \<ge> 0 \<longrightarrow> i = j)
    \<and> fw_open w = {fd. fd \<ge> 0 \<and> fd \<in> ufd ` set (fw_objects w)} \<union> fw_released w"
proof -
  have i: "fw_inv w" by (rule fd_run_inv [OF fw_empty_inv assms])
  then have o: "fd \<in> fw_open w \<longleftrightarrow> fd \<ge> 0 \<and> fd \<in> ufd ` set (fw_objects w) \<or> fd \<in> fw_released w" for fd
    by (auto simp: fw_inv_def owns_def in_set_conv_nth image_iff Bex_def)
  have "fw_open w = {fd. fd \<ge> 0 \<and> fd \<in> ufd ` set (fw_objects w)} \<union> fw_released w" by (rule set_eqI) (simp add: o)
  then show ?thesis using i by (auto simp: fw_inv_def owns_def)
qed

theorem fd_ownership_witness:
  "\<exists>w. fd_run [Fd_new 3, Fd_new 4, Fd_move 0 1, Fd_reset 0 5, Fd_release 0, Fd_destroy 1] fw_empty = Some w
     \<and> fw_open w = {5} \<and> \<not> fw_bad_close w"
proof -
  let ?ops = "[Fd_new 3, Fd_new 4, Fd_move 0 1, Fd_reset 0 5, Fd_release 0, Fd_destroy 1]"
  obtain w where w: "fd_run ?ops fw_empty = Some w" "fw_open w = {5}"
    by (simp add: fd_defs fw_empty_def insert_commute [of 5 3])
  with fd_ownership [OF w(1)] show ?thesis by blast
qed

end
