(* ===== verification/Client.thy ===== *)
theory Client
  imports Connection Config UniqueFd
begin

text \<open>
  The blocking client (\<^verbatim>\<open>client/cache_client.h\<close>, \<^verbatim>\<open>client/cache_client.cpp\<close>). The socket is part of its
  state as the answers \<^verbatim>\<open>send\<close> and \<^verbatim>\<open>recv\<close> will give, the bytes taken so far and the descriptors closed.
  A call that needs one more answer than the script has is \<open>None\<close>: it blocks. The text of an error code,
  \<^verbatim>\<open>std::error_code::message\<close>, is the argument \<open>strerror\<close>.
\<close>

section \<open>State\<close>

record cache_result =
  cr_status :: status
  cr_value :: bytes
  cr_error :: string

definition new_cache_result :: cache_result where
  "new_cache_result = \<lparr>cr_status = Status_kInternalError, cr_value = [], cr_error = []\<rparr>"

definition cr_ok :: "cache_result \<Rightarrow> bool" where
  "cr_ok r \<longleftrightarrow> cr_error r = []"

definition cr_found :: "cache_result \<Rightarrow> bool" where
  "cr_found r \<longleftrightarrow> cr_ok r \<and> cr_status r = Status_kOk"

record stats_result =
  sr_stats :: stats_snapshot
  sr_error :: string

definition new_stats_result :: stats_result where
  "new_stats_result = \<lparr>sr_stats = empty_snapshot, sr_error = []\<rparr>"

definition sr_ok :: "stats_result \<Rightarrow> bool" where
  "sr_ok r \<longleftrightarrow> sr_error r = []"

record network =
  net_send :: "send_outcome list"
  net_recv :: "recv_outcome list"
  net_sent :: bytes
  net_closed :: "int list"

record cache_client =
  cl_socket_path :: string
  cl_fd :: unique_fd
  cl_next_request_id :: u64
  cl_timeout_ms :: int
  cl_in_buf :: bytes
  cl_out_buf :: bytes
  cl_net :: network

definition new_cache_client :: "string \<Rightarrow> network \<Rightarrow> cache_client" where
  "new_cache_client path net = \<lparr>cl_socket_path = path, cl_fd = fd_default, cl_next_request_id = 1,
     cl_timeout_ms = 5000, cl_in_buf = [], cl_out_buf = [], cl_net = net\<rparr>"

definition connected :: "cache_client \<Rightarrow> bool" where
  "connected c \<longleftrightarrow> fd_valid (cl_fd c)"

definition set_timeout_ms :: "int \<Rightarrow> cache_client \<Rightarrow> cache_client" where
  "set_timeout_ms timeout_ms c = c\<lparr>cl_timeout_ms := timeout_ms\<rparr>"

definition close_fds :: "int list \<Rightarrow> cache_client \<Rightarrow> cache_client" where
  "close_fds fds c = c\<lparr>cl_net := (cl_net c)\<lparr>net_closed := net_closed (cl_net c) @ fds\<rparr>\<rparr>"

definition errno_message :: "(errno \<Rightarrow> string) \<Rightarrow> string \<Rightarrow> errno \<Rightarrow> string" where
  "errno_message strerror what e = what @ '': '' @ strerror e"

section \<open>Connecting\<close>

text \<open>The answers of the system calls of \<^verbatim>\<open>connect\<close>, and the error code of the one that fails.\<close>

record connect_answers =
  ca_socket :: int
  ca_rcvtimeo :: bool
  ca_sndtimeo :: bool
  ca_connect :: bool
  ca_errno :: errno

definition client_connect :: "(errno \<Rightarrow> string) \<Rightarrow> connect_answers \<Rightarrow> cache_client \<Rightarrow> cache_client \<times> string" where
  "client_connect strerror answers c =
     (if length (cl_socket_path c) \<ge> sizeof_sun_path then (c, ''socket path too long for AF_UNIX'')
      else let fd = fd_make (ca_socket answers) in
      if \<not> fd_valid fd
      then (close_fds (fd_destroy fd) c, errno_message strerror ''socket'' (ca_errno answers))
      else if cl_timeout_ms c > 0 \<and> (\<not> ca_rcvtimeo answers \<or> \<not> ca_sndtimeo answers)
      then (close_fds (fd_destroy fd) c, errno_message strerror ''setsockopt(SO_*TIMEO)'' (ca_errno answers))
      else if \<not> ca_connect answers
      then (close_fds (fd_destroy fd) c,
            errno_message strerror (''connect('' @ cl_socket_path c @ '')'') (ca_errno answers))
      else let (closed, this, other) = fd_move fd (cl_fd c);
               c = (close_fds closed c)\<lparr>cl_fd := this, cl_in_buf := []\<rparr>
           in (close_fds (fd_destroy other) c, []))"

definition disconnect :: "cache_client \<Rightarrow> cache_client" where
  "disconnect c = (let (closed, u) = fd_reset (- 1) (cl_fd c) in (close_fds closed c)\<lparr>cl_fd := u, cl_in_buf := []\<rparr>)"

section \<open>Requests and responses\<close>

text \<open>The error text, the bytes the socket took and the answers not used.\<close>

fun send_loop :: "(errno \<Rightarrow> string) \<Rightarrow> bytes \<Rightarrow> send_outcome list \<Rightarrow> (string \<times> bytes \<times> send_outcome list) option" where
  "send_loop strerror frame answers =
     (if frame = [] then Some ([], [], answers)
      else case answers of
        [] \<Rightarrow> None
      | Sent k # answers' \<Rightarrow>
          let n = min k (length frame) in
          if n > 0
          then (case send_loop strerror (drop n frame) answers' of
                  None \<Rightarrow> None
                | Some (e, sent, rest) \<Rightarrow> Some (e, take n frame @ sent, rest))
          else Some (errno_message strerror ''send'' EOTHER, [], answers')
      | Send_failed EINTR # answers' \<Rightarrow> send_loop strerror frame answers'
      | Send_failed EAGAIN # answers' \<Rightarrow> Some (''send timed out'', [], answers')
      | Send_failed EOTHER # answers' \<Rightarrow> Some (errno_message strerror ''send'' EOTHER, [], answers'))"

declare send_loop.simps [simp del]

definition send_all :: "(errno \<Rightarrow> string) \<Rightarrow> bytes \<Rightarrow> cache_client \<Rightarrow> (cache_client \<times> string) option" where
  "send_all strerror frame c =
     (case send_loop strerror frame (net_send (cl_net c)) of
        None \<Rightarrow> None
      | Some (e, sent, rest) \<Rightarrow>
          Some (c\<lparr>cl_net := (cl_net c)\<lparr>net_send := rest, net_sent := net_sent (cl_net c) @ sent\<rparr>\<rparr>, e))"

definition kClientLimits :: limits where
  "kClientLimits = \<lparr>max_key_bytes = kMaxKeyBytes, max_value_bytes = kMaxValueBytes\<rparr>"

definition kClientChunkBytes :: nat where "kClientChunkBytes = 16 * 1024"

definition check_response :: "u64 \<Rightarrow> opcode \<Rightarrow> response \<Rightarrow> string" where
  "check_response expected_id expected_opcode out =
     (if resp_request_id out \<noteq> expected_id
      then ''response correlation failure: expected request id '' @ to_string (unat expected_id) @ '', got ''
             @ to_string (unat (resp_request_id out))
      else if resp_opcode out \<noteq> expected_opcode
      then ''response opcode mismatch: expected '' @ opcode_to_string expected_opcode @ '', got ''
             @ opcode_to_string (resp_opcode out)
      else [])"

definition keep_answers :: "recv_outcome list \<Rightarrow> cache_client \<Rightarrow> cache_client" where
  "keep_answers answers c = c\<lparr>cl_net := (cl_net c)\<lparr>net_recv := answers\<rparr>\<rparr>"

fun receive_loop ::
  "(errno \<Rightarrow> string) \<Rightarrow> u64 \<Rightarrow> opcode \<Rightarrow> recv_outcome list \<Rightarrow> response \<Rightarrow> cache_client
     \<Rightarrow> (cache_client \<times> string \<times> response) option" where
  "receive_loop strerror expected_id expected_opcode answers out c =
     (let (result, out) = deserialize_response (cl_in_buf c) kClientLimits out in
      if pr_status result = ParseStatus_kComplete
      then Some (keep_answers answers (c\<lparr>cl_in_buf := drop (pr_consumed result) (cl_in_buf c)\<rparr>),
                 check_response expected_id expected_opcode out, out)
      else if pr_status result = ParseStatus_kMalformed
      then Some (disconnect (keep_answers answers c),
                 ''malformed response frame: '' @ parse_error_to_string (pr_error result), out)
      else (case answers of
        [] \<Rightarrow> None
      | Received bs # answers' \<Rightarrow>
          let chunk = take kClientChunkBytes bs in
          if chunk \<noteq> []
          then receive_loop strerror expected_id expected_opcode answers' out (c\<lparr>cl_in_buf := cl_in_buf c @ chunk\<rparr>)
          else Some (disconnect (keep_answers answers' c), ''server closed the connection'', out)
      | Recv_failed EINTR # answers' \<Rightarrow> receive_loop strerror expected_id expected_opcode answers' out c
      | Recv_failed EAGAIN # answers' \<Rightarrow> Some (disconnect (keep_answers answers' c), ''receive timed out'', out)
      | Recv_failed EOTHER # answers' \<Rightarrow>
          Some (disconnect (keep_answers answers' c), errno_message strerror ''recv'' EOTHER, out)))"

declare receive_loop.simps [simp del]

definition receive_response ::
  "(errno \<Rightarrow> string) \<Rightarrow> u64 \<Rightarrow> opcode \<Rightarrow> response \<Rightarrow> cache_client \<Rightarrow> (cache_client \<times> string \<times> response) option" where
  "receive_response strerror expected_id expected_opcode out c =
     receive_loop strerror expected_id expected_opcode (net_recv (cl_net c)) out c"

definition client_execute ::
  "(errno \<Rightarrow> string) \<Rightarrow> opcode \<Rightarrow> bytes \<Rightarrow> bytes \<Rightarrow> cache_client \<Rightarrow> (cache_client \<times> cache_result) option" where
  "client_execute strerror opcode key value c =
     (let result = new_cache_result in
      if \<not> connected c then Some (c, result\<lparr>cr_error := ''not connected''\<rparr>)
      else if length key > unat kMaxKeyBytes then Some (c, result\<lparr>cr_error := ''key exceeds protocol maximum''\<rparr>)
      else if length value > unat kMaxValueBytes
      then Some (c, result\<lparr>cr_error := ''value exceeds protocol maximum''\<rparr>)
      else let request = \<lparr>req_opcode = opcode, req_request_id = cl_next_request_id c, req_key = key, req_value = value\<rparr>;
               c = c\<lparr>cl_next_request_id := cl_next_request_id c + 1\<rparr>;
               c = c\<lparr>cl_out_buf := serialize_request_into request []\<rparr>
           in case send_all strerror (cl_out_buf c) c of
                None \<Rightarrow> None
              | Some (c, error) \<Rightarrow>
                  if error \<noteq> [] then Some (c, result\<lparr>cr_error := error\<rparr>)
                  else (case receive_response strerror (req_request_id request) (req_opcode request) default_response c of
                          None \<Rightarrow> None
                        | Some (c, error, response) \<Rightarrow>
                            if error \<noteq> [] then Some (c, result\<lparr>cr_error := error\<rparr>)
                            else Some (c, result\<lparr>cr_status := resp_status response, cr_value := resp_value response\<rparr>)))"

definition client_get :: "(errno \<Rightarrow> string) \<Rightarrow> bytes \<Rightarrow> cache_client \<Rightarrow> (cache_client \<times> cache_result) option" where
  "client_get strerror key c = client_execute strerror Opcode_kGet key [] c"

definition client_put ::
  "(errno \<Rightarrow> string) \<Rightarrow> bytes \<Rightarrow> bytes \<Rightarrow> cache_client \<Rightarrow> (cache_client \<times> cache_result) option" where
  "client_put strerror key value c = client_execute strerror Opcode_kPut key value c"

definition client_erase :: "(errno \<Rightarrow> string) \<Rightarrow> bytes \<Rightarrow> cache_client \<Rightarrow> (cache_client \<times> cache_result) option" where
  "client_erase strerror key c = client_execute strerror Opcode_kDelete key [] c"

definition client_ping :: "(errno \<Rightarrow> string) \<Rightarrow> cache_client \<Rightarrow> (cache_client \<times> cache_result) option" where
  "client_ping strerror c = client_execute strerror Opcode_kPing [] [] c"

definition client_clear :: "(errno \<Rightarrow> string) \<Rightarrow> cache_client \<Rightarrow> (cache_client \<times> cache_result) option" where
  "client_clear strerror c = client_execute strerror Opcode_kClear [] [] c"

definition client_stats :: "(errno \<Rightarrow> string) \<Rightarrow> cache_client \<Rightarrow> (cache_client \<times> stats_result) option" where
  "client_stats strerror c =
     (let result = new_stats_result in
      case client_execute strerror Opcode_kStats [] [] c of
        None \<Rightarrow> None
      | Some (c, raw) \<Rightarrow>
          if \<not> cr_ok raw then Some (c, result\<lparr>sr_error := cr_error raw\<rparr>)
          else if cr_status raw \<noteq> Status_kOk
          then Some (c, result\<lparr>sr_error := ''server returned '' @ status_to_string (cr_status raw)\<rparr>)
          else (case deserialize_stats (cr_value raw) (sr_stats result) of
                  (True, stats) \<Rightarrow> Some (c, result\<lparr>sr_stats := stats\<rparr>)
                | (False, stats) \<Rightarrow> Some (c, result\<lparr>sr_stats := stats, sr_error := ''malformed STATS payload''\<rparr>)))"

end
