(* ===== verification/ClientProperties.thy ===== *)
theory ClientProperties
  imports Client
begin

text \<open>
  What a call of the client sends and returns, for every way the kernel cuts the two streams: a frame is
  sent whole or an error is reported, a response is read from any sequence of chunks, and a result is the
  response to the request just sent. A send that fails half way leaves the client connected.
\<close>

section \<open>Sending\<close>

text \<open>A script of sends that all take something, and how many of them there are.\<close>

fun accepting :: "send_outcome list \<Rightarrow> bool" where
  "accepting [] = True"
| "accepting (Sent k # answers) = (k > 0 \<and> accepting answers)"
| "accepting (Send_failed e # answers) = (e = EINTR \<and> accepting answers)"

fun sends :: "send_outcome list \<Rightarrow> nat" where
  "sends [] = 0"
| "sends (Sent k # answers) = Suc (sends answers)"
| "sends (Send_failed e # answers) = sends answers"

lemma errno_message_nonempty [simp]: "errno_message strerror what e \<noteq> []"
  by (simp add: errno_message_def)

lemma send_loop_total:
  "accepting answers \<Longrightarrow> length frame \<le> sends answers \<Longrightarrow>
     \<exists>rest. send_loop strerror frame answers = Some ([], frame, rest)"
proof (induction strerror frame answers rule: send_loop.induct)
  case (1 strerror frame answers)
  show ?case
  proof (cases "frame = []")
    case True
    then show ?thesis by (simp add: send_loop.simps)
  next
    case False
    then obtain a as where a: "answers = a # as" using "1.prems" by (cases answers) auto
    show ?thesis
    proof (cases a)
      case (Sent k)
      then have "0 < min k (length frame)" using "1.prems" a False by simp
      with 1 False a Sent show ?thesis by (fastforce simp: send_loop.simps [of _ frame])
    next
      case (Send_failed e)
      with 1 False a show ?thesis by (fastforce simp: send_loop.simps [of _ frame])
    qed
  qed
qed

text \<open>Exactly the whole frame is sent without an error, and a proper prefix of it with one.\<close>

lemma send_loop_sent:
  "send_loop strerror frame answers = Some (e, sent, rest) \<Longrightarrow>
     (\<exists>n. sent = take n frame \<and> (if e = [] then n = length frame else n < length frame))"
proof (induction strerror frame answers arbitrary: e sent rest rule: send_loop.induct)
  case (1 strerror frame answers)
  show ?case
  proof (cases "frame = []")
    case True
    with "1.prems" show ?thesis by (auto simp: send_loop.simps)
  next
    case False
    then obtain a as where a: "answers = a # as"
      using "1.prems" by (cases answers) (auto simp: send_loop.simps [of _ frame])
    show ?thesis
    proof (cases a)
      case (Sent k)
      let ?n = "min k (length frame)"
      show ?thesis
      proof (cases "?n > 0")
        case True
        then obtain sent' where l: "send_loop strerror (drop ?n frame) as = Some (e, sent', rest)"
          and s: "sent = take ?n frame @ sent'"
          using "1.prems" a Sent False by (auto simp: send_loop.simps [of _ frame] Let_def split: option.splits)
        from "1.IH"(1) [OF False a Sent refl True l] obtain m where m: "sent' = take m (drop ?n frame)"
          "if e = [] then m = length (drop ?n frame) else m < length (drop ?n frame)" by blast
        then have "sent = take (?n + m) frame" by (simp only: s take_add)
        moreover have "if e = [] then ?n + m = length frame else ?n + m < length frame"
          using m(2) by (auto split: if_splits)
        ultimately show ?thesis by blast
      next
        case z: False
        with "1.prems" a Sent False show ?thesis by (auto simp: send_loop.simps [of _ frame])
      qed
    next
      case (Send_failed e')
      with 1 False a show ?thesis by (cases e') (fastforce simp: send_loop.simps [of _ frame])+
    qed
  qed
qed

section \<open>Receiving\<close>

text \<open>The bytes a script of \<^verbatim>\<open>recv\<close> answers delivers up to its first end or failure.\<close>

fun delivered :: "recv_outcome list \<Rightarrow> bytes" where
  "delivered [] = []"
| "delivered (Received bs # answers) = (if bs = [] then [] else take kClientChunkBytes bs @ delivered answers)"
| "delivered (Recv_failed e # answers) = (if e = EINTR then delivered answers else [])"

lemma kClientChunkBytes_pos: "0 < kClientChunkBytes"
  by (simp add: kClientChunkBytes_def)

lemma keep_answers_fields [simp]:
  "cl_in_buf (keep_answers a c) = cl_in_buf c" "cl_fd (keep_answers a c) = cl_fd c"
  "net_recv (cl_net (keep_answers a c)) = a" "net_sent (cl_net (keep_answers a c)) = net_sent (cl_net c)"
  "net_closed (cl_net (keep_answers a c)) = net_closed (cl_net c)"
  by (simp_all add: keep_answers_def)

text \<open>A complete response at the head of the stream is returned, whatever the chunks.\<close>

lemma receive_loop_frame:
  assumes "response_ok kClientLimits r" "cl_in_buf c @ delivered answers = serialize_response r @ tail"
  shows "\<exists>c'. receive_loop strerror i op answers out c = Some (c', check_response i op r, r)
    \<and> cl_fd c' = cl_fd c \<and> cl_in_buf c' @ delivered (net_recv (cl_net c')) = tail
    \<and> net_sent (cl_net c') = net_sent (cl_net c)"
  using assms(2)
proof (induction answers arbitrary: c)
  case (Cons a answers c)
  let ?f = "serialize_response r"
  show ?case
  proof (cases "length ?f \<le> length (cl_in_buf c)")
    case True
    then have "take (length ?f) (cl_in_buf c) = ?f"
      using arg_cong [OF Cons.prems, of "take (length ?f)"] by simp
    then obtain rest where rest: "cl_in_buf c = ?f @ rest" by (metis append_take_drop_id)
    then have "rest @ delivered (a # answers) = tail" using Cons.prems by simp
    note rest = rest this
    show ?thesis using rest(2)
      by (simp add: rest(1) receive_loop.simps [of _ _ _ "a # answers"] deserialize_serialize_response [OF assms(1)] pr_complete_def)
  next
    case False
    then have "cl_in_buf c = take (length (cl_in_buf c)) ?f" and ne: "delivered (a # answers) \<noteq> []"
      using arg_cong [OF Cons.prems, of "take (length (cl_in_buf c))"] arg_cong [OF Cons.prems, of length]
      by (simp, auto)
    then have n: "deserialize_response (cl_in_buf c) kClientLimits out = (pr_need_more, out)"
      using deserialize_response_prefix [OF assms(1), of "length (cl_in_buf c)" out] False by simp
    show ?thesis
    proof (cases a)
      case (Received bs)
      with ne have bs: "take kClientChunkBytes bs \<noteq> []" using kClientChunkBytes_pos by (auto split: if_splits)
      then have "receive_loop strerror i op (a # answers) out c
          = receive_loop strerror i op answers out (c\<lparr>cl_in_buf := cl_in_buf c @ take kClientChunkBytes bs\<rparr>)"
        using Received by (subst receive_loop.simps) (simp add: n pr_need_more_def Let_def)
      moreover have "bs \<noteq> []" using bs by auto
      ultimately show ?thesis
        using Cons.IH [of "c\<lparr>cl_in_buf := cl_in_buf c @ take kClientChunkBytes bs\<rparr>"] Cons.prems Received by simp
    next
      case (Recv_failed e)
      with ne have "e = EINTR" by (simp split: if_splits)
      moreover from this have "receive_loop strerror i op (a # answers) out c = receive_loop strerror i op answers out c"
        using Recv_failed by (subst receive_loop.simps) (simp add: n pr_need_more_def Let_def)
      ultimately show ?thesis using Cons.IH [of c] Cons.prems Recv_failed by simp
    qed
  qed
qed (simp add: receive_loop.simps deserialize_serialize_response [OF assms(1)] pr_complete_def)

lemma check_response_Nil: "check_response i op r = [] \<longleftrightarrow> resp_request_id r = i \<and> resp_opcode r = op"
  by (simp add: check_response_def)

text \<open>A response returned without an error is the first frame of the stream, and answers the request.\<close>

lemma receive_loop_sound:
  "receive_loop strerror i op answers out c = Some (c', [], r) \<Longrightarrow>
     resp_request_id r = i \<and> resp_opcode r = op \<and> response_ok kClientLimits r \<and> cl_fd c' = cl_fd c
   \<and> net_sent (cl_net c') = net_sent (cl_net c)
   \<and> cl_in_buf c @ delivered answers = serialize_response r @ cl_in_buf c' @ delivered (net_recv (cl_net c'))"
proof (induction strerror i op answers out c rule: receive_loop.induct)
  case (1 strerror i op answers out c)
  obtain res out' where d: "deserialize_response (cl_in_buf c) kClientLimits out = (res, out')" by fastforce
  have res: "res \<in> {pr_need_more} \<union> range pr_complete \<union> range pr_malformed"
    using deserialize_response_outcome [of "cl_in_buf c" kClientLimits out] d by simp
  then consider (full) n where "res = pr_complete n" | (bad) e where "res = pr_malformed e" | (wait) "res = pr_need_more"
    by blast
  then show ?case
  proof cases
    case full
    note s = deserialize_response_sound [OF d [unfolded full]]
    have "cl_in_buf c = serialize_response out' @ drop n (cl_in_buf c)" using s by (metis append_take_drop_id)
    with "1.prems" s show ?thesis
      by (simp add: receive_loop.simps [of _ _ _ answers] d full pr_complete_def check_response_Nil) auto
  next
    case bad
    with "1.prems" show ?thesis by (simp add: receive_loop.simps [of _ _ _ answers] d pr_malformed_def)
  next
    case wait
    note st = "1.prems" [unfolded receive_loop.simps [of _ _ _ answers] d wait pr_need_more_def, simplified]
    from st obtain a as where a: "answers = a # as" by (cases answers) simp_all
    have w: "pr_status res \<noteq> ParseStatus_kComplete" "pr_status res \<noteq> ParseStatus_kMalformed"
      by (simp_all add: wait pr_need_more_def)
    show ?thesis
    proof (cases a)
      case (Received bs)
      show ?thesis
      proof (cases "take kClientChunkBytes bs = []")
        case True
        with st a Received show ?thesis by simp
      next
        case False
        then have "bs \<noteq> []" by auto
        with "1.IH"(1) [OF d [symmetric] refl w a Received refl False] st a Received False show ?thesis by simp
      qed
    next
      case (Recv_failed e)
      show ?thesis
      proof (cases e)
        case EINTR
        with "1.IH"(2) [OF d [symmetric] refl w a] st a Recv_failed show ?thesis by simp
      qed (use st a Recv_failed in simp_all)
    qed
  qed
qed

section \<open>Properties\<close>

definition request_of :: "opcode \<Rightarrow> bytes \<Rightarrow> bytes \<Rightarrow> cache_client \<Rightarrow> request" where
  "request_of op key value c =
     \<lparr>req_opcode = op, req_request_id = cl_next_request_id c, req_key = key, req_value = value\<rparr>"

definition fits_protocol :: "bytes \<Rightarrow> bytes \<Rightarrow> bool" where
  "fits_protocol key value \<longleftrightarrow> length key \<le> unat kMaxKeyBytes \<and> length value \<le> unat kMaxValueBytes"

text \<open>The first half of a call: the request goes out, whole or in part.\<close>

lemma client_execute_send:
  assumes "connected c" "fits_protocol key value"
  shows "client_execute strerror op key value c =
    (let req = request_of op key value c;
         d = c\<lparr>cl_next_request_id := cl_next_request_id c + 1, cl_out_buf := serialize_request req\<rparr>
     in case send_loop strerror (serialize_request req) (net_send (cl_net c)) of
          None \<Rightarrow> None
        | Some (e, sent, rest) \<Rightarrow>
            let d = d\<lparr>cl_net := (cl_net c)\<lparr>net_send := rest, net_sent := net_sent (cl_net c) @ sent\<rparr>\<rparr> in
            if e \<noteq> [] then Some (d, new_cache_result\<lparr>cr_error := e\<rparr>)
            else (case receive_loop strerror (req_request_id req) op (net_recv (cl_net c)) default_response d of
                    None \<Rightarrow> None
                  | Some (d, e, r) \<Rightarrow>
                      if e \<noteq> [] then Some (d, new_cache_result\<lparr>cr_error := e\<rparr>)
                      else Some (d, new_cache_result\<lparr>cr_status := resp_status r, cr_value := resp_value r\<rparr>)))"
  using assms
  by (simp add: client_execute_def fits_protocol_def request_of_def send_all_def receive_response_def
      serialize_request_into_eq serialize_request_eq Let_def split: option.split prod.split)

lemma client_call:
  assumes "connected c" "fits_protocol key value"
    and "accepting (net_send (cl_net c))" "length (serialize_request (request_of op key value c)) \<le> sends (net_send (cl_net c))"
    and "response_ok kClientLimits r" "resp_request_id r = cl_next_request_id c" "resp_opcode r = op"
    and "cl_in_buf c @ delivered (net_recv (cl_net c)) = serialize_response r @ tail"
  shows "\<exists>c'. client_execute strerror op key value c
      = Some (c', \<lparr>cr_status = resp_status r, cr_value = resp_value r, cr_error = []\<rparr>)
    \<and> net_sent (cl_net c') = net_sent (cl_net c) @ serialize_request (request_of op key value c)
    \<and> cl_in_buf c' @ delivered (net_recv (cl_net c')) = tail \<and> connected c'"
proof -
  from send_loop_total [OF assms(3,4), of strerror] obtain rest where
    s: "send_loop strerror (serialize_request (request_of op key value c)) (net_send (cl_net c))
      = Some ([], serialize_request (request_of op key value c), rest)" by blast
  let ?d = "c\<lparr>cl_next_request_id := cl_next_request_id c + 1, cl_out_buf := serialize_request (request_of op key value c),
    cl_net := (cl_net c)\<lparr>net_send := rest, net_sent := net_sent (cl_net c) @ serialize_request (request_of op key value c)\<rparr>\<rparr>"
  have "cl_in_buf ?d @ delivered (net_recv (cl_net c)) = serialize_response r @ tail" using assms(8) by simp
  from receive_loop_frame [OF assms(5) this, of strerror "cl_next_request_id c" op default_response]
  obtain c' where "receive_loop strerror (cl_next_request_id c) op (net_recv (cl_net c)) default_response ?d
      = Some (c', [], r)" "cl_fd c' = cl_fd c" "cl_in_buf c' @ delivered (net_recv (cl_net c')) = tail"
    "net_sent (cl_net c') = net_sent (cl_net c) @ serialize_request (request_of op key value c)"
    using assms(6,7) by (auto simp: check_response_def)
  with assms(1) s show ?thesis
    by (simp add: client_execute_send [OF assms(1,2)] Let_def request_of_def new_cache_result_def connected_def)
qed

definition example_reply :: response where
  "example_reply = \<lparr>resp_opcode = Opcode_kPing, resp_status = Status_kOk, resp_request_id = 1, resp_value = []\<rparr>"

definition example_client :: cache_client where
  "example_client = (new_cache_client ''/tmp/s'' \<lparr>net_send = Send_failed EINTR # replicate 24 (Sent 1),
     net_recv = [Received (take 10 (serialize_response example_reply)), Recv_failed EINTR,
       Received (drop 10 (serialize_response example_reply) @ [7])],
     net_sent = [], net_closed = []\<rparr>)\<lparr>cl_fd := fd_make 3\<rparr>"

lemma accepting_replicate [simp]: "accepting (replicate n (Sent k)) \<longleftrightarrow> n = 0 \<or> k > 0" "sends (replicate n (Sent k)) = n"
  by (induction n) auto

lemma example_client_ready:
  "connected example_client" "fits_protocol [] []" "accepting (net_send (cl_net example_client))"
  "length (serialize_request (request_of Opcode_kPing [] [] example_client)) \<le> sends (net_send (cl_net example_client))"
  "response_ok kClientLimits example_reply" "resp_request_id example_reply = cl_next_request_id example_client"
  "resp_opcode example_reply = Opcode_kPing"
  "cl_in_buf example_client @ delivered (net_recv (cl_net example_client)) = serialize_response example_reply @ [7]"
proof -
  have "length (serialize_response example_reply) = 24" by (simp add: example_reply_def kHeaderSize_def)
  moreover from this have "serialize_response example_reply \<noteq> []" by (metis list.size(3) zero_neq_numeral)
  ultimately show "cl_in_buf example_client @ delivered (net_recv (cl_net example_client)) = serialize_response example_reply @ [7]"
    by (auto simp: example_client_def new_cache_client_def kClientChunkBytes_def)
qed (simp_all add: example_client_def example_reply_def new_cache_client_def connected_def fd_valid_def fd_make_def
    fits_protocol_def request_of_def response_ok_def kHeaderSize_def)

text \<open>
  A call of the client is a round trip, however the kernel cuts the streams: if every send takes
  something, as often as the frame has bytes, and the response to the request is at the head of the
  incoming stream, in whatever chunks and with whatever interrupts, the call returns its status and
  value, has sent exactly the request frame, and leaves the rest of the stream and the connection.
\<close>

theorem client_call_roundtrip:
  assumes "connected c" "fits_protocol key value"
    and "accepting (net_send (cl_net c))" "length (serialize_request (request_of op key value c)) \<le> sends (net_send (cl_net c))"
    and "response_ok kClientLimits r" "resp_request_id r = cl_next_request_id c" "resp_opcode r = op"
    and "cl_in_buf c @ delivered (net_recv (cl_net c)) = serialize_response r @ tail"
  shows "\<exists>c'. client_execute strerror op key value c
      = Some (c', \<lparr>cr_status = resp_status r, cr_value = resp_value r, cr_error = []\<rparr>)
    \<and> net_sent (cl_net c') = net_sent (cl_net c) @ serialize_request (request_of op key value c)
    \<and> cl_in_buf c' @ delivered (net_recv (cl_net c')) = tail \<and> connected c'"
  by (rule client_call [OF assms])

theorem client_call_roundtrip_witness:
  "\<exists>c'. client_execute (\<lambda>_. ''error'') Opcode_kPing [] [] example_client
      = Some (c', \<lparr>cr_status = Status_kOk, cr_value = [], cr_error = []\<rparr>)
    \<and> cl_in_buf c' @ delivered (net_recv (cl_net c')) = [7]"
  using client_call_roundtrip [OF example_client_ready, of "\<lambda>_. ''error''"] by (auto simp: example_reply_def)

lemma disconnect_next [simp]: "cl_next_request_id (disconnect c) = cl_next_request_id c"
  by (simp add: disconnect_def close_fds_def split: prod.split)

lemma receive_loop_next:
  "receive_loop strerror i op answers out c = Some (c', e, r) \<Longrightarrow> cl_next_request_id c' = cl_next_request_id c"
proof (induction strerror i op answers out c rule: receive_loop.induct)
  case (1 strerror i op answers out c)
  note st = "1.prems" [unfolded receive_loop.simps [of _ _ _ answers] Let_def]
  show ?case
    using st "1.IH" by (auto simp: keep_answers_def split: prod.splits if_splits list.splits recv_outcome.splits errno.splits)
qed

text \<open>What a call without an error has sent and consumed.\<close>

lemma client_execute_sound:
  assumes "client_execute strerror op key value c = Some (c', res)" "cr_ok res"
  shows "net_sent (cl_net c') = net_sent (cl_net c) @ serialize_request (request_of op key value c)
    \<and> (\<exists>r. resp_request_id r = cl_next_request_id c \<and> resp_opcode r = op
    \<and> cr_status res = resp_status r \<and> cr_value res = resp_value r
    \<and> cl_in_buf c @ delivered (net_recv (cl_net c))
      = serialize_response r @ cl_in_buf c' @ delivered (net_recv (cl_net c')))
    \<and> cl_next_request_id c' = cl_next_request_id c + 1"
proof -
  have ok: "connected c" "fits_protocol key value"
    using assms by (auto simp: client_execute_def Let_def cr_ok_def fits_protocol_def split: if_splits)
  let ?req = "request_of op key value c"
  note e = assms(1) [unfolded client_execute_send [OF ok] Let_def]
  from e obtain err sent rest where s: "send_loop strerror (serialize_request ?req) (net_send (cl_net c)) = Some (err, sent, rest)"
    by (cases "send_loop strerror (serialize_request ?req) (net_send (cl_net c))") auto
  have err: "err = []" using e assms(2) by (auto simp: s cr_ok_def new_cache_result_def split: if_splits)
  define d where "d = c\<lparr>cl_next_request_id := cl_next_request_id c + 1, cl_out_buf := serialize_request ?req,
    cl_net := (cl_net c)\<lparr>net_send := rest, net_sent := net_sent (cl_net c) @ sent\<rparr>\<rparr>"
  note e = e [unfolded s err option.case prod.case, folded d_def, simplified]
  from e obtain err' r where l: "receive_loop strerror (cl_next_request_id c) op (net_recv (cl_net c)) default_response d
      = Some (c', err', r)"
    by (auto simp: d_def request_of_def split: option.splits if_splits)
  with e assms(2) have res: "err' = []" "cr_status res = resp_status r" "cr_value res = resp_value r"
    by (auto simp: d_def request_of_def cr_ok_def new_cache_result_def split: if_splits)
  have d: "cl_in_buf d = cl_in_buf c" "net_sent (cl_net d) = net_sent (cl_net c) @ sent" by (simp_all add: d_def)
  have "sent = serialize_request ?req" using send_loop_sent [OF s] err by auto
  with receive_loop_sound [OF l [unfolded res(1)]] receive_loop_next [OF l] d res show ?thesis by (auto simp: d_def)
qed

text \<open>
  C35. A result belongs to its request: whatever the server sends and the kernel answers, a call that
  reports no error has sent the whole request frame and returns the status and value of the first frame
  of the incoming stream, which carries the identifier and the opcode of this request; the rest of the
  stream is kept for the next call.
\<close>

theorem client_result_correlated:
  assumes "client_execute strerror op key value c = Some (c', res)" "cr_ok res"
  shows "net_sent (cl_net c') = net_sent (cl_net c) @ serialize_request (request_of op key value c)
    \<and> (\<exists>r. resp_request_id r = cl_next_request_id c \<and> resp_opcode r = op
    \<and> cr_status res = resp_status r \<and> cr_value res = resp_value r
    \<and> cl_in_buf c @ delivered (net_recv (cl_net c))
      = serialize_response r @ cl_in_buf c' @ delivered (net_recv (cl_net c')))"
  using client_execute_sound [OF assms] by blast

theorem client_result_correlated_witness:
  "\<exists>c' res. client_execute (\<lambda>_. ''error'') Opcode_kPing [] [] example_client = Some (c', res) \<and> cr_ok res
     \<and> net_sent (cl_net c') = net_sent (cl_net example_client) @ serialize_request (request_of Opcode_kPing [] [] example_client)"
proof -
  from client_call [OF example_client_ready, of "\<lambda>_. ''error''"] obtain c' where
    c': "client_execute (\<lambda>_. ''error'') Opcode_kPing [] [] example_client
      = Some (c', \<lparr>cr_status = resp_status example_reply, cr_value = resp_value example_reply, cr_error = []\<rparr>)" by blast
  from client_result_correlated [OF c'] c' show ?thesis by (simp add: cr_ok_def)
qed

section \<open>A send that fails half way\<close>

lemma disconnect_sent [simp]: "net_sent (cl_net (disconnect c)) = net_sent (cl_net c)"
  by (simp add: disconnect_def close_fds_def split: prod.split)

lemma receive_loop_sent:
  "receive_loop strerror i op answers out c = Some (c', e, r) \<Longrightarrow> net_sent (cl_net c') = net_sent (cl_net c)"
proof (induction strerror i op answers out c rule: receive_loop.induct)
  case (1 strerror i op answers out c)
  note st = "1.prems" [unfolded receive_loop.simps [of _ _ _ answers] Let_def]
  show ?case
    using st "1.IH" by (auto split: prod.splits if_splits list.splits recv_outcome.splits errno.splits)
qed

lemma client_execute_failed_send:
  assumes "connected c" "fits_protocol key value"
    and "send_loop strerror (serialize_request (request_of op key value c)) (net_send (cl_net c)) = Some (e, sent, rest)" "e \<noteq> []"
  shows "client_execute strerror op key value c = Some (c\<lparr>cl_next_request_id := cl_next_request_id c + 1,
      cl_out_buf := serialize_request (request_of op key value c),
      cl_net := (cl_net c)\<lparr>net_send := rest, net_sent := net_sent (cl_net c) @ sent\<rparr>\<rparr>, new_cache_result\<lparr>cr_error := e\<rparr>)"
  using assms(3,4) by (simp add: client_execute_send [OF assms(1,2)] Let_def)

lemma client_execute_sent:
  assumes "connected c" "fits_protocol key value" "client_execute strerror op key value c = Some (c', res)"
    and "accepting (net_send (cl_net c))" "length (serialize_request (request_of op key value c)) \<le> sends (net_send (cl_net c))"
  shows "net_sent (cl_net c') = net_sent (cl_net c) @ serialize_request (request_of op key value c)"
proof -
  from send_loop_total [OF assms(4,5), of strerror] assms(3) show ?thesis
    by (auto simp: client_execute_send [OF assms(1,2)] Let_def dest!: receive_loop_sent split: option.splits if_splits)
qed

text \<open>The client after a put of which the kernel took only the header and the key, and the frame of a get that follows.\<close>

definition half_sent :: "bytes \<Rightarrow> bytes \<Rightarrow> send_outcome list \<Rightarrow> cache_client \<Rightarrow> cache_client" where
  "half_sent key value rest c = c\<lparr>cl_next_request_id := cl_next_request_id c + 1,
     cl_out_buf := serialize_request (request_of Opcode_kPut key value c),
     cl_net := (cl_net c)\<lparr>net_send := rest, net_sent := net_sent (cl_net c)
       @ take (24 + length key) (serialize_request (request_of Opcode_kPut key value c))\<rparr>\<rparr>"

definition next_get_frame :: "bytes \<Rightarrow> cache_client \<Rightarrow> bytes" where
  "next_get_frame key c =
     serialize_request (request_of Opcode_kGet key [] (c\<lparr>cl_next_request_id := cl_next_request_id c + 1\<rparr>))"

text \<open>
  C38. A put that times out half way is completed by the next request. When the kernel takes the header and
  the key of a \<^verbatim>\<open>put\<close> frame and then times out, the call reports the error but the client stays connected;
  the frame of the next call, a \<^verbatim>\<open>get\<close> whose frame is as long as the missing value, follows on the wire, and
  the server reads from the two calls the one request to store the bytes of the \<^verbatim>\<open>get\<close> frame under the key
  of the put. \<^verbatim>\<open>receive_response\<close> disconnects in this situation, \<^verbatim>\<open>send_all\<close> does not.
\<close>

theorem client_partial_send:
  assumes "connected c" "fits_protocol key value" "fits_protocol key' []" "length value = length (next_get_frame key' c)"
    and "net_send (cl_net c) = Sent (24 + length key) # Send_failed EAGAIN # rest"
    and "accepting rest" "length (next_get_frame key' c) \<le> sends rest"
    and "request_ok lim (request_of Opcode_kPut key value c)"
  shows "client_put strerror key value c = Some (half_sent key value rest c, new_cache_result\<lparr>cr_error := ''send timed out''\<rparr>)
    \<and> connected (half_sent key value rest c)
    \<and> (\<forall>c2 res. client_get strerror key' (half_sent key value rest c) = Some (c2, res) \<longrightarrow>
        (\<exists>wire. net_sent (cl_net c2) = net_sent (cl_net c) @ wire
          \<and> deserialize_request wire lim out = (pr_complete (length wire), request_of Opcode_kPut key (next_get_frame key' c) c)))"
proof (intro conjI allI impI)
  let ?g = "next_get_frame key' c" and ?c1 = "half_sent key value rest c"
  let ?put = "request_of Opcode_kPut key value c" and ?seen = "request_of Opcode_kPut key ?g c"
  let ?n = "24 + length key"
  have len: "length (serialize_request ?put) = ?n + length ?g" "0 < length ?g"
    using assms(4) by (simp_all add: request_of_def kHeaderSize_def next_get_frame_def)
  then have "send_loop strerror (serialize_request ?put) (net_send (cl_net c))
      = Some (''send timed out'', take ?n (serialize_request ?put), rest)"
    by (subst assms(5), subst send_loop.simps, subst send_loop.simps) auto
  from client_execute_failed_send [OF assms(1,2) this]
  show "client_put strerror key value c = Some (?c1, new_cache_result\<lparr>cr_error := ''send timed out''\<rparr>)"
    by (simp add: client_put_def half_sent_def)
  show c1: "connected ?c1" using assms(1) by (simp add: half_sent_def connected_def)
  fix c2 res
  assume get: "client_get strerror key' ?c1 = Some (c2, res)"
  have g: "serialize_request (request_of Opcode_kGet key' [] ?c1) = ?g"
    by (simp add: next_get_frame_def half_sent_def request_of_def)
  have ns: "net_send (cl_net ?c1) = rest" by (simp add: half_sent_def)
  have "net_sent (cl_net c2) = net_sent (cl_net ?c1) @ ?g"
    using client_execute_sent [OF c1 assms(3) get [unfolded client_get_def], unfolded g ns] assms(6,7) by simp
  moreover have "take ?n (serialize_request ?put) @ ?g = serialize_request ?seen"
    using assms(4) by (simp add: serialize_request_eq request_header_def request_of_def kHeaderSize_def)
  ultimately have "net_sent (cl_net c2) = net_sent (cl_net c) @ serialize_request ?seen" by (simp add: half_sent_def)
  moreover have "request_ok lim ?seen"
    using assms(4,8) by (simp add: request_ok_def request_of_def opcode_allows_value_def)
  ultimately show "\<exists>wire. net_sent (cl_net c2) = net_sent (cl_net c) @ wire
      \<and> deserialize_request wire lim out = (pr_complete (length wire), ?seen)"
    using deserialize_serialize_request [of lim ?seen "[]" out] by (intro exI [of _ "serialize_request ?seen"]) simp
qed

definition example_blocked :: cache_client where
  "example_blocked = (new_cache_client ''/tmp/s'' \<lparr>net_send = Sent 25 # Send_failed EAGAIN # replicate 25 (Sent 1),
     net_recv = [], net_sent = [], net_closed = []\<rparr>)\<lparr>cl_fd := fd_make 3\<rparr>"

theorem client_partial_send_witness:
  "client_put (\<lambda>_. ''error'') [1] (replicate 25 0) example_blocked
     = Some (half_sent [1] (replicate 25 0) (replicate 25 (Sent 1)) example_blocked,
         new_cache_result\<lparr>cr_error := ''send timed out''\<rparr>)
   \<and> connected (half_sent [1] (replicate 25 0) (replicate 25 (Sent 1)) example_blocked)"
  using client_partial_send [of example_blocked "[1]" "replicate 25 0" "[2]" "replicate 25 (Sent 1)" default_limits "\<lambda>_. ''error''"]
  by (simp add: example_blocked_def new_cache_client_def connected_def fd_valid_def fd_make_def fits_protocol_def
      next_get_frame_def request_of_def request_ok_def kHeaderSize_def default_limits_def opcode_allows_value_def
      effective_limit_def)

text \<open>
  \<^verbatim>\<open>connect\<close> neither leaks nor loses a descriptor: it fails without touching the connection and closes
  exactly the socket it opened, or it adopts that socket, closes exactly the previous one and drops the
  bytes buffered from it. The socket address is never written past its array.
\<close>

theorem client_connect_owns:
  assumes "client_connect strerror answers c = (c', error)" "ca_socket answers = - 1 \<or> ca_socket answers \<ge> 0"
    and "ca_socket answers \<ge> 0 \<longrightarrow> ca_socket answers \<noteq> ufd (cl_fd c)"
  shows "if error = [] then length (cl_socket_path c) < sizeof_sun_path \<and> ufd (cl_fd c') = ca_socket answers \<and> connected c'
      \<and> cl_in_buf c' = [] \<and> net_closed (cl_net c') = net_closed (cl_net c) @ (if connected c then [ufd (cl_fd c)] else [])
    else \<exists>fds. c' = close_fds fds c \<and> set fds \<subseteq> {ca_socket answers}
      \<and> (length (cl_socket_path c) < sizeof_sun_path \<and> ca_socket answers \<ge> 0 \<longrightarrow> fds = [ca_socket answers])"
proof -
  have none: "\<exists>fds. c = close_fds fds c \<and> fds = []" by (simp add: close_fds_def)
  note d = assms(1) [unfolded client_connect_def Let_def]
  show ?thesis
  proof (cases "length (cl_socket_path c) \<ge> sizeof_sun_path \<or> ca_socket answers < 0")
    case True
    with d none assms(2) show ?thesis
      by (auto simp: fd_make_def fd_valid_def fd_destroy_def fd_reset_def split: if_splits)
  next
    case False
    with d assms(3) show ?thesis
      by (auto simp: fd_make_def fd_valid_def fd_destroy_def fd_reset_def fd_move_def fd_release_def connected_def
          close_fds_def split: if_splits)
  qed
qed

theorem client_connect_owns_witness:
  "\<exists>c'. client_connect (\<lambda>_. ''error'') \<lparr>ca_socket = 9, ca_rcvtimeo = True, ca_sndtimeo = True, ca_connect = False, ca_errno = EOTHER\<rparr>
     example_blocked = (c', ''connect(/tmp/s): error'') \<and> c' = close_fds [9] example_blocked"
proof -
  let ?a = "\<lparr>ca_socket = 9, ca_rcvtimeo = True, ca_sndtimeo = True, ca_connect = False, ca_errno = EOTHER\<rparr>"
  have e: "client_connect (\<lambda>_. ''error'') ?a example_blocked = (close_fds [9] example_blocked, ''connect(/tmp/s): error'')"
    by (simp add: client_connect_def example_blocked_def new_cache_client_def sizeof_sun_path_def fd_make_def fd_valid_def
        fd_destroy_def fd_reset_def errno_message_def)
  from client_connect_owns [OF e] show ?thesis
    using e by (simp add: example_blocked_def new_cache_client_def fd_make_def sizeof_sun_path_def)
qed

end
