(* ===== verification/ClientMain.thy ===== *)
theory ClientMain
  imports ClientProperties
begin

text \<open>
  The command-line client (\<^verbatim>\<open>client/client_main.cpp\<close>). A run takes the arguments, standard input and the
  answers of the kernel and returns the exit code with what was printed; \<open>None\<close> is a call that blocks for
  ever. Standard input is the list of the chunks the calls of \<^verbatim>\<open>fread\<close> return.
\<close>

section \<open>Program\<close>

datatype print = Out_bytes bytes | Out_text string | Err_text string

definition kDefaultSocket :: string where "kDefaultSocket = ''/tmp/local_cache.sock''"

definition print_usage :: "string \<Rightarrow> print list" where
  "print_usage program = [Out_text (
     ''Usage: '' @ program @ '' [--socket PATH] <command> [args]'' @ nl
     @ nl
     @ ''Commands:'' @ nl
     @ ''  put <key> <value>   Store a value (value read from stdin if omitted)'' @ nl
     @ ''  get <key>           Fetch a value, written verbatim to stdout'' @ nl
     @ ''  delete <key>        Remove a key'' @ nl
     @ ''  ping                Check that the service is reachable'' @ nl
     @ ''  stats               Print server statistics'' @ nl
     @ ''  clear               Drop every cache entry'' @ nl
     @ nl
     @ ''Exit codes: 0 success, 1 transport error, 3 not found, 4 server error'' @ nl)]"

definition kStdinChunkBytes :: nat where "kStdinChunkBytes = 8192"

text \<open>Standard input until a read returns nothing; a read returns at most the size of the buffer.\<close>

fun read_stdin :: "bytes list \<Rightarrow> bytes" where
  "read_stdin [] = []"
| "read_stdin (chunk # chunks) =
     (let n = min kStdinChunkBytes (length chunk)
      in if n = 0 then [] else take n chunk @ read_stdin chunks)"

definition print_stats :: "stats_snapshot \<Rightarrow> print list" where
  "print_stats s =
     [Out_text (''cache_hits            '' @ to_string (unat (cache_hits s)) @ nl),
      Out_text (''cache_misses          '' @ to_string (unat (cache_misses s)) @ nl),
      Out_text (''hit_rate              '' @ printf_fixed 4 (hit_rate s) @ nl),
      Out_text (''puts                  '' @ to_string (unat (puts s)) @ nl),
      Out_text (''deletes               '' @ to_string (unat (deletes s)) @ nl),
      Out_text (''evictions             '' @ to_string (unat (evictions s)) @ nl),
      Out_text (''current_entries       '' @ to_string (unat (current_entries s)) @ nl),
      Out_text (''current_cache_bytes   '' @ to_string (unat (current_cache_bytes s)) @ nl),
      Out_text (''current_payload_bytes '' @ to_string (unat (current_payload_bytes s)) @ nl),
      Out_text (''active_connections    '' @ to_string (unat (active_connections s)) @ nl),
      Out_text (''total_connections     '' @ to_string (unat (total_connections s)) @ nl),
      Out_text (''requests_processed    '' @ to_string (unat (requests_processed s)) @ nl),
      Out_text (''protocol_errors       '' @ to_string (unat (protocol_errors s)) @ nl),
      Out_text (''rejected_requests     '' @ to_string (unat (rejected_requests s)) @ nl),
      Out_text (''uptime_ms             '' @ to_string (unat (uptime_ms s)) @ nl)]"

definition report_status :: "status \<Rightarrow> int \<times> print list" where
  "report_status status =
     (case status of
        Status_kOk \<Rightarrow> (0, [])
      | Status_kNotFound \<Rightarrow> (3, [Err_text (''NOT_FOUND'' @ nl)])
      | _ \<Rightarrow> (4, [Err_text (status_to_string status @ nl)]))"

text \<open>The argument loop: \<open>None\<close> is a request for help, otherwise the socket path and the arguments left.\<close>

fun client_args :: "string list \<Rightarrow> string \<Rightarrow> string list \<Rightarrow> (string \<times> string list) option" where
  "client_args [] path args = Some (path, args)"
| "client_args (arg # rest) path args =
     (if arg = ''--socket'' \<and> rest \<noteq> [] then client_args (tl rest) (hd rest) args
      else if arg = ''--help'' \<or> arg = ''-h'' then None
      else client_args rest path (args @ [arg]))"

definition bytes_of :: "string \<Rightarrow> bytes" where
  "bytes_of s = map (\<lambda>ch. of_nat (of_char ch)) s"

text \<open>The end of a command: the transport error, or what it prints and the status.\<close>

definition finish_command :: "string \<Rightarrow> (cache_result \<Rightarrow> print list) \<Rightarrow> cache_result \<Rightarrow> int \<times> print list" where
  "finish_command command out result =
     (if \<not> cr_ok result then (1, [Err_text (command @ '' failed: '' @ cr_error result @ nl)])
      else case report_status (cr_status result) of (code, prints) \<Rightarrow> (code, out result @ prints))"

definition command_put :: "(errno \<Rightarrow> string) \<Rightarrow> string list \<Rightarrow> bytes list \<Rightarrow> cache_client \<Rightarrow> (int \<times> print list) option" where
  "command_put strerror args stdin client =
     (if length args < 2 then Some (2, [Err_text (''put requires a key'' @ nl)])
      else let value = (if length args \<ge> 3 then bytes_of (args ! 2) else read_stdin stdin)
           in map_option (finish_command ''put'' (\<lambda>_. []) \<circ> snd) (client_put strerror (bytes_of (args ! 1)) value client))"

definition command_get :: "(errno \<Rightarrow> string) \<Rightarrow> string list \<Rightarrow> cache_client \<Rightarrow> (int \<times> print list) option" where
  "command_get strerror args client =
     (if length args < 2 then Some (2, [Err_text (''get requires a key'' @ nl)])
      else map_option (finish_command ''get''
               (\<lambda>result. if cr_status result = Status_kOk then [Out_bytes (cr_value result)] else []) \<circ> snd)
             (client_get strerror (bytes_of (args ! 1)) client))"

definition command_delete :: "(errno \<Rightarrow> string) \<Rightarrow> string list \<Rightarrow> cache_client \<Rightarrow> (int \<times> print list) option" where
  "command_delete strerror args client =
     (if length args < 2 then Some (2, [Err_text (''delete requires a key'' @ nl)])
      else map_option (finish_command ''delete'' (\<lambda>_. []) \<circ> snd) (client_erase strerror (bytes_of (args ! 1)) client))"

definition command_ping :: "(errno \<Rightarrow> string) \<Rightarrow> cache_client \<Rightarrow> (int \<times> print list) option" where
  "command_ping strerror client =
     map_option (finish_command ''ping'' (\<lambda>_. [Out_text (''PONG'' @ nl)]) \<circ> snd) (client_ping strerror client)"

definition command_clear :: "(errno \<Rightarrow> string) \<Rightarrow> cache_client \<Rightarrow> (int \<times> print list) option" where
  "command_clear strerror client =
     map_option (finish_command ''clear'' (\<lambda>_. []) \<circ> snd) (client_clear strerror client)"

definition command_stats :: "(errno \<Rightarrow> string) \<Rightarrow> cache_client \<Rightarrow> (int \<times> print list) option" where
  "command_stats strerror client =
     map_option (\<lambda>(_, result).
       if \<not> sr_ok result then (1, [Err_text (''stats failed: '' @ sr_error result @ nl)])
       else (0, print_stats (sr_stats result))) (client_stats strerror client)"

definition run_command ::
  "(errno \<Rightarrow> string) \<Rightarrow> string \<Rightarrow> string list \<Rightarrow> bytes list \<Rightarrow> cache_client \<Rightarrow> (int \<times> print list) option" where
  "run_command strerror program args stdin client =
     (let command = args ! 0 in
      if command = ''put'' then command_put strerror args stdin client
      else if command = ''get'' then command_get strerror args client
      else if command = ''delete'' then command_delete strerror args client
      else if command = ''ping'' then command_ping strerror client
      else if command = ''clear'' then command_clear strerror client
      else if command = ''stats'' then command_stats strerror client
      else Some (2, Err_text (''unknown command: '' @ command @ nl) # print_usage program))"

definition client_main ::
  "(errno \<Rightarrow> string) \<Rightarrow> connect_answers \<Rightarrow> network \<Rightarrow> bytes list \<Rightarrow> string \<Rightarrow> string list \<Rightarrow> (int \<times> print list) option" where
  "client_main strerror answers net stdin program argv =
     (case client_args argv kDefaultSocket [] of
        None \<Rightarrow> Some (0, print_usage program)
      | Some (path, args) \<Rightarrow>
          if args = [] then Some (2, print_usage program)
          else (case client_connect strerror answers (new_cache_client path net) of
                  (client, error) \<Rightarrow>
                    if error \<noteq> [] then Some (1, [Err_text (''connect failed: '' @ error @ nl)])
                    else run_command strerror program args stdin client))"

section \<open>Properties\<close>

text \<open>The exit code a status stands for.\<close>

fun status_code :: "status \<Rightarrow> int" where
  "status_code Status_kOk = 0"
| "status_code Status_kNotFound = 3"
| "status_code _ = 4"

lemma report_status_code: "fst (report_status st) = status_code st"
  by (cases st) (simp_all add: report_status_def)

lemma finish_command_code:
  "fst (finish_command command out res) = (if cr_ok res then status_code (cr_status res) else 1)"
  using report_status_code [of "cr_status res"] by (auto simp: finish_command_def split: prod.split)

lemma status_code_zero: "status_code st = 0 \<longleftrightarrow> st = Status_kOk"
  by (cases st) simp_all

definition is_error :: "print \<Rightarrow> bool" where
  "is_error pr \<longleftrightarrow> (\<exists>text. pr = Err_text text)"

definition is_value :: "print \<Rightarrow> bool" where
  "is_value pr \<longleftrightarrow> (\<exists>bs. pr = Out_bytes bs)"

text \<open>Exit codes in use; nothing on standard error with code 0, no value on standard output without it.\<close>

definition proper_exit :: "int \<times> print list \<Rightarrow> bool" where
  "proper_exit out \<longleftrightarrow> fst out \<in> {0, 1, 2, 3, 4}
     \<and> (fst out = 0 \<longrightarrow> \<not> list_ex is_error (snd out)) \<and> (fst out \<noteq> 0 \<longrightarrow> \<not> list_ex is_value (snd out))"

lemma proper_exit_usage: "code \<in> {0, 2} \<Longrightarrow> proper_exit (code, print_usage program)"
  by (auto simp: proper_exit_def print_usage_def is_error_def is_value_def)

lemma proper_exit_error: "code \<in> {1, 2} \<Longrightarrow> proper_exit (code, [Err_text text])"
  by (auto simp: proper_exit_def is_value_def)

lemma proper_exit_finish:
  assumes "\<And>res. \<not> list_ex is_error (out res)" "\<And>res. cr_status res \<noteq> Status_kOk \<Longrightarrow> \<not> list_ex is_value (out res)"
  shows "proper_exit (finish_command command out res)"
  using assms
  by (cases "cr_status res") (auto simp: finish_command_def report_status_def proper_exit_def is_error_def is_value_def)

lemma run_command_proper:
  assumes "run_command strerror program args stdin client = Some out"
  shows "proper_exit out"
proof -
  have u: "proper_exit (2, Err_text msg # print_usage program)" for msg
    by (simp add: proper_exit_def print_usage_def is_value_def)
  have f: "proper_exit (finish_command name (\<lambda>_. []) res)" "proper_exit (finish_command name (\<lambda>_. [Out_text msg]) res)"
    "proper_exit (finish_command name (\<lambda>res. if cr_status res = Status_kOk then [Out_bytes (cr_value res)] else []) res)"
    for name msg res by (rule proper_exit_finish; simp add: is_error_def is_value_def)+
  have st: "proper_exit (0, print_stats st)" for st by (simp add: proper_exit_def print_stats_def is_error_def)
  from assms show ?thesis
    by (auto simp: run_command_def command_put_def command_get_def command_delete_def command_ping_def command_clear_def
        command_stats_def Let_def u f st intro: proper_exit_error split: if_splits)
qed

text \<open>
  C39. The exit code of the command-line client tells the outcome: a run that ends does so with one of the
  codes 0 to 4, prints nothing on standard error when the code is 0, and writes a value to standard output
  only then.
\<close>

theorem client_main_exit:
  assumes "client_main strerror answers net stdin program argv = Some (code, prints)"
  shows "code \<in> {0, 1, 2, 3, 4} \<and> (code = 0 \<longrightarrow> \<not> list_ex is_error prints)
    \<and> (code \<noteq> 0 \<longrightarrow> \<not> list_ex is_value prints)"
proof -
  have "proper_exit (code, prints)"
    using assms
    by (auto simp: client_main_def intro: proper_exit_usage proper_exit_error run_command_proper
        split: option.splits prod.splits if_splits)
  then show ?thesis by (simp add: proper_exit_def)
qed

theorem client_main_exit_witness:
  "client_main (\<lambda>_. ''error'') \<lparr>ca_socket = - 1, ca_rcvtimeo = True, ca_sndtimeo = True, ca_connect = True, ca_errno = EOTHER\<rparr>
     \<lparr>net_send = [], net_recv = [], net_sent = [], net_closed = []\<rparr> [] ''cache_cli'' [''get'', ''k'']
   = Some (1, [Err_text (''connect failed: socket: error'' @ nl)]) \<and> (1 :: int) \<in> {0, 1, 2, 3, 4}"
proof -
  let ?a = "\<lparr>ca_socket = - 1, ca_rcvtimeo = True, ca_sndtimeo = True, ca_connect = True, ca_errno = EOTHER\<rparr>"
  let ?n = "\<lparr>net_send = [], net_recv = [], net_sent = [], net_closed = []\<rparr>"
  have e: "client_main (\<lambda>_. ''error'') ?a ?n [] ''cache_cli'' [''get'', ''k'']
      = Some (1, [Err_text (''connect failed: socket: error'' @ nl)])"
    by (simp add: client_main_def client_connect_def new_cache_client_def kDefaultSocket_def sizeof_sun_path_def
        fd_make_def fd_valid_def fd_destroy_def fd_reset_def errno_message_def)
  from client_main_exit [OF e] e show ?thesis by simp
qed

section \<open>Whole runs\<close>

lemma connect_ready:
  assumes "client_connect strerror answers (new_cache_client path net) = (c, [])"
  shows "connected c" "cl_in_buf c = []" "cl_next_request_id c = 1" "net_send (cl_net c) = net_send net"
    "net_recv (cl_net c) = net_recv net" "net_sent (cl_net c) = net_sent net"
  using assms
  by (auto simp: client_connect_def new_cache_client_def Let_def connected_def fd_move_def fd_release_def fd_reset_def
      fd_make_def fd_valid_def close_fds_def errno_message_def split: if_splits)

text \<open>The network answers a request of the first call with \<open>r\<close>.\<close>

definition answered :: "opcode \<Rightarrow> bytes \<Rightarrow> bytes \<Rightarrow> response \<Rightarrow> network \<Rightarrow> bool" where
  "answered op key value r net \<longleftrightarrow>
     fits_protocol key value \<and> accepting (net_send net) \<and> 24 + length key + length value \<le> sends (net_send net)
   \<and> response_ok kClientLimits r \<and> resp_request_id r = 1 \<and> resp_opcode r = op
   \<and> (\<exists>tail. delivered (net_recv net) = serialize_response r @ tail)"

lemma first_call:
  assumes "client_connect strerror answers (new_cache_client path net) = (c, [])" "answered op key value r net"
  shows "\<exists>c'. client_execute strerror op key value c
    = Some (c', \<lparr>cr_status = resp_status r, cr_value = resp_value r, cr_error = []\<rparr>)
    \<and> net_sent (cl_net c') = net_sent net @ serialize_request (request_of op key value c)"
proof -
  note c = connect_ready [OF assms(1)]
  from assms(2) obtain tail where tail: "cl_in_buf c @ delivered (net_recv (cl_net c)) = serialize_response r @ tail"
    by (auto simp: answered_def c)
  have "fits_protocol key value" "accepting (net_send (cl_net c))" "response_ok kClientLimits r"
    "resp_request_id r = cl_next_request_id c" "resp_opcode r = op"
    "length (serialize_request (request_of op key value c)) \<le> sends (net_send (cl_net c))"
    using assms(2) by (simp_all add: answered_def c request_of_def kHeaderSize_def)
  from client_call [OF c(1) this(1,2) this(6) this(3-5) tail, of strerror] show ?thesis by (auto simp: c)
qed

text \<open>
  C36. A \<^verbatim>\<open>get\<close> on the command line prints exactly the value: once connected, when the server answers, in
  whatever chunks, the run ends; with the value of the response as the only output and exit code 0 on a hit,
  with \<^verbatim>\<open>NOT_FOUND\<close> on standard error and exit code 3 on a miss, and with the name of the status and exit
  code 4 otherwise.
\<close>

theorem client_main_get:
  assumes "client_connect strerror answers (new_cache_client kDefaultSocket net) = (c, [])"
    and "k \<notin> {''--help'', ''-h''}" "answered Opcode_kGet (bytes_of k) [] r net"
  shows "client_main strerror answers net stdin program [''get'', k] = Some (
    case resp_status r of
      Status_kOk \<Rightarrow> (0, [Out_bytes (resp_value r)])
    | Status_kNotFound \<Rightarrow> (3, [Err_text (''NOT_FOUND'' @ nl)])
    | st \<Rightarrow> (4, [Err_text (status_to_string st @ nl)]))"
proof -
  from first_call [OF assms(1,3)] obtain c' where "client_execute strerror Opcode_kGet (bytes_of k) [] c
      = Some (c', \<lparr>cr_status = resp_status r, cr_value = resp_value r, cr_error = []\<rparr>)" by blast
  with assms(1,2) show ?thesis
    by (cases "resp_status r") (simp_all add: client_main_def run_command_def command_get_def client_get_def
        finish_command_def report_status_def cr_ok_def)
qed

definition example_hit_reply :: response where
  "example_hit_reply = \<lparr>resp_opcode = Opcode_kGet, resp_status = Status_kOk, resp_request_id = 1, resp_value = [4, 2]\<rparr>"

definition example_net :: "response \<Rightarrow> network" where
  "example_net r = \<lparr>net_send = replicate 25 (Sent 1), net_recv = [Received (serialize_response r)],
     net_sent = [], net_closed = []\<rparr>"

definition example_answers :: connect_answers where
  "example_answers = \<lparr>ca_socket = 3, ca_rcvtimeo = True, ca_sndtimeo = True, ca_connect = True, ca_errno = EOTHER\<rparr>"

lemma example_connects:
  "\<exists>c. client_connect strerror example_answers (new_cache_client kDefaultSocket net) = (c, [])"
  by (simp add: client_connect_def example_answers_def new_cache_client_def kDefaultSocket_def sizeof_sun_path_def
      fd_make_def fd_valid_def Let_def split: prod.split)

lemma example_answered:
  assumes "length (resp_value r) \<le> 100" "resp_request_id r = 1" "length key \<le> 1"
  shows "answered (resp_opcode r) key [] r (example_net r)"
proof -
  have "length (serialize_response r) \<le> kClientChunkBytes" using assms(1) by (simp add: kHeaderSize_def kClientChunkBytes_def)
  moreover have "serialize_response r \<noteq> []"
    using length_serialize_response [of r] by (auto simp: kHeaderSize_def simp del: length_serialize_response)
  ultimately show ?thesis
    using assms by (auto simp: answered_def example_net_def fits_protocol_def response_ok_def kClientLimits_def effective_limit_def)
qed

theorem client_main_get_witness:
  "client_main (\<lambda>_. ''error'') example_answers (example_net example_hit_reply) [] ''cache_cli'' [''get'', ''k'']
     = Some (0, [Out_bytes [4, 2]])"
proof -
  obtain c where c: "client_connect (\<lambda>_. ''error'') example_answers (new_cache_client kDefaultSocket (example_net example_hit_reply))
      = (c, [])" using example_connects by blast
  have "answered Opcode_kGet (bytes_of ''k'') [] example_hit_reply (example_net example_hit_reply)"
    using example_answered [of example_hit_reply "bytes_of ''k''"] by (simp add: example_hit_reply_def bytes_of_def)
  from client_main_get [OF c _ this] show ?thesis by (simp add: example_hit_reply_def)
qed

text \<open>
  C40. \<^verbatim>\<open>stats\<close> reports a server error as a transport error: when the server answers a \<^verbatim>\<open>stats\<close> command with a
  status other than \<^verbatim>\<open>kOk\<close>, such as \<^verbatim>\<open>kServerBusy\<close>, the run ends with exit code 1, while every other command
  and the usage text report it as 4.
\<close>

theorem client_stats_exit_code:
  assumes "client_connect strerror answers (new_cache_client kDefaultSocket net) = (c, [])"
    and "answered Opcode_kStats [] [] r net" "resp_status r \<noteq> Status_kOk"
  shows "client_main strerror answers net stdin program [''stats'']
    = Some (1, [Err_text (''stats failed: server returned '' @ status_to_string (resp_status r) @ nl)])"
proof -
  from first_call [OF assms(1,2)] obtain c' where "client_execute strerror Opcode_kStats [] [] c
      = Some (c', \<lparr>cr_status = resp_status r, cr_value = resp_value r, cr_error = []\<rparr>)" by blast
  with assms(1,3) show ?thesis
    by (simp add: client_main_def run_command_def command_stats_def client_stats_def cr_ok_def sr_ok_def new_stats_result_def)
qed

theorem client_stats_exit_code_witness:
  "client_main (\<lambda>_. ''error'') example_answers
     (example_net \<lparr>resp_opcode = Opcode_kStats, resp_status = Status_kServerBusy, resp_request_id = 1, resp_value = []\<rparr>)
     [] ''cache_cli'' [''stats'']
   = Some (1, [Err_text (''stats failed: server returned '' @ status_to_string Status_kServerBusy @ nl)])"
proof -
  let ?r = "\<lparr>resp_opcode = Opcode_kStats, resp_status = Status_kServerBusy, resp_request_id = 1, resp_value = []\<rparr>"
  obtain c where c: "client_connect (\<lambda>_. ''error'') example_answers (new_cache_client kDefaultSocket (example_net ?r)) = (c, [])"
    using example_connects by blast
  have "answered Opcode_kStats [] [] ?r (example_net ?r)" using example_answered [of ?r "[]"] by simp
  from client_stats_exit_code [OF c this] show ?thesis by simp
qed

end
