(* ===== verification/Stress.thy ===== *)
theory Stress
  imports AsyncClientProperties ClientMain
begin

text \<open>
  The stress program (\<^verbatim>\<open>benchmark/stress.cpp\<close>): it stores a payload computed from each sequence number, reads
  every one back and compares. The counters its callbacks capture are the state that the two engines share.
  \<open>strtoull\<close> is the function of the C library for base 10.
\<close>

section \<open>Numbers\<close>



section \<open>Program\<close>



definition payload_step :: "u64 \<Rightarrow> u64" where
  "payload_step state =
     (let state = xor state (drop_bit 12 state);
          state = xor state (push_bit 25 state)
      in xor state (drop_bit 27 state))"

primrec payload_fill :: "nat \<Rightarrow> u64 \<Rightarrow> bytes" where
  "payload_fill 0 state = []"
| "payload_fill (Suc n) state = (let state = payload_step state in ucast (and state 0xff) # payload_fill n state)"


















section \<open>Numbers are read back\<close>








section \<open>The callbacks keep count\<close>











section \<open>What exit code 0 means\<close>















lemma length_payload_fill [simp]: "length (payload_fill n state) = n"
  by (induction n arbitrary: state) (simp_all add: Let_def)




end
