(* ===== verification/Benchmark.thy ===== *)
theory Benchmark
  imports Stress
begin

text \<open>
  The benchmark program (\<^verbatim>\<open>benchmark/benchmark.cpp\<close>): it stores every key with the blocking client, then drives a
  random mixture of reads, stores and deletes through the pipelining client and reports rates and latencies. The
  generator is the \<^verbatim>\<open>std::mt19937_64\<close> of the C++ standard. The two readings of the clock around the run are
  arguments.
\<close>

section \<open>Options\<close>

record bench_options =
  bo_socket :: string
  bo_clients :: u64
  bo_pipeline :: u64
  bo_requests :: u64
  bo_key_space :: u64
  read_percent :: u32
  put_percent :: u32
  value_bytes :: u64

definition default_bench_options :: bench_options where
  "default_bench_options = \<lparr>bo_socket = ''/tmp/local_cache.sock'', bo_clients = 100, bo_pipeline = 1, bo_requests = 100000,
     bo_key_space = 10000, read_percent = 95, put_percent = 5, value_bytes = 128\<rparr>"



definition bench_options_ok :: "bench_options \<Rightarrow> bool" where
  "bench_options_ok opts \<longleftrightarrow> bo_clients opts > 0 \<and> bo_pipeline opts > 0 \<and> bo_requests opts > 0 \<and> bo_key_space opts > 0
     \<and> read_percent opts + put_percent opts \<le> 100"



section \<open>Latencies\<close>







section \<open>The generator of random numbers\<close>





section \<open>Program\<close>















section \<open>Storing the keys\<close>




section \<open>The counters\<close>







section \<open>What exit code 0 means\<close>















text \<open>
  The sum of the two percentages is a 32-bit number: options whose percentages are far above 100 are accepted when
  the sum wraps, and every request is then a read.
\<close>

lemma percentages_wrap:
  "bench_options_ok (default_bench_options\<lparr>read_percent := 4294967295, put_percent := 1\<rparr>)"
  by (simp add: bench_options_ok_def default_bench_options_def)

end
